(* ===== verification/Prelude.thy ===== *)
theory Prelude
  imports Main "HOL-Library.Word" "HOL-Library.Char_ord" "HOL-Library.Sublist"
    "HOL-Library.Signed_Division"
begin

text \<open>
  Shared vocabulary of the development: the machine integers of the Go code, its error values,
  the outcome of a call (a value, an error, or a panic), Go slices and \<open>copy\<close>, and the functions
  of the packages \<open>strings\<close>, \<open>strconv\<close> and \<open>fmt\<close> that the program uses.  A Go string is a list
  of bytes and is modelled by \<open>string\<close>, whose characters are bytes.
\<close>

section \<open>Machine integers and errors\<close>

type_synonym byte = "8 word"
type_synonym i32 = "32 word"
type_synonym u32 = "32 word"
type_synonym i64 = "64 word"

text \<open>Collections of the facts that component proofs unfold together.\<close>

named_theorems keeps \<open>facts saying which part of the state an operation leaves alone\<close>

text \<open>The gRPC status codes the program uses.\<close>

datatype grpc_code =
    Unauthenticated
  | FailedPrecondition
  | Internal
  | InvalidArgument
  | Unimplemented

text \<open>
  Error values: \<open>errors.New\<close>, \<open>fmt.Errorf\<close> with a prefix and \<open>%w\<close>, system call errors, the two
  sentinel errors \<open>io.EOF\<close> and \<open>os.ErrClosed\<close>, and gRPC status errors.
\<close>

datatype go_error =
    ErrMsg string
  | ErrWrap string go_error
  | Errno nat
  | ErrEOF
  | ErrClosed
  | ErrStatus grpc_code string

text \<open>A call returns a value, returns an error, or panics.\<close>

datatype 'a outcome = Ok 'a | Err go_error | Panic string

fun is_ok :: "'a outcome \<Rightarrow> bool" where
  "is_ok (Ok x) = True"
| "is_ok (Err e) = False"
| "is_ok (Panic s) = False"

lemma is_ok_iff: "is_ok r \<longleftrightarrow> (\<exists>x. r = Ok x)"
  by (cases r) auto

fun is_panic :: "'a outcome \<Rightarrow> bool" where
  "is_panic (Panic s) = True"
| "is_panic (Ok x) = False"
| "is_panic (Err e) = False"

text \<open>A Go \<open>int\<close> or \<open>int64\<close> result, wrapped to 64 bits.\<close>

definition wrap64 :: "int \<Rightarrow> int" where
  "wrap64 k = signed_take_bit 63 k"

lemma wrap64_id: "- (2 ^ 63) \<le> k \<Longrightarrow> k < 2 ^ 63 \<Longrightarrow> wrap64 k = k"
  unfolding wrap64_def by (rule signed_take_bit_int_eq_self) simp_all

lemma sint_i32_bounds: "- (2 ^ 31) \<le> sint (x :: i32)" "sint (x :: i32) < 2 ^ 31"
  using sint_ge [of x] sint_lt [of x] by simp_all

text \<open>The product of two \<open>int32\<close> values fits a 64-bit \<open>int\<close>.\<close>

lemma wrap64_i32_product: "wrap64 (sint (x :: i32) * sint (y :: i32)) = sint x * sint y"
proof -
  have "\<bar>sint x\<bar> \<le> 2 ^ 31" "\<bar>sint y\<bar> \<le> 2 ^ 31"
    using sint_i32_bounds [of x] sint_i32_bounds [of y] by linarith+
  then have "\<bar>sint x\<bar> * \<bar>sint y\<bar> \<le> 2 ^ 31 * 2 ^ 31"
    by (rule mult_mono) auto
  then have "\<bar>sint x * sint y\<bar> \<le> 2 ^ 62" by (simp add: abs_mult)
  then show ?thesis by (intro wrap64_id) (simp_all add: abs_le_iff)
qed

section \<open>Slices\<close>

text \<open>\<open>copy(dst, src)\<close>: the first \<open>min(len(dst), len(src))\<close> elements are overwritten.\<close>

definition copy_slice :: "'a list \<Rightarrow> 'a list \<Rightarrow> 'a list" where
  "copy_slice dst src = take (length dst) src @ drop (length src) dst"

text \<open>\<open>copy(dst[off:end], src)\<close> with \<open>end - off = len(src)\<close> and \<open>end \<le> len(dst)\<close>.\<close>

definition splice :: "'a list \<Rightarrow> nat \<Rightarrow> 'a list \<Rightarrow> 'a list" where
  "splice dst off src = take off dst @ src @ drop (off + length src) dst"

lemma length_copy_slice [simp]: "length (copy_slice dst src) = length dst"
  by (simp add: copy_slice_def min_def)

lemma copy_slice_Nil [simp]: "copy_slice dst [] = dst"
  by (simp add: copy_slice_def)

lemma copy_slice_full: "length src = length dst \<Longrightarrow> copy_slice dst src = src"
  by (simp add: copy_slice_def)

lemma copy_slice_nth:
  "i < length dst \<Longrightarrow> copy_slice dst src ! i = (if i < length src then src ! i else dst ! i)"
  by (auto simp: copy_slice_def nth_append min_def)

lemma length_splice [simp]:
  "off + length src \<le> length dst \<Longrightarrow> length (splice dst off src) = length dst"
  by (simp add: splice_def)

lemma splice_Nil [simp]: "splice dst off [] = dst"
  by (simp add: splice_def)

text \<open>Two adjacent writes are one write: the lemma behind every chunked copy.\<close>

lemma splice_splice:
  assumes "off + length xs + length ys \<le> length dst"
  shows "splice (splice dst off xs) (off + length xs) ys = splice dst off (xs @ ys)"
proof -
  have "take (off + length xs) (splice dst off xs) = take off dst @ xs"
    using assms by (simp add: splice_def)
  moreover have "drop (off + length xs + length ys) (splice dst off xs)
      = drop (off + length xs + length ys) dst"
    using assms by (cases xs) (auto simp: splice_def min_def ac_simps)
  ultimately show ?thesis
    by (simp add: splice_def [of "splice dst off xs"] splice_def [of dst off "xs @ ys"] add.assoc)
qed

lemma splice_zero: "length xs \<le> length dst \<Longrightarrow> splice dst 0 xs = copy_slice dst xs"
  by (simp add: splice_def copy_slice_def)

section \<open>Strings\<close>

text \<open>The byte comparison \<open>c >= 'A' && c <= 'Z'\<close> and the addition \<open>c += 32\<close>.\<close>

definition is_upper :: "char \<Rightarrow> bool" where
  "is_upper c \<longleftrightarrow> CHR ''A'' \<le> c \<and> c \<le> CHR ''Z''"

definition lower_byte :: "char \<Rightarrow> char" where
  "lower_byte c = (if is_upper c then char_of (of_char c + 32 :: nat) else c)"

definition is_ascii :: "char \<Rightarrow> bool" where
  "is_ascii c \<longleftrightarrow> (of_char c :: nat) < 128"

text \<open>\<open>strings.HasPrefix\<close> and \<open>strings.TrimPrefix\<close>.\<close>

definition has_prefix :: "string \<Rightarrow> string \<Rightarrow> bool" where
  "has_prefix s p \<longleftrightarrow> take (length p) s = p"

definition trim_prefix :: "string \<Rightarrow> string \<Rightarrow> string" where
  "trim_prefix s p = (if has_prefix s p then drop (length p) s else s)"

lemma has_prefix_append [simp]: "has_prefix (p @ s) p"
  by (simp add: has_prefix_def)

lemma has_prefix_iff: "has_prefix s p \<longleftrightarrow> (\<exists>t. s = p @ t)"
  unfolding has_prefix_def by (metis append_eq_conv_conj append_take_drop_id)

lemma trim_prefix_append [simp]: "trim_prefix (p @ s) p = s"
  by (simp add: trim_prefix_def)

text \<open>
  \<open>strings.TrimSpace\<close> removes white space as \<open>unicode.IsSpace\<close> defines it.  On bytes, a leading or
  trailing space rune is one of the following UTF-8 encodings.
\<close>

definition space_runes :: "string list" where
  "space_runes =
     [[CHR 0x09], [CHR 0x0A], [CHR 0x0B], [CHR 0x0C], [CHR 0x0D], [CHR 0x20],
      [CHR 0xC2, CHR 0x85], [CHR 0xC2, CHR 0xA0], [CHR 0xE1, CHR 0x9A, CHR 0x80],
      [CHR 0xE2, CHR 0x80, CHR 0x80], [CHR 0xE2, CHR 0x80, CHR 0x81],
      [CHR 0xE2, CHR 0x80, CHR 0x82], [CHR 0xE2, CHR 0x80, CHR 0x83],
      [CHR 0xE2, CHR 0x80, CHR 0x84], [CHR 0xE2, CHR 0x80, CHR 0x85],
      [CHR 0xE2, CHR 0x80, CHR 0x86], [CHR 0xE2, CHR 0x80, CHR 0x87],
      [CHR 0xE2, CHR 0x80, CHR 0x88], [CHR 0xE2, CHR 0x80, CHR 0x89],
      [CHR 0xE2, CHR 0x80, CHR 0x8A], [CHR 0xE2, CHR 0x80, CHR 0xA8],
      [CHR 0xE2, CHR 0x80, CHR 0xA9], [CHR 0xE2, CHR 0x80, CHR 0xAF],
      [CHR 0xE2, CHR 0x81, CHR 0x9F], [CHR 0xE3, CHR 0x80, CHR 0x80]]"

text \<open>Strip members of \<open>rs\<close> from the front of \<open>s\<close> as long as one is there.\<close>

definition leading :: "string list \<Rightarrow> string \<Rightarrow> string option" where
  "leading rs s = find (\<lambda>r. r \<noteq> [] \<and> has_prefix s r) rs"

function strip_front :: "string list \<Rightarrow> string \<Rightarrow> string" where
  "strip_front rs s =
     (case leading rs s of None \<Rightarrow> s | Some r \<Rightarrow> strip_front rs (drop (length r) s))"
  by pat_completeness auto
termination
  by (relation "measure (\<lambda>(rs, s). length s)")
    (auto simp: leading_def find_Some_iff has_prefix_iff)

declare strip_front.simps [simp del]

definition trim_left :: "string \<Rightarrow> string" where
  "trim_left s = strip_front space_runes s"

definition trim_right :: "string \<Rightarrow> string" where
  "trim_right s = rev (strip_front (map rev space_runes) (rev s))"

definition trim_space :: "string \<Rightarrow> string" where
  "trim_space s = trim_right (trim_left s)"

lemma strip_front_None: "leading rs s = None \<Longrightarrow> strip_front rs s = s"
  by (simp add: strip_front.simps [of rs s])

lemma leading_strip_front: "leading rs (strip_front rs s) = None"
proof (induction rs s rule: strip_front.induct)
  case (1 rs s)
  then show ?case
    by (cases "leading rs s") (simp_all add: strip_front.simps [of rs s])
qed

text \<open>A string is untouched by \<open>TrimSpace\<close> when neither end is white space.\<close>

definition trimmed :: "string \<Rightarrow> bool" where
  "trimmed s \<longleftrightarrow> leading space_runes s = None \<and> leading (map rev space_runes) (rev s) = None"

lemma trim_space_id: "trimmed s \<Longrightarrow> trim_space s = s"
  by (simp add: trimmed_def trim_space_def trim_left_def trim_right_def strip_front_None)

lemma strip_front_suffix: "\<exists>p. s = p @ strip_front rs s"
proof (induction rs s rule: strip_front.induct)
  case (1 rs s)
  show ?case
  proof (cases "leading rs s")
    case None
    then show ?thesis by (simp add: strip_front_None)
  next
    case (Some r)
    then obtain p where "drop (length r) s = p @ strip_front rs (drop (length r) s)"
      using 1 by blast
    then have "s = (take (length r) s @ p) @ strip_front rs s"
      using Some by (metis append.assoc append_take_drop_id option.simps(5) strip_front.simps)
    then show ?thesis by blast
  qed
qed

text \<open>Dropping characters at the end cannot uncover a leading member of \<open>rs\<close>.\<close>

lemma leading_None_iff: "leading rs s = None \<longleftrightarrow> (\<forall>r \<in> set rs. r \<noteq> [] \<longrightarrow> \<not> has_prefix s r)"
  by (auto simp: leading_def find_None_iff)

lemma leading_prefix: "leading rs (s @ t) = None \<Longrightarrow> leading rs s = None"
  unfolding leading_None_iff has_prefix_iff by (metis append.assoc)

lemma trimmed_trim_space: "trimmed (trim_space s)"
proof -
  let ?l = "trim_left s"
  obtain p where "rev ?l = p @ strip_front (map rev space_runes) (rev ?l)"
    using strip_front_suffix by blast
  then have "?l = trim_space s @ rev p"
    unfolding trim_space_def trim_right_def by (metis rev_append rev_rev_ident)
  moreover have "leading space_runes ?l = None"
    by (simp add: trim_left_def leading_strip_front)
  ultimately have "leading space_runes (trim_space s) = None"
    by (metis leading_prefix)
  moreover have "leading (map rev space_runes) (rev (trim_space s)) = None"
    by (simp add: trim_space_def trim_right_def leading_strip_front)
  ultimately show ?thesis by (simp add: trimmed_def)
qed

lemma trim_space_idem: "trim_space (trim_space s) = trim_space s"
  by (rule trim_space_id [OF trimmed_trim_space])

text \<open>A non-empty string of visible ASCII characters is trimmed.\<close>

definition visible :: "char \<Rightarrow> bool" where
  "visible c \<longleftrightarrow> 32 < (of_char c :: nat) \<and> (of_char c :: nat) < 128"

lemma space_runes_hd_last:
  "\<forall>r \<in> set space_runes. r \<noteq> [] \<and> \<not> visible (hd r) \<and> \<not> visible (last r)"
  by (simp add: space_runes_def visible_def)

lemma trimmed_visible:
  assumes "s \<noteq> []" "visible (hd s)" "visible (last s)"
  shows "trimmed s"
proof -
  have "leading space_runes s = None"
    using assms space_runes_hd_last unfolding leading_None_iff has_prefix_iff
    by (metis hd_append2)
  moreover have "leading (map rev space_runes) (rev s) = None"
    unfolding leading_None_iff has_prefix_iff
  proof (intro ballI impI notI)
    fix r assume "r \<in> set (map rev space_runes)" "r \<noteq> []" "\<exists>t. rev s = r @ t"
    then obtain q t where q: "q \<in> set space_runes" "r = rev q" "rev s = r @ t" by auto
    then have "s = rev t @ q" by (metis rev_append rev_rev_ident)
    with q(1) space_runes_hd_last have "last s = last q" by (simp add: last_append)
    with q(1) space_runes_hd_last assms(3) show False by auto
  qed
  ultimately show ?thesis by (simp add: trimmed_def)
qed

section \<open>Decimal numbers\<close>

definition digit :: "nat \<Rightarrow> char" where
  "digit n = char_of (48 + n)"

fun show_nat :: "nat \<Rightarrow> string" where
  "show_nat n = (if n < 10 then [digit n] else show_nat (n div 10) @ [digit (n mod 10)])"

declare show_nat.simps [simp del]

text \<open>\<open>%d\<close> of a signed integer.\<close>

definition show_int :: "int \<Rightarrow> string" where
  "show_int k = (if k < 0 then CHR ''-'' # show_nat (nat (- k)) else show_nat (nat k))"

lemma show_nat_nonempty [simp]: "show_nat n \<noteq> []"
  by (simp add: show_nat.simps [of n])

lemma of_char_digit: "n < 10 \<Longrightarrow> (of_char (digit n) :: nat) = 48 + n"
  by (simp add: digit_def)

definition is_digit :: "char \<Rightarrow> bool" where
  "is_digit c \<longleftrightarrow> 48 \<le> (of_char c :: nat) \<and> (of_char c :: nat) \<le> 57"

lemma is_digit_digit: "n < 10 \<Longrightarrow> is_digit (digit n)"
  by (simp add: is_digit_def of_char_digit)

lemma show_nat_digits: "list_all is_digit (show_nat n)"
proof (induction n rule: show_nat.induct)
  case (1 n)
  show ?case
  proof (cases "n < 10")
    case True
    then show ?thesis by (simp add: show_nat.simps [of n] is_digit_digit)
  next
    case False
    with 1 have "list_all is_digit (show_nat (n div 10))" by simp
    with False show ?thesis
      by (simp add: show_nat.simps [of n] is_digit_digit)
  qed
qed

text \<open>Reading a decimal number back, most significant digit first.\<close>

definition digit_val :: "char \<Rightarrow> nat" where
  "digit_val c = of_char c - 48"

definition read_nat :: "string \<Rightarrow> nat" where
  "read_nat s = foldl (\<lambda>n c. 10 * n + digit_val c) 0 s"

lemma digit_val_digit [simp]: "n < 10 \<Longrightarrow> digit_val (digit n) = n"
  by (simp add: digit_val_def of_char_digit)

lemma read_show_nat [simp]: "read_nat (show_nat n) = n"
proof (induction n rule: show_nat.induct)
  case (1 n)
  then show ?case
    by (cases "n < 10") (simp_all add: show_nat.simps [of n] read_nat_def)
qed

lemma show_nat_inj [simp]: "show_nat m = show_nat n \<longleftrightarrow> m = n"
  by (metis read_show_nat)

section \<open>Joining\<close>

text \<open>\<open>strings.Join\<close>.\<close>

fun join :: "string \<Rightarrow> string list \<Rightarrow> string" where
  "join sep [] = []"
| "join sep [s] = s"
| "join sep (s # t # ts) = s @ sep @ join sep (t # ts)"

lemma join_Cons: "ts \<noteq> [] \<Longrightarrow> join sep (s # ts) = s @ sep @ join sep ts"
  by (cases ts) auto

text \<open>Joining pieces of two characters: length, injectivity, and cutting after \<open>n\<close> pieces.\<close>

lemma join2_length:
  "list_all (\<lambda>s. length s = 2) ss \<Longrightarrow> ss \<noteq> [] \<Longrightarrow> length (join [c] ss) = 3 * length ss - 1"
proof (induction ss)
  case (Cons s ss)
  then show ?case by (cases "ss = []") (auto simp: join_Cons Suc_diff_le Suc_leI)
qed simp

lemma join2_inj:
  "length xs = length ys \<Longrightarrow> list_all (\<lambda>s. length s = 2) xs \<Longrightarrow> list_all (\<lambda>s. length s = 2) ys
    \<Longrightarrow> join [c] xs = join [c] ys \<longleftrightarrow> xs = ys"
proof (induction xs ys rule: list_induct2)
  case (Cons x xs y ys)
  have "ys = [] \<longleftrightarrow> xs = []" using Cons.hyps by auto
  with Cons show ?case by (cases "xs = []") (auto simp: join_Cons)
qed simp

lemma join2_take:
  "list_all (\<lambda>s. length s = 2) ss \<Longrightarrow> n < length ss \<Longrightarrow>
     take (3 * n + 2) (join [c] ss) = join [c] (take (Suc n) ss)"
proof (induction n arbitrary: ss)
  case 0
  then obtain s t ts where "ss = s # t # ts \<or> ss = [s]" by (metis list.exhaust list.size(3) not_less0)
  with 0 show ?case by auto
next
  case (Suc n)
  then obtain s ts where ss: "ss = s # ts" and n: "n < length ts"
    by (cases ss) auto
  then have ts: "ts \<noteq> []" "take (Suc n) ts \<noteq> []" by auto
  have s2: "length s = 2" and ts2: "list_all (\<lambda>s. length s = 2) ts" using Suc.prems(1) ss by auto
  obtain a b where "s = [a, b]" using s2 by (auto simp: length_Suc_conv numeral_2_eq_2)
  then have "take (3 * Suc n + 2) (s @ [c] @ join [c] ts) = s @ [c] @ take (3 * n + 2) (join [c] ts)"
    by (simp add: numeral_3_eq_3)
  with Suc.IH [OF ts2 n] show ?case by (simp add: ss join_Cons [OF ts(1)] join_Cons [OF ts(2)])
qed

end
