(* ===== verification/World.thy ===== *)
theory World
  imports Prelude
begin

text \<open>
  The world the program runs in: the kernel device, the clock, the file system, the random source,
  the cryptographic library and the network.  None of it is code of the repository, so it is a
  parameter \<open>env\<close>: every call is answered by a function of the history of all earlier calls, which
  leaves the environment as free as a real one.  The part the program can observe between its own
  calls (mapped memory, file contents, the display objects it allocated) is the record \<open>world\<close>.
\<close>

section \<open>The ioctl payload\<close>

text \<open>\<open>struct ebc_buf_info\<close> of \<open>einklib/ebc_ioctl.h\<close>.\<close>

record ebc_buf_info =
  bi_width :: i32
  bi_height :: i32
  bi_vir_width :: i32
  bi_vir_height :: i32
  bi_panel_color :: i32
  bi_win_x1 :: i32
  bi_win_y1 :: i32
  bi_win_x2 :: i32
  bi_win_y2 :: i32
  bi_epd_mode :: i32
  bi_buf_fd :: i32
  bi_needpic :: i32
  bi_buffer :: i64

text \<open>The certificate template of \<open>genSelfSigned\<close>; times in nanoseconds.\<close>

record cert_template =
  ct_serial :: nat
  ct_common_name :: string
  ct_not_before :: int
  ct_not_after :: int
  ct_digital_signature :: bool
  ct_key_encipherment :: bool
  ct_server_auth :: bool
  ct_client_auth :: bool
  ct_is_ca :: bool

section \<open>Events\<close>

text \<open>A path is the list of the arguments of \<open>filepath.Join\<close>; a display object is a reference.\<close>

type_synonym path = "string list"
type_synonym dref = nat

text \<open>
  One entry per call that leaves the program, with its arguments and its answer.  A send records
  the bytes the kernel finds in the shared mapping at that moment.
\<close>

datatype event =
    EvOpen string "nat + int"
  | EvGetInfo int "nat + ebc_buf_info"
  | EvGetBuffer int "nat + ebc_buf_info"
  | EvMmap int nat "nat + i64"
  | EvSend int ebc_buf_info "byte list" "nat option"
  | EvOverlay int bool "nat option"
  | EvMunmap i64 "nat option"
  | EvClose int "nat option"
  | EvNow int
  | EvReadFile path
  | EvWriteFile path string
  | EvMkdir path
  | EvRand nat
  | EvRandInt nat
  | EvRsa
  | EvCreateCert cert_template
  | EvListen string "nat option"
  | EvCloseListener nat
  | EvHostname
  | EvRegister "string list" nat "string list" bool
  | EvShutdownMdns "string list"
  | EvForeground bool

type_synonym hist = "event list"

record env =
  e_open :: "hist \<Rightarrow> string \<Rightarrow> nat + int"
  e_get_info :: "hist \<Rightarrow> int \<Rightarrow> nat + ebc_buf_info"
  e_get_buffer :: "hist \<Rightarrow> int \<Rightarrow> nat + ebc_buf_info"
  e_mmap :: "hist \<Rightarrow> int \<Rightarrow> nat \<Rightarrow> nat + (i64 \<times> (nat \<Rightarrow> byte))"
  e_send :: "hist \<Rightarrow> int \<Rightarrow> ebc_buf_info \<Rightarrow> nat option"
  e_overlay :: "hist \<Rightarrow> int \<Rightarrow> bool \<Rightarrow> nat option"
  e_munmap :: "hist \<Rightarrow> i64 \<Rightarrow> nat option"
  e_close :: "hist \<Rightarrow> int \<Rightarrow> nat option"
  e_now :: "hist \<Rightarrow> int"
  e_readfile :: "hist \<Rightarrow> path \<Rightarrow> nat option"
  e_writefile :: "hist \<Rightarrow> path \<Rightarrow> string \<Rightarrow> (nat \<times> string option) option"
  e_mkdir :: "hist \<Rightarrow> path \<Rightarrow> nat option"
  e_rand :: "hist \<Rightarrow> nat \<Rightarrow> go_error + (nat \<Rightarrow> byte)"
  e_rand_int :: "hist \<Rightarrow> nat \<Rightarrow> go_error + nat"
  e_rsa :: "hist \<Rightarrow> go_error + string"
  e_create_cert :: "hist \<Rightarrow> cert_template \<Rightarrow> string \<Rightarrow> go_error + string"
  e_marshal_key :: "string \<Rightarrow> go_error + string"
  e_pem_encode :: "string \<Rightarrow> string \<Rightarrow> string"
  e_pem_decode :: "string \<Rightarrow> string option"
  e_sha256 :: "string \<Rightarrow> nat \<Rightarrow> byte"
  e_key_pair :: "string \<Rightarrow> string \<Rightarrow> go_error option"
  e_append_certs :: "string \<Rightarrow> bool"
  e_listen :: "hist \<Rightarrow> string \<Rightarrow> go_error + nat \<times> nat option"
  e_hostname :: "hist \<Rightarrow> string"
  e_register :: "hist \<Rightarrow> string list \<Rightarrow> nat \<Rightarrow> string list \<Rightarrow> go_error option"
  e_foreground :: "hist \<Rightarrow> bool \<Rightarrow> go_error option"
  e_errno_text :: "nat \<Rightarrow> string"
  e_seconds :: "int \<Rightarrow> int"

record world =
  hist :: hist
  mem :: "i64 \<Rightarrow> byte list option"
  fd_of :: "dref \<Rightarrow> int"
  ndisp :: dref
  files :: "path \<Rightarrow> string option"

text \<open>What the history says is still open: descriptors and mappings.\<close>

fun open_fds :: "hist \<Rightarrow> int list" where
  "open_fds [] = []"
| "open_fds (EvOpen p (Inr fd) # h) = fd # open_fds h"
| "open_fds (EvClose fd r # h) = remove1 fd (open_fds h)"
| "open_fds (ev # h) = open_fds h"

fun live_maps :: "hist \<Rightarrow> i64 set" where
  "live_maps [] = {}"
| "live_maps (EvMmap fd n (Inr a) # h) = insert a (live_maps h)"
| "live_maps (EvMunmap a None # h) = live_maps h - {a}"
| "live_maps (ev # h) = live_maps h"

text \<open>Listeners and advertisements that are still there.\<close>

fun open_listeners :: "hist \<Rightarrow> nat list" where
  "open_listeners [] = []"
| "open_listeners (EvListen a (Some l) # h) = l # open_listeners h"
| "open_listeners (EvCloseListener l # h) = remove1 l (open_listeners h)"
| "open_listeners (ev # h) = open_listeners h"

fun adverts :: "hist \<Rightarrow> string list list" where
  "adverts [] = []"
| "adverts (EvRegister i p txt True # h) = i # adverts h"
| "adverts (EvShutdownMdns i # h) = remove1 i (adverts h)"
| "adverts (ev # h) = adverts h"

section \<open>Calls\<close>

text \<open>Appending to the history.\<close>

definition log_ev :: "event \<Rightarrow> world \<Rightarrow> world" where
  "log_ev ev w = w\<lparr>hist := ev # hist w\<rparr>"

lemma log_ev_sel [simp]:
  "hist (log_ev ev w) = ev # hist w" "mem (log_ev ev w) = mem w"
  "fd_of (log_ev ev w) = fd_of w" "ndisp (log_ev ev w) = ndisp w"
  "files (log_ev ev w) = files w"
  by (simp_all add: log_ev_def)

definition sys_open :: "env \<Rightarrow> string \<Rightarrow> world \<Rightarrow> (nat + int) \<times> world" where
  "sys_open E p w = (let r = e_open E (hist w) p in (r, log_ev (EvOpen p r) w))"

definition ioctl_get_info :: "env \<Rightarrow> int \<Rightarrow> world \<Rightarrow> (nat + ebc_buf_info) \<times> world" where
  "ioctl_get_info E fd w = (let r = e_get_info E (hist w) fd in (r, log_ev (EvGetInfo fd r) w))"

definition ioctl_get_buffer :: "env \<Rightarrow> int \<Rightarrow> world \<Rightarrow> (nat + ebc_buf_info) \<times> world" where
  "ioctl_get_buffer E fd w =
     (let r = e_get_buffer E (hist w) fd in (r, log_ev (EvGetBuffer fd r) w))"

text \<open>The mapping has exactly the requested length; its initial bytes are the kernel's.\<close>

definition sys_mmap :: "env \<Rightarrow> int \<Rightarrow> nat \<Rightarrow> world \<Rightarrow> (nat + i64) \<times> world" where
  "sys_mmap E fd n w =
     (case e_mmap E (hist w) fd n of
        Inl e \<Rightarrow> (Inl e, log_ev (EvMmap fd n (Inl e)) w)
      | Inr (a, f) \<Rightarrow>
          (Inr a, log_ev (EvMmap fd n (Inr a)) (w\<lparr>mem := (mem w)(a \<mapsto> map f [0..<n])\<rparr>)))"

definition ioctl_send :: "env \<Rightarrow> int \<Rightarrow> ebc_buf_info \<Rightarrow> world \<Rightarrow> nat option \<times> world" where
  "ioctl_send E fd b w =
     (let r = e_send E (hist w) fd b;
          bytes = (case mem w (bi_buffer b) of None \<Rightarrow> [] | Some bs \<Rightarrow> bs)
      in (r, log_ev (EvSend fd b bytes r) w))"

definition ioctl_overlay :: "env \<Rightarrow> int \<Rightarrow> bool \<Rightarrow> world \<Rightarrow> nat option \<times> world" where
  "ioctl_overlay E fd on w =
     (let r = e_overlay E (hist w) fd on in (r, log_ev (EvOverlay fd on r) w))"

definition sys_munmap :: "env \<Rightarrow> i64 \<Rightarrow> world \<Rightarrow> nat option \<times> world" where
  "sys_munmap E a w =
     (case e_munmap E (hist w) a of
        Some e \<Rightarrow> (Some e, log_ev (EvMunmap a (Some e)) w)
      | None \<Rightarrow> (None, log_ev (EvMunmap a None) (w\<lparr>mem := (mem w)(a := None)\<rparr>)))"

definition sys_close :: "env \<Rightarrow> int \<Rightarrow> world \<Rightarrow> nat option \<times> world" where
  "sys_close E fd w = (let r = e_close E (hist w) fd in (r, log_ev (EvClose fd r) w))"

definition time_now :: "env \<Rightarrow> world \<Rightarrow> int \<times> world" where
  "time_now E w = (let t = e_now E (hist w) in (t, log_ev (EvNow t) w))"

text \<open>\<open>os.ReadFile\<close>: a missing file is \<open>ENOENT\<close>; an existing one may still be unreadable.\<close>

definition os_ReadFile :: "env \<Rightarrow> path \<Rightarrow> world \<Rightarrow> (nat + string) \<times> world" where
  "os_ReadFile E p w =
     ((case files w p of
         None \<Rightarrow> Inl 2
       | Some c \<Rightarrow> (case e_readfile E (hist w) p of None \<Rightarrow> Inr c | Some e \<Rightarrow> Inl e)),
      log_ev (EvReadFile p) w)"

text \<open>
  \<open>os.WriteFile\<close> replaces the contents.  A failing write may leave the file as it was or with any
  other contents (it truncates first), as the environment says.
\<close>

definition os_WriteFile :: "env \<Rightarrow> path \<Rightarrow> string \<Rightarrow> world \<Rightarrow> nat option \<times> world" where
  "os_WriteFile E p c w =
     (case e_writefile E (hist w) p c of
        None \<Rightarrow> (None, log_ev (EvWriteFile p c) (w\<lparr>files := (files w)(p \<mapsto> c)\<rparr>))
      | Some (e, None) \<Rightarrow> (Some e, log_ev (EvWriteFile p c) w)
      | Some (e, Some d) \<Rightarrow>
          (Some e, log_ev (EvWriteFile p c) (w\<lparr>files := (files w)(p \<mapsto> d)\<rparr>)))"

definition os_MkdirAll :: "env \<Rightarrow> path \<Rightarrow> world \<Rightarrow> nat option \<times> world" where
  "os_MkdirAll E p w = (e_mkdir E (hist w) p, log_ev (EvMkdir p) w)"

definition rand_Read :: "env \<Rightarrow> nat \<Rightarrow> world \<Rightarrow> (go_error + byte list) \<times> world" where
  "rand_Read E n w =
     ((case e_rand E (hist w) n of Inl e \<Rightarrow> Inl e | Inr f \<Rightarrow> Inr (map f [0..<n])),
      log_ev (EvRand n) w)"

definition rand_Int :: "env \<Rightarrow> nat \<Rightarrow> world \<Rightarrow> (go_error + nat) \<times> world" where
  "rand_Int E n w = (e_rand_int E (hist w) n, log_ev (EvRandInt n) w)"

definition rsa_GenerateKey :: "env \<Rightarrow> world \<Rightarrow> (go_error + string) \<times> world" where
  "rsa_GenerateKey E w = (e_rsa E (hist w), log_ev EvRsa w)"

definition x509_CreateCertificate ::
    "env \<Rightarrow> cert_template \<Rightarrow> string \<Rightarrow> world \<Rightarrow> (go_error + string) \<times> world" where
  "x509_CreateCertificate E t k w = (e_create_cert E (hist w) t k, log_ev (EvCreateCert t) w)"

text \<open>\<open>net.Listen\<close> gives a listener and, when it is a TCP socket, its port.\<close>

definition net_Listen :: "env \<Rightarrow> string \<Rightarrow> world \<Rightarrow> (go_error + nat \<times> nat option) \<times> world" where
  "net_Listen E a w =
     (let r = e_listen E (hist w) a
      in (r, log_ev (EvListen a (case r of Inl e \<Rightarrow> None | Inr (l, p) \<Rightarrow> Some l)) w))"

definition close_listener :: "nat \<Rightarrow> world \<Rightarrow> world" where
  "close_listener l w = log_ev (EvCloseListener l) w"

definition os_Hostname :: "env \<Rightarrow> world \<Rightarrow> string \<times> world" where
  "os_Hostname E w = (e_hostname E (hist w), log_ev EvHostname w)"

text \<open>The third-party advertiser: registering a service, and shutting a registration down.\<close>

definition zeroconf_Register ::
    "env \<Rightarrow> string list \<Rightarrow> nat \<Rightarrow> string list \<Rightarrow> world \<Rightarrow> go_error option \<times> world" where
  "zeroconf_Register E i p txt w =
     (let r = e_register E (hist w) i p txt in (r, log_ev (EvRegister i p txt (r = None)) w))"

definition zeroconf_Shutdown :: "string list \<Rightarrow> world \<Rightarrow> world" where
  "zeroconf_Shutdown i w = log_ev (EvShutdownMdns i) w"

lemmas sys_defs =
  sys_open_def ioctl_get_info_def ioctl_get_buffer_def sys_mmap_def ioctl_send_def
  ioctl_overlay_def sys_munmap_def sys_close_def time_now_def os_ReadFile_def
  os_WriteFile_def os_MkdirAll_def rand_Read_def rand_Int_def rsa_GenerateKey_def
  x509_CreateCertificate_def net_Listen_def close_listener_def os_Hostname_def zeroconf_Register_def
  zeroconf_Shutdown_def

section \<open>Error texts\<close>

fun code_text :: "grpc_code \<Rightarrow> string" where
  "code_text Unauthenticated = ''Unauthenticated''"
| "code_text FailedPrecondition = ''FailedPrecondition''"
| "code_text Internal = ''Internal''"
| "code_text InvalidArgument = ''InvalidArgument''"
| "code_text Unimplemented = ''Unimplemented''"

text \<open>The method \<open>Error()\<close>.\<close>

fun err_text :: "env \<Rightarrow> go_error \<Rightarrow> string" where
  "err_text E (ErrMsg s) = s"
| "err_text E (ErrWrap s e) = s @ '': '' @ err_text E e"
| "err_text E (Errno n) = e_errno_text E n"
| "err_text E ErrEOF = ''EOF''"
| "err_text E ErrClosed = ''file already closed''"
| "err_text E (ErrStatus c s) =
     ''rpc error: code = '' @ code_text c @ '' desc = '' @ s"

section \<open>Assumptions on the kernel\<close>

text \<open>
  What \<open>mmap(2)\<close> documents for a call without a fixed address: the new mapping does not
  overlap a live one.
\<close>

definition mmap_fresh :: "env \<Rightarrow> bool" where
  "mmap_fresh E \<longleftrightarrow>
     (\<forall>h fd n a f. e_mmap E h fd n = Inr (a, f) \<longrightarrow> a \<notin> live_maps h)"

text \<open>The bookkeeping of the world agrees with its history.\<close>

definition world_wf :: "world \<Rightarrow> bool" where
  "world_wf w \<longleftrightarrow> dom (mem w) = live_maps (hist w)"

lemma world_wf_log:
  "world_wf w \<Longrightarrow> live_maps (ev # hist w) = live_maps (hist w) \<Longrightarrow> world_wf (log_ev ev w)"
  by (simp add: world_wf_def)

text \<open>
  A plain environment for concrete runs: a device of 2 by 2 pixels in colour at descriptor 3, one
  mapping at a time, calls that succeed, a clock that counts the calls.
\<close>

definition demo_info :: ebc_buf_info where
  "demo_info = \<lparr>bi_width = 2, bi_height = 2, bi_vir_width = 2, bi_vir_height = 2,
     bi_panel_color = 1, bi_win_x1 = 0, bi_win_y1 = 0, bi_win_x2 = 0, bi_win_y2 = 0,
     bi_epd_mode = 0, bi_buf_fd = 0, bi_needpic = 0, bi_buffer = 0\<rparr>"

definition demo_env :: env where
  "demo_env = \<lparr>
     e_open = (\<lambda>h p. Inr 3),
     e_get_info = (\<lambda>h fd. if fd < 0 then Inl 9 else Inr demo_info),
     e_get_buffer = (\<lambda>h fd. if fd < 0 then Inl 9 else Inr demo_info),
     e_mmap = (\<lambda>h fd n. if 4096 \<in> live_maps h then Inl 12 else Inr (4096, \<lambda>i. 7)),
     e_send = (\<lambda>h fd b. if fd < 0 then Some 9 else None),
     e_overlay = (\<lambda>h fd on. None),
     e_munmap = (\<lambda>h a. None),
     e_close = (\<lambda>h fd. None),
     e_now = (\<lambda>h. int (length h)),
     e_readfile = (\<lambda>h p. None),
     e_writefile = (\<lambda>h p c. None),
     e_mkdir = (\<lambda>h p. None),
     e_rand = (\<lambda>h n. Inr (\<lambda>i. of_nat (length h + i))),
     e_rand_int = (\<lambda>h n. Inr (length h)),
     e_rsa = (\<lambda>h. Inr (''k'' @ show_nat (length h))),
     e_create_cert = (\<lambda>h t k. Inr (''c'' @ k)),
     e_marshal_key = (\<lambda>k. Inr k),
     e_pem_encode = (\<lambda>t b. t @ '':'' @ b),
     e_pem_decode = (\<lambda>s. if has_prefix s ''CERTIFICATE:'' then Some (drop 12 s) else None),
     e_sha256 = (\<lambda>s i. of_nat (length s + i)),
     e_key_pair = (\<lambda>c k. None),
     e_append_certs = (\<lambda>c. has_prefix c ''CERTIFICATE:''),
     e_listen = (\<lambda>h a. Inr (length h, Some 50051)),
     e_hostname = (\<lambda>h. ''panel''),
     e_register = (\<lambda>h i p txt. None),
     e_foreground = (\<lambda>h on. None),
     e_errno_text = (\<lambda>n. ''errno '' @ show_nat n),
     e_seconds = (\<lambda>d. d div 1000000000)\<rparr>"

definition empty_world :: world where
  "empty_world = \<lparr>hist = [], mem = Map.empty, fd_of = (\<lambda>_. -1), ndisp = 0, files = Map.empty\<rparr>"

lemma demo_mmap_fresh: "mmap_fresh demo_env"
  by (auto simp: mmap_fresh_def demo_env_def split: if_splits)

lemma empty_world_wf: "world_wf empty_world"
  by (simp add: world_wf_def empty_world_def)

end
