(* ===== verification/Name_Codec.thy ===== *)
theory Name_Codec
  imports Prelude
begin

text \<open>
  The contract shared by the textual encodings of the program: a partial decoder that inverts an
  encoder on the valid values, up to a normal form of the text (letter case for the waveform
  names, nothing for the enum names of the protocol and the hexadecimal bytes).
\<close>

locale name_codec =
  fixes valid :: "'m \<Rightarrow> bool"
    and enc :: "'m \<Rightarrow> string"
    and dec :: "string \<Rightarrow> 'm option"
    and norm :: "string \<Rightarrow> string"
  assumes dec_enc: "valid m \<Longrightarrow> dec (enc m) = Some m"
    and dec_sound: "dec s = Some m \<Longrightarrow> valid m \<and> norm (enc m) = norm s"
    and dec_norm: "norm s = norm t \<Longrightarrow> dec s = dec t"
begin

lemma dec_iff: "dec s = Some m \<longleftrightarrow> valid m \<and> norm (enc m) = norm s"
  using dec_enc dec_sound dec_norm by metis

lemma enc_inj: "valid m \<Longrightarrow> valid n \<Longrightarrow> norm (enc m) = norm (enc n) \<Longrightarrow> m = n"
  using dec_enc dec_norm by (metis option.inject)

lemma dec_None_iff: "dec s = None \<longleftrightarrow> (\<forall>m. valid m \<longrightarrow> norm (enc m) \<noteq> norm s)"
  by (metis dec_iff not_Some_eq)

lemma dec_reprint: "dec s = Some m \<Longrightarrow> dec (enc m) = dec s"
  using dec_sound dec_norm by blast

end

end
