(* ===== verification/Waveform.thy ===== *)
theory Waveform
  imports Name_Codec
begin

text \<open>
  The file \<open>einklib/waveform.go\<close>: the waveform modes of the controller, their names, and the parser
  of names.  A \<open>WaveformMode\<close> is an \<open>int32\<close>, so any 32-bit value may occur.
\<close>

section \<open>Definitions\<close>

type_synonym waveform_mode = i32

definition WaveformInit :: waveform_mode where "WaveformInit = 0"
definition WaveformDirectUpdate :: waveform_mode where "WaveformDirectUpdate = 1"
definition WaveformGC16 :: waveform_mode where "WaveformGC16 = 2"
definition WaveformGCC16 :: waveform_mode where "WaveformGCC16 = 3"
definition WaveformAnimation :: waveform_mode where "WaveformAnimation = 4"
definition WaveformPartial :: waveform_mode where "WaveformPartial = 5"
definition WaveformFull :: waveform_mode where "WaveformFull = 6"
definition WaveformAuto :: waveform_mode where "WaveformAuto = 7"
definition WaveformReset :: waveform_mode where "WaveformReset = 8"
definition WaveformBlackWhite :: waveform_mode where "WaveformBlackWhite = 9"
definition WaveformTransparent :: waveform_mode where "WaveformTransparent = 10"
definition WaveformRegal :: waveform_mode where "WaveformRegal = 11"
definition WaveformSpectraFullGC16 :: waveform_mode where "WaveformSpectraFullGC16 = 12"
definition WaveformSpectraGlareReduced :: waveform_mode where "WaveformSpectraGlareReduced = 13"
definition WaveformSpectraGhostReduced :: waveform_mode where "WaveformSpectraGhostReduced = 14"
definition WaveformSpectraFullGCC16 :: waveform_mode where "WaveformSpectraFullGCC16 = 15"

lemmas waveform_consts =
  WaveformInit_def WaveformDirectUpdate_def WaveformGC16_def WaveformGCC16_def
  WaveformAnimation_def WaveformPartial_def WaveformFull_def WaveformAuto_def
  WaveformReset_def WaveformBlackWhite_def WaveformTransparent_def WaveformRegal_def
  WaveformSpectraFullGC16_def WaveformSpectraGlareReduced_def
  WaveformSpectraGhostReduced_def WaveformSpectraFullGCC16_def

text \<open>\<open>WaveformMode.String\<close>: the switch, case by case.\<close>

definition WaveformMode_String :: "waveform_mode \<Rightarrow> string" where
  "WaveformMode_String m =
    (if m = WaveformInit then ''Init''
     else if m = WaveformDirectUpdate then ''DirectUpdate''
     else if m = WaveformGC16 then ''GC16''
     else if m = WaveformGCC16 then ''GCC16''
     else if m = WaveformAnimation then ''Animation''
     else if m = WaveformPartial then ''Partial''
     else if m = WaveformFull then ''Full''
     else if m = WaveformAuto then ''Auto''
     else if m = WaveformReset then ''Reset''
     else if m = WaveformBlackWhite then ''BlackWhite''
     else if m = WaveformTransparent then ''Transparent''
     else if m = WaveformRegal then ''Regal''
     else if m = WaveformSpectraFullGC16 then ''SpectraFullGC16''
     else if m = WaveformSpectraGlareReduced then ''SpectraGlareReduced''
     else if m = WaveformSpectraGhostReduced then ''SpectraGhostReduced''
     else if m = WaveformSpectraFullGCC16 then ''SpectraFullGCC16''
     else ''Unknown'')"

text \<open>\<open>eqFold\<close>: the length test, then the loop over the byte index.\<close>

function eqFold_loop :: "string \<Rightarrow> string \<Rightarrow> nat \<Rightarrow> bool" where
  "eqFold_loop a b i =
     (if i < length a
      then (if lower_byte (a ! i) \<noteq> lower_byte (b ! i) then False else eqFold_loop a b (Suc i))
      else True)"
  by pat_completeness auto
termination
  by (relation "measure (\<lambda>(a, b, i). length a - i)") auto

declare eqFold_loop.simps [simp del]

definition eqFold :: "string \<Rightarrow> string \<Rightarrow> bool" where
  "eqFold a b = (if length a \<noteq> length b then False else eqFold_loop a b 0)"

text \<open>
  \<open>ParseWaveformMode\<close>: the loop from \<open>WaveformInit\<close> to \<open>WaveformSpectraFullGCC16\<close>, with the signed
  comparison and the increment of an \<open>int32\<close>.
\<close>

lemma sint_add_one:
  assumes "sint (m :: i32) \<le> 15"
  shows "sint (m + 1) = sint m + 1"
proof -
  have lo: "- (2 ^ 31) \<le> sint m" using sint_ge [of m] by simp
  have "sint (m + 1) = signed_take_bit 31 (sint m + 1)"
    by (simp add: sint_word_ariths)
  also have "\<dots> = sint m + 1"
    using lo assms by (intro signed_take_bit_int_eq_self) auto
  finally show ?thesis .
qed

function parse_loop :: "string \<Rightarrow> waveform_mode \<Rightarrow> waveform_mode \<times> bool" where
  "parse_loop s m =
     (if sint m \<le> sint WaveformSpectraFullGCC16
      then (if eqFold (WaveformMode_String m) s then (m, True) else parse_loop s (m + 1))
      else (0, False))"
  by pat_completeness auto
termination
  by (relation "measure (\<lambda>(s, m). nat (16 - sint m))")
    (auto simp: WaveformSpectraFullGCC16_def sint_add_one)

declare parse_loop.simps [simp del]

definition ParseWaveformMode :: "string \<Rightarrow> waveform_mode \<times> bool" where
  "ParseWaveformMode s = parse_loop s WaveformInit"

section \<open>Facts about the name table\<close>

definition waveform_modes :: "waveform_mode list" where
  "waveform_modes = [0, 1, 2, 3, 4, 5, 6, 7, 8, 9, 10, 11, 12, 13, 14, 15]"

definition valid_mode :: "waveform_mode \<Rightarrow> bool" where
  "valid_mode m \<longleftrightarrow> 0 \<le> sint m \<and> sint m \<le> 15"

lemma eqFold_loop_iff:
  "length a = length b \<Longrightarrow>
     eqFold_loop a b i \<longleftrightarrow> map lower_byte (drop i a) = map lower_byte (drop i b)"
proof (induction a b i rule: eqFold_loop.induct)
  case (1 a b i)
  show ?case
  proof (cases "i < length a")
    case True
    with 1 show ?thesis
      by (auto simp: eqFold_loop.simps [of a b i] Cons_nth_drop_Suc [symmetric])
  next
    case False
    with 1 show ?thesis by (simp add: eqFold_loop.simps [of a b i])
  qed
qed

lemma eqFold_iff: "eqFold a b \<longleftrightarrow> map lower_byte a = map lower_byte b"
proof (cases "length a = length b")
  case True
  then show ?thesis by (simp add: eqFold_def eqFold_loop_iff)
next
  case False
  then show ?thesis by (auto simp: eqFold_def dest: map_eq_imp_length_eq)
qed

lemma valid_mode_iff: "valid_mode m \<longleftrightarrow> m \<in> set waveform_modes"
proof
  assume "valid_mode m"
  then have "sint m \<in> {0..15}" by (simp add: valid_mode_def)
  then have "sint m \<in> set [0..15]" by simp
  then have "word_of_int (sint m) \<in> (word_of_int :: int \<Rightarrow> i32) ` set [0..15]" by blast
  then show "m \<in> set waveform_modes" by (simp add: waveform_modes_def upto_rec1)
next
  assume "m \<in> set waveform_modes"
  then show "valid_mode m" by (auto simp: waveform_modes_def valid_mode_def)
qed

lemma lower_names_distinct:
  "distinct (map (\<lambda>m. map lower_byte (WaveformMode_String m)) waveform_modes)"
  by code_simp

lemma names_known: "\<forall>m \<in> set waveform_modes. WaveformMode_String m \<noteq> ''Unknown''"
  by code_simp

lemma String_Unknown_iff: "WaveformMode_String m = ''Unknown'' \<longleftrightarrow> \<not> valid_mode m"
proof
  show "WaveformMode_String m = ''Unknown'' \<Longrightarrow> \<not> valid_mode m"
    using names_known by (auto simp: valid_mode_iff)
  assume "\<not> valid_mode m"
  then show "WaveformMode_String m = ''Unknown''"
    by (simp add: valid_mode_iff waveform_modes_def WaveformMode_String_def waveform_consts)
qed

text \<open>The parser tries the modes in order and returns the first whose name matches.\<close>

lemma ParseWaveformMode_find:
  "ParseWaveformMode s =
     (case find (\<lambda>m. eqFold (WaveformMode_String m) s) waveform_modes of
        None \<Rightarrow> (0, False) | Some m \<Rightarrow> (m, True))"
  by (simp add: ParseWaveformMode_def WaveformInit_def WaveformSpectraFullGCC16_def
      waveform_modes_def parse_loop.simps [of s 0] parse_loop.simps [of s 1]
      parse_loop.simps [of s 2] parse_loop.simps [of s 3] parse_loop.simps [of s 4]
      parse_loop.simps [of s 5] parse_loop.simps [of s 6] parse_loop.simps [of s 7]
      parse_loop.simps [of s 8] parse_loop.simps [of s 9] parse_loop.simps [of s 10]
      parse_loop.simps [of s 11] parse_loop.simps [of s 12] parse_loop.simps [of s 13]
      parse_loop.simps [of s 14] parse_loop.simps [of s 15] parse_loop.simps [of s 16])

definition parse_mode_opt :: "string \<Rightarrow> waveform_mode option" where
  "parse_mode_opt s = (case ParseWaveformMode s of (m, ok) \<Rightarrow> if ok then Some m else None)"

lemma parse_mode_opt_find:
  "parse_mode_opt s = find (\<lambda>m. eqFold (WaveformMode_String m) s) waveform_modes"
  by (auto simp: parse_mode_opt_def ParseWaveformMode_find split: option.splits)

lemma parse_mode_opt_Some:
  "ParseWaveformMode s = (m, True) \<longleftrightarrow> parse_mode_opt s = Some m"
  by (auto simp: parse_mode_opt_def split: prod.splits if_splits)

interpretation mode_names: name_codec valid_mode WaveformMode_String parse_mode_opt
  "map lower_byte"
proof unfold_locales
  fix m assume "valid_mode m"
  then have m: "m \<in> set waveform_modes" by (simp add: valid_mode_iff)
  then have "parse_mode_opt (WaveformMode_String m) \<noteq> None"
    by (auto simp: parse_mode_opt_find find_None_iff eqFold_iff)
  then obtain n where n: "parse_mode_opt (WaveformMode_String m) = Some n" by blast
  then have "n \<in> set waveform_modes"
    "map lower_byte (WaveformMode_String n) = map lower_byte (WaveformMode_String m)"
    by (auto simp: parse_mode_opt_find find_Some_iff eqFold_iff)
  then have "n = m"
    using lower_names_distinct m by (simp add: distinct_map inj_on_def)
  with n show "parse_mode_opt (WaveformMode_String m) = Some m" by simp
next
  fix s m assume "parse_mode_opt s = Some m"
  then show "valid_mode m \<and> map lower_byte (WaveformMode_String m) = map lower_byte s"
    by (auto simp: parse_mode_opt_find find_Some_iff eqFold_iff valid_mode_iff)
next
  fix s t :: string assume "map lower_byte s = map lower_byte t"
  then show "parse_mode_opt s = parse_mode_opt t"
    by (simp add: parse_mode_opt_find eqFold_iff)
qed

section \<open>Properties\<close>

text \<open>\<open>eqFold\<close> is the equality of the two strings after folding the ASCII capitals.\<close>

lemma eqFold_equality: "eqFold a b \<longleftrightarrow> map lower_byte a = map lower_byte b"
  by (rule eqFold_iff)

text \<open>
  \<open>ParseWaveformMode\<close> is the case-insensitive inverse of \<open>String\<close>: it accepts a string exactly
  when the string is the name of one of the sixteen modes up to letter case, and then returns
  that mode; otherwise it returns mode 0 and \<open>false\<close>.
\<close>

lemma ParseWaveformMode_inverse:
  "(ParseWaveformMode s = (m, True) \<longleftrightarrow>
      valid_mode m \<and> map lower_byte (WaveformMode_String m) = map lower_byte s) \<and>
   (ParseWaveformMode s = (0, False) \<longleftrightarrow> (\<nexists>n. ParseWaveformMode s = (n, True)))"
proof
  show "ParseWaveformMode s = (m, True) \<longleftrightarrow>
      valid_mode m \<and> map lower_byte (WaveformMode_String m) = map lower_byte s"
    unfolding parse_mode_opt_Some by (rule mode_names.dec_iff)
  show "ParseWaveformMode s = (0, False) \<longleftrightarrow> (\<nexists>n. ParseWaveformMode s = (n, True))"
    by (auto simp: ParseWaveformMode_find split: option.splits)
qed

end
