(* ===== verification/Display.thy ===== *)
theory Display
  imports World Waveform
begin

text \<open>
  The package \<open>einklib\<close> without the painters: \<open>display.go\<close> (panel geometry, update regions) and
  \<open>display_linux.go\<close> (the device handle and the frames mapped from it).  A \<open>*display\<close> is a
  reference whose descriptor lives in the world, so that a frame and its owner share it; the mutex
  of \<open>display\<close> makes each of its methods atomic.  \<open>Commit\<close> and \<open>Cancel\<close> of a frame do not take it;
  what that means when the display is closed meanwhile is the subject of \<open>Close_Race\<close>.
\<close>

section \<open>Geometry\<close>

record DisplayInfo =
  di_width :: i32
  di_height :: i32
  di_virtualWidth :: i32
  di_virtHeight :: i32
  di_color :: bool

definition newDisplayInfo :: "i32 \<Rightarrow> i32 \<Rightarrow> i32 \<Rightarrow> i32 \<Rightarrow> bool \<Rightarrow> DisplayInfo" where
  "newDisplayInfo w h vw vh color =
     \<lparr>di_width = w, di_height = h, di_virtualWidth = vw, di_virtHeight = vh, di_color = color\<rparr>"

text \<open>The value \<open>DisplayInfo{}\<close> returned beside an error.\<close>

definition zero_DisplayInfo :: DisplayInfo where
  "zero_DisplayInfo = newDisplayInfo 0 0 0 0 False"

text \<open>\<open>FrameByteCount\<close>, in the 64-bit \<open>int\<close> of the target; Go division truncates.\<close>

definition FrameByteCount :: "DisplayInfo \<Rightarrow> int" where
  "FrameByteCount d =
     (if di_color d
      then wrap64 (wrap64 (sint (di_virtualWidth d) * sint (di_virtHeight d)) * 3)
      else wrap64 (sint (di_virtualWidth d) * sint (di_virtHeight d)) sdiv 2)"

definition BytesPerPixelTimes2 :: "DisplayInfo \<Rightarrow> i32" where
  "BytesPerPixelTimes2 d = (if di_color d then 6 else 1)"

record Region =
  rg_x1 :: i32
  rg_y1 :: i32
  rg_x2 :: i32
  rg_y2 :: i32

definition NewRegion :: "i32 \<Rightarrow> i32 \<Rightarrow> i32 \<Rightarrow> i32 \<Rightarrow> Region" where
  "NewRegion x1 y1 x2 y2 = \<lparr>rg_x1 = x1, rg_y1 = y1, rg_x2 = x2, rg_y2 = y2\<rparr>"

definition DefaultDevice :: string where
  "DefaultDevice = ''/dev/ebc''"

section \<open>The device handle\<close>

text \<open>
  \<open>syscall.Mmap\<close> refuses a length that is not positive; \<open>syscall.Munmap\<close> refuses a slice that is
  not an active mapping.  Neither then reaches the kernel.  22 is \<open>EINVAL\<close>.
\<close>

definition go_Mmap :: "env \<Rightarrow> int \<Rightarrow> int \<Rightarrow> world \<Rightarrow> (nat + i64) \<times> world" where
  "go_Mmap E fd n w = (if n \<le> 0 then (Inl 22, w) else sys_mmap E fd (nat n) w)"

definition go_Munmap :: "env \<Rightarrow> i64 \<Rightarrow> world \<Rightarrow> nat option \<times> world" where
  "go_Munmap E a w = (case mem w a of None \<Rightarrow> (Some 22, w) | Some bs \<Rightarrow> sys_munmap E a w)"

text \<open>\<open>Open\<close> of \<open>display_linux.go\<close>, and of \<open>display_stub.go\<close> on other systems.\<close>

definition display_Open :: "env \<Rightarrow> string \<Rightarrow> world \<Rightarrow> dref outcome \<times> world" where
  "display_Open E devicePath w =
     (case sys_open E devicePath w of
        (Inl e, w') \<Rightarrow> (Err (ErrWrap (''open '' @ devicePath) (Errno e)), w')
      | (Inr fd, w') \<Rightarrow>
          (Ok (ndisp w'), w'\<lparr>fd_of := (fd_of w')(ndisp w' := fd), ndisp := Suc (ndisp w')\<rparr>))"

definition stub_Open :: "string \<Rightarrow> world \<Rightarrow> dref outcome \<times> world" where
  "stub_Open devicePath w =
     (Err (ErrMsg ''einklib: only available on linux/android (cgo + /dev/ebc)''), w)"

text \<open>The geometry in a kernel answer.\<close>

definition info_of_buf :: "ebc_buf_info \<Rightarrow> DisplayInfo" where
  "info_of_buf b =
     newDisplayInfo (bi_width b) (bi_height b) (bi_vir_width b) (bi_vir_height b)
       (bi_panel_color b \<noteq> 0)"

definition display_Info :: "env \<Rightarrow> dref \<Rightarrow> world \<Rightarrow> DisplayInfo outcome \<times> world" where
  "display_Info E d w =
     (if fd_of w d < 0 then (Err ErrClosed, w)
      else case ioctl_get_info E (fd_of w d) w of
        (Inl e, w') \<Rightarrow> (Err (ErrWrap ''EBC_GET_BUFFER_INFO'' (Errno e)), w')
      | (Inr b, w') \<Rightarrow> (Ok (info_of_buf b), w'))"

text \<open>A frame: its owner, its geometry, the mapped slice and the consumed flag.\<close>

record frame =
  fr_display :: dref
  fr_info :: DisplayInfo
  fr_addr :: i64
  fr_len :: nat
  consumed :: bool

definition mmap_msg :: "int \<Rightarrow> string" where
  "mmap_msg n = ''mmap ebc buffer ('' @ show_int n @ '' bytes)''"

definition display_AcquireFrame :: "env \<Rightarrow> dref \<Rightarrow> world \<Rightarrow> frame outcome \<times> world" where
  "display_AcquireFrame E d w =
     (if fd_of w d < 0 then (Err ErrClosed, w)
      else case ioctl_get_buffer E (fd_of w d) w of
        (Inl e, w1) \<Rightarrow> (Err (ErrWrap ''EBC_GET_BUFFER'' (Errno e)), w1)
      | (Inr b, w1) \<Rightarrow>
          (let di = info_of_buf b; bytes = FrameByteCount di
           in case go_Mmap E (fd_of w1 d) bytes w1 of
                (Inl e, w2) \<Rightarrow> (Err (ErrWrap (mmap_msg bytes) (Errno e)), w2)
              | (Inr a, w2) \<Rightarrow>
                  (Ok \<lparr>fr_display = d, fr_info = di, fr_addr = a, fr_len = nat bytes,
                      consumed = False\<rparr>, w2)))"

definition display_SetOverlay :: "env \<Rightarrow> dref \<Rightarrow> bool \<Rightarrow> world \<Rightarrow> unit outcome \<times> world" where
  "display_SetOverlay E d enabled w =
     (if fd_of w d < 0 then (Err ErrClosed, w)
      else case ioctl_overlay E (fd_of w d) enabled w of
        (Some e, w') \<Rightarrow> (Err (ErrWrap ''overlay'' (Errno e)), w')
      | (None, w') \<Rightarrow> (Ok (), w'))"

definition display_Close :: "env \<Rightarrow> dref \<Rightarrow> world \<Rightarrow> unit outcome \<times> world" where
  "display_Close E d w =
     (if fd_of w d < 0 then (Ok (), w)
      else case sys_close E (fd_of w d) w of
        (r, w') \<Rightarrow>
          (case r of None \<Rightarrow> Ok () | Some e \<Rightarrow> Err (Errno e),
           w'\<lparr>fd_of := (fd_of w')(d := -1)\<rparr>))"

section \<open>Frames\<close>

text \<open>The ioctl argument that \<open>Commit\<close> fills in; a missing region is the whole virtual panel.\<close>

definition commit_info :: "frame \<Rightarrow> waveform_mode \<Rightarrow> Region option \<Rightarrow> ebc_buf_info" where
  "commit_info f mode region =
     (let i = fr_info f;
          r = (case region of
                 None \<Rightarrow> NewRegion 0 0 (di_virtualWidth i) (di_virtHeight i)
               | Some r \<Rightarrow> r)
      in \<lparr>bi_width = di_width i, bi_height = di_height i,
          bi_vir_width = di_virtualWidth i, bi_vir_height = di_virtHeight i,
          bi_panel_color = (if di_color i then 1 else 0),
          bi_win_x1 = rg_x1 r, bi_win_y1 = rg_y1 r, bi_win_x2 = rg_x2 r, bi_win_y2 = rg_y2 r,
          bi_epd_mode = mode, bi_buf_fd = -1, bi_needpic = 0, bi_buffer = fr_addr f\<rparr>)"

definition frame_Commit ::
    "env \<Rightarrow> frame \<Rightarrow> waveform_mode \<Rightarrow> Region option \<Rightarrow> world \<Rightarrow> unit outcome \<times> frame \<times> world"
  where
  "frame_Commit E f mode region w =
     (if consumed f then (Err (ErrMsg ''einklib: frame already consumed''), f, w)
      else case ioctl_send E (fd_of w (fr_display f)) (commit_info f mode region) w of
        (Some e, w1) \<Rightarrow> (Err (ErrWrap ''EBC_SEND_BUFFER'' (Errno e)), f, w1)
      | (None, w1) \<Rightarrow> (Ok (), f\<lparr>consumed := True\<rparr>, snd (go_Munmap E (fr_addr f) w1)))"

definition frame_Cancel :: "env \<Rightarrow> frame \<Rightarrow> world \<Rightarrow> unit outcome \<times> frame \<times> world" where
  "frame_Cancel E f w =
     (if consumed f then (Ok (), f, w)
      else case go_Munmap E (fr_addr f) w of
        (r, w1) \<Rightarrow>
          (case r of None \<Rightarrow> Ok () | Some e \<Rightarrow> Err (Errno e), f\<lparr>consumed := True\<rparr>, w1))"

text \<open>
  Reading and writing through the slice \<open>Pixels()\<close>.  The memory behind it is gone once the frame
  was unmapped, and touching it then is a fault.
\<close>

definition frame_bytes :: "frame \<Rightarrow> world \<Rightarrow> byte list option" where
  "frame_bytes f w = mem w (fr_addr f)"

definition frame_update ::
    "frame \<Rightarrow> (byte list \<Rightarrow> byte list) \<Rightarrow> world \<Rightarrow> unit outcome \<times> world" where
  "frame_update f g w =
     (case mem w (fr_addr f) of
        None \<Rightarrow> (Panic ''unexpected fault address'', w)
      | Some bs \<Rightarrow> (Ok (), w\<lparr>mem := (mem w)(fr_addr f \<mapsto> g bs)\<rparr>))"

section \<open>Facts about the single operations\<close>

lemma world_wf_sel: "world_wf w \<Longrightarrow> a \<in> live_maps (hist w) \<longleftrightarrow> (\<exists>bs. mem w a = Some bs)"
  by (auto simp: world_wf_def)

lemma sys_mmap_wf: "world_wf w \<Longrightarrow> world_wf (snd (sys_mmap E fd n w))"
  by (auto simp: sys_mmap_def world_wf_def split: sum.splits prod.splits)

lemma go_Mmap_wf: "world_wf w \<Longrightarrow> world_wf (snd (go_Mmap E fd n w))"
  by (simp add: go_Mmap_def sys_mmap_wf)

lemma go_Munmap_wf: "world_wf w \<Longrightarrow> world_wf (snd (go_Munmap E a w))"
  by (auto simp: go_Munmap_def sys_munmap_def world_wf_def split: option.splits)

lemma go_Munmap_mem:
  "mem (snd (go_Munmap E a w)) = (if fst (go_Munmap E a w) = None then (mem w)(a := None) else mem w)"
  by (simp add: go_Munmap_def sys_munmap_def split: option.splits)

lemma go_Munmap_fst: "fst (go_Munmap E a w) = None \<longleftrightarrow> a \<in> dom (mem w) \<and> e_munmap E (hist w) a = None"
  by (auto simp: go_Munmap_def sys_munmap_def split: option.splits)

lemma go_Munmap_frame [simp]:
  "fd_of (snd (go_Munmap E a w)) = fd_of w" "ndisp (snd (go_Munmap E a w)) = ndisp w"
  "files (snd (go_Munmap E a w)) = files w"
  by (simp_all add: go_Munmap_def sys_munmap_def split: option.splits)

lemma open_fds_munmap [simp]: "open_fds (hist (snd (go_Munmap E a w))) = open_fds (hist w)"
  by (simp add: go_Munmap_def sys_munmap_def split: option.splits)

lemma display_Open_wf: "world_wf w \<Longrightarrow> world_wf (snd (display_Open E p w))"
  by (auto simp: display_Open_def sys_open_def world_wf_def Let_def split: sum.splits)

lemma display_Info_wf: "world_wf w \<Longrightarrow> world_wf (snd (display_Info E d w))"
  by (auto simp: display_Info_def ioctl_get_info_def world_wf_def Let_def split: sum.splits)

lemma display_SetOverlay_wf: "world_wf w \<Longrightarrow> world_wf (snd (display_SetOverlay E d b w))"
  by (auto simp: display_SetOverlay_def ioctl_overlay_def world_wf_def Let_def
      split: option.splits)

lemma display_Close_wf: "world_wf w \<Longrightarrow> world_wf (snd (display_Close E d w))"
  by (auto simp: display_Close_def sys_close_def world_wf_def Let_def)

lemma frame_update_wf: "world_wf w \<Longrightarrow> world_wf (snd (frame_update f g w))"
  by (auto simp: frame_update_def world_wf_def split: option.splits)

lemma get_buffer_mem [simp]:
  "mem (snd (ioctl_get_buffer E fd w)) = mem w" "fd_of (snd (ioctl_get_buffer E fd w)) = fd_of w"
  "live_maps (hist (snd (ioctl_get_buffer E fd w))) = live_maps (hist w)"
  "world_wf (snd (ioctl_get_buffer E fd w)) = world_wf w"
  by (simp_all add: ioctl_get_buffer_def Let_def world_wf_def)

lemma ioctl_send_sel [simp]:
  "mem (snd (ioctl_send E fd b w)) = mem w" "fd_of (snd (ioctl_send E fd b w)) = fd_of w"
  "ndisp (snd (ioctl_send E fd b w)) = ndisp w" "files (snd (ioctl_send E fd b w)) = files w"
  "live_maps (hist (snd (ioctl_send E fd b w))) = live_maps (hist w)"
  "open_fds (hist (snd (ioctl_send E fd b w))) = open_fds (hist w)"
  "fst (ioctl_send E fd b w) = e_send E (hist w) fd b"
  by (simp_all add: ioctl_send_def Let_def)

lemma display_AcquireFrame_wf: "world_wf w \<Longrightarrow> world_wf (snd (display_AcquireFrame E d w))"
  by (auto simp: display_AcquireFrame_def go_Mmap_def ioctl_get_buffer_def sys_mmap_def
      world_wf_def Let_def split: sum.splits prod.splits)

lemma frame_Commit_wf: "world_wf w \<Longrightarrow> world_wf (snd (snd (frame_Commit E f m r w)))"
  by (auto simp: frame_Commit_def ioctl_send_def world_wf_log Let_def
      intro!: go_Munmap_wf split: option.splits)

lemma frame_Cancel_wf: "world_wf w \<Longrightarrow> world_wf (snd (snd (frame_Cancel E f w)))"
  using go_Munmap_wf [of w E "fr_addr f"]
  by (auto simp: frame_Cancel_def split: prod.splits)

text \<open>Everything a successful acquisition tells.\<close>

lemma acquire_Ok:
  assumes "display_AcquireFrame E d w = (Ok f, w')"
  obtains b g where
    "e_get_buffer E (hist w) (fd_of w d) = Inr b" "0 < FrameByteCount (info_of_buf b)"
    "e_mmap E (EvGetBuffer (fd_of w d) (Inr b) # hist w) (fd_of w d) (fr_len f) = Inr (fr_addr f, g)"
    "fr_display f = d" "fr_info f = info_of_buf b" "\<not> consumed f" "0 \<le> fd_of w d"
    "fr_len f = nat (FrameByteCount (info_of_buf b))"
    "mem w' = (mem w)(fr_addr f \<mapsto> map g [0..<fr_len f])" "fd_of w' = fd_of w"
    "ndisp w' = ndisp w" "files w' = files w"
    "hist w' = EvMmap (fd_of w d) (fr_len f) (Inr (fr_addr f))
        # EvGetBuffer (fd_of w d) (Inr b) # hist w"
  using assms that
  by (fastforce simp: display_AcquireFrame_def go_Mmap_def ioctl_get_buffer_def sys_mmap_def
      Let_def split: if_splits sum.splits prod.splits)

lemma acquire_not_Ok:
  assumes "display_AcquireFrame E d w = (r, w')" "\<not> is_ok r"
  shows "mem w' = mem w" "fd_of w' = fd_of w" "\<not> is_panic r"
  using assms
  by (auto simp: display_AcquireFrame_def go_Mmap_def ioctl_get_buffer_def sys_mmap_def
      Let_def split: if_splits sum.splits prod.splits)

section \<open>Properties\<close>

text \<open>
  A closed display is inert: after \<open>Close\<close>, every method answers without a system call,
  \<open>Info\<close>, \<open>AcquireFrame\<close> and \<open>SetOverlay\<close> with \<open>os.ErrClosed\<close>, and a second \<open>Close\<close> with success,
  so no descriptor is ever closed twice.
\<close>

lemma closed_display_is_inert:
  "let w' = snd (display_Close E d w)
   in display_Info E d w' = (Err ErrClosed, w') \<and>
      display_AcquireFrame E d w' = (Err ErrClosed, w') \<and>
      display_SetOverlay E d b w' = (Err ErrClosed, w') \<and>
      display_Close E d w' = (Ok (), w')"
  by (simp add: display_Close_def display_Info_def display_AcquireFrame_def
      display_SetOverlay_def sys_close_def Let_def)

text \<open>
  A frame is committed at most once.  A successful \<open>Commit\<close> sends exactly one buffer, which
  describes the frame's geometry, the requested mode and the requested window (the whole virtual
  panel when no region is given) and carries the bytes of the frame at that moment; afterwards
  \<open>Commit\<close> fails without a system call and \<open>Cancel\<close> does nothing.
\<close>

lemma commit_once:
  assumes "frame_Commit E f mode region w = (Ok (), f', w')" and "frame_bytes f w = Some bs"
  shows "(\<exists>rest. hist w' = rest @ EvSend (fd_of w (fr_display f)) (commit_info f mode region) bs None
             # hist w \<and> (rest = [] \<or> (\<exists>r. rest = [EvMunmap (fr_addr f) r]))) \<and>
    frame_Commit E2 f' mode2 region2 w2 =
      (Err (ErrMsg ''einklib: frame already consumed''), f', w2) \<and>
    frame_Cancel E2 f' w2 = (Ok (), f', w2)"
proof -
  have nc: "\<not> consumed f" using assms(1) by (auto simp: frame_Commit_def split: if_splits)
  have b: "bi_buffer (commit_info f mode region) = fr_addr f" by (simp add: commit_info_def Let_def)
  let ?ev = "EvSend (fd_of w (fr_display f)) (commit_info f mode region) bs None"
  have e: "e_send E (hist w) (fd_of w (fr_display f)) (commit_info f mode region) = None"
    and f': "f' = f\<lparr>consumed := True\<rparr>" and w': "w' = snd (go_Munmap E (fr_addr f) (log_ev ?ev w))"
    using assms nc
    by (auto simp: frame_Commit_def ioctl_send_def Let_def b frame_bytes_def
        split: option.splits)
  have "hist w' = ?ev # hist w \<or> (\<exists>r. hist w' = EvMunmap (fr_addr f) r # ?ev # hist w)"
    by (simp add: w' go_Munmap_def sys_munmap_def split: option.splits)
  then have "\<exists>rest. hist w' = rest @ ?ev # hist w \<and>
      (rest = [] \<or> (\<exists>r. rest = [EvMunmap (fr_addr f) r]))"
    by (metis append_Cons append_Nil)
  then show ?thesis by (simp add: f' frame_Commit_def frame_Cancel_def)
qed

definition demo_frame :: frame where
  "demo_frame = \<lparr>fr_display = 0, fr_info = info_of_buf demo_info, fr_addr = 4096, fr_len = 12,
     consumed = False\<rparr>"

definition demo_world :: world where
  "demo_world = empty_world\<lparr>fd_of := (\<lambda>_. 3), ndisp := 1, mem := [4096 \<mapsto> replicate 12 7]\<rparr>"

lemma commit_once_example:
  "\<exists>f' w'. frame_Commit demo_env demo_frame 2 None demo_world = (Ok (), f', w') \<and>
     frame_Commit demo_env f' 2 None w' =
       (Err (ErrMsg ''einklib: frame already consumed''), f', w')"
proof -
  obtain f' w' where c: "frame_Commit demo_env demo_frame 2 None demo_world = (Ok (), f', w')"
    by (simp add: frame_Commit_def demo_frame_def demo_world_def demo_env_def ioctl_send_def Let_def)
  have "frame_bytes demo_frame demo_world = Some (replicate 12 7)"
    by (simp add: frame_bytes_def demo_frame_def demo_world_def)
  from commit_once [OF c this, of demo_env 2 None w'] c show ?thesis by blast
qed

text \<open>
  Frame sizes.  For a panel below \<open>2^30\<close> pixels in each direction the size of the mapping is
  computed without overflow: three bytes per pixel in colour, half a byte in grayscale, never
  negative; a colour frame is a whole number of pixels.
\<close>

lemma FrameByteCount_exact:
  assumes "0 \<le> sint (di_virtualWidth d)" and "sint (di_virtualWidth d) \<le> 2 ^ 30"
    and "0 \<le> sint (di_virtHeight d)" and "sint (di_virtHeight d) \<le> 2 ^ 30"
  shows "FrameByteCount d =
      (if di_color d then 3 * (sint (di_virtualWidth d) * sint (di_virtHeight d))
       else sint (di_virtualWidth d) * sint (di_virtHeight d) div 2) \<and>
    0 \<le> FrameByteCount d"
proof -
  define p where "p = sint (di_virtualWidth d) * sint (di_virtHeight d)"
  have p0: "0 \<le> p" using assms by (simp add: p_def)
  have "p \<le> 2 ^ 30 * 2 ^ 30" unfolding p_def using assms by (intro mult_mono) auto
  then have "wrap64 (p * 3) = p * 3" using p0 by (intro wrap64_id) auto
  moreover have "wrap64 p = p" unfolding p_def by (rule wrap64_i32_product)
  moreover have "p sdiv 2 = p div 2"
    using p0 by (simp add: signed_divide_int_def sgn_if)
  ultimately show ?thesis using p0 by (simp add: FrameByteCount_def p_def [symmetric])
qed

lemma FrameByteCount_exact_example:
  "FrameByteCount (newDisplayInfo 2560 1440 2560 1440 True) = 11059200"
  using FrameByteCount_exact [of "newDisplayInfo 2560 1440 2560 1440 True"]
  by (simp add: newDisplayInfo_def)

end
