(* ===== verification/Bitmap.thy ===== *)
theory Bitmap
  imports Display
begin

unbundle bit_operations_syntax

text \<open>
  The painters of \<open>einklib/bitmap.go\<close>.  Each works on the bytes behind \<open>Frame.Pixels()\<close>; the loops
  are written over the byte index as in the code, and the writes go through the mapping.
\<close>

section \<open>Definitions\<close>

text \<open>The colour loop: \<open>for i := 0; i+2 < len(px); i += 3\<close>.\<close>

function fill_rgb :: "byte \<Rightarrow> byte \<Rightarrow> byte \<Rightarrow> nat \<Rightarrow> byte list \<Rightarrow> byte list" where
  "fill_rgb r g b i px =
     (if i + 2 < length px
      then fill_rgb r g b (i + 3) (px[i := r, i + 1 := g, i + 2 := b])
      else px)"
  by pat_completeness auto
termination
  by (relation "measure (\<lambda>(r, g, b, i, px). length px - i)") auto

declare fill_rgb.simps [simp del]

text \<open>The grayscale loop: \<open>for i := range px\<close>.\<close>

function fill_pair :: "byte \<Rightarrow> nat \<Rightarrow> byte list \<Rightarrow> byte list" where
  "fill_pair p i px = (if i < length px then fill_pair p (Suc i) (px[i := p]) else px)"
  by pat_completeness auto
termination
  by (relation "measure (\<lambda>(p, i, px). length px - i)") auto

declare fill_pair.simps [simp del]

definition red_of :: "u32 \<Rightarrow> byte" where "red_of argb = ucast (drop_bit 16 argb AND 255)"
definition green_of :: "u32 \<Rightarrow> byte" where "green_of argb = ucast (drop_bit 8 argb AND 255)"
definition blue_of :: "u32 \<Rightarrow> byte" where "blue_of argb = ucast (argb AND 255)"

definition luma :: "byte \<Rightarrow> byte \<Rightarrow> byte \<Rightarrow> byte" where
  "luma r g b = ucast (drop_bit 8 (ucast r * 54 + ucast g * 183 + ucast b * 19 :: u32))"

definition gray_pair :: "byte \<Rightarrow> byte \<Rightarrow> byte \<Rightarrow> byte" where
  "gray_pair r g b = (let nib = drop_bit 4 (luma r g b) in push_bit 4 nib OR nib)"

text \<open>What \<open>FillSolid\<close> does to the bytes of a frame.\<close>

definition fill_bytes :: "bool \<Rightarrow> u32 \<Rightarrow> byte list \<Rightarrow> byte list" where
  "fill_bytes color argb px =
     (let r = red_of argb; g = green_of argb; b = blue_of argb
      in if color then fill_rgb r g b 0 px else fill_pair (gray_pair r g b) 0 px)"

definition FillSolid :: "frame \<Rightarrow> u32 \<Rightarrow> world \<Rightarrow> unit outcome \<times> world" where
  "FillSolid f argb w = frame_update f (fill_bytes (di_color (fr_info f)) argb) w"

text \<open>The two copying painters: \<open>n\<close> is cut to the shorter length, then \<open>copy(dst[:n], src[:n])\<close>.\<close>

definition paint_bytes :: "byte list \<Rightarrow> byte list \<Rightarrow> byte list" where
  "paint_bytes src dst =
     (let n = length src; n = (if n > length dst then length dst else n)
      in splice dst 0 (take n src))"

definition PaintRGB888 :: "frame \<Rightarrow> byte list \<Rightarrow> world \<Rightarrow> unit outcome \<times> world" where
  "PaintRGB888 f rgb w = frame_update f (paint_bytes rgb) w"

definition PaintGrayscale :: "frame \<Rightarrow> byte list \<Rightarrow> world \<Rightarrow> unit outcome \<times> world" where
  "PaintGrayscale f gray w = frame_update f (paint_bytes gray) w"

section \<open>Painters keep the frame intact\<close>

text \<open>A frame is usable when its slice is mapped at its full length.\<close>

definition frame_ok :: "frame \<Rightarrow> world \<Rightarrow> bool" where
  "frame_ok f w \<longleftrightarrow> (\<exists>bs. mem w (fr_addr f) = Some bs \<and> length bs = fr_len f)"

text \<open>
  The contract of everything that draws: it rewrites the bytes in place and keeps their number.
  Drawing on a usable frame then never faults, keeps every frame usable and touches nothing but
  the pixels of its own frame.
\<close>

locale painter =
  fixes paint :: "byte list \<Rightarrow> byte list"
  assumes length_paint: "length (paint px) = length px"
begin

lemma paint_ok: "frame_ok f w \<Longrightarrow> fst (frame_update f paint w) = Ok ()"
  by (auto simp: frame_ok_def frame_update_def)

lemma paint_bytes_at:
  "mem w (fr_addr f) = Some bs \<Longrightarrow>
     frame_update f paint w = (Ok (), w\<lparr>mem := (mem w)(fr_addr f \<mapsto> paint bs)\<rparr>)"
  by (simp add: frame_update_def)

lemma paint_keeps_frames: "frame_ok f' w \<Longrightarrow> frame_ok f' (snd (frame_update f paint w))"
  by (auto simp: frame_ok_def frame_update_def length_paint split: option.splits)

lemma paint_only_memory:
  "hist (snd (frame_update f paint w)) = hist w" "fd_of (snd (frame_update f paint w)) = fd_of w"
  "files (snd (frame_update f paint w)) = files w" "ndisp (snd (frame_update f paint w)) = ndisp w"
  "a \<noteq> fr_addr f \<Longrightarrow> mem (snd (frame_update f paint w)) a = mem w a"
  by (simp_all add: frame_update_def split: option.splits)

end

lemma length_fill_rgb [simp]: "length (fill_rgb r g b i px) = length px"
  by (induction r g b i px rule: fill_rgb.induct) (subst fill_rgb.simps, simp)

lemma length_fill_pair [simp]: "length (fill_pair p i px) = length px"
  by (induction p i px rule: fill_pair.induct) (subst fill_pair.simps, simp)

lemma paint_bytes_copy: "paint_bytes src dst = copy_slice dst src"
  by (simp add: paint_bytes_def splice_def copy_slice_def min_def Let_def)

interpretation fill: painter "fill_bytes color argb"
  by unfold_locales (simp add: fill_bytes_def Let_def)

interpretation copying: painter "paint_bytes src"
  by unfold_locales (simp add: paint_bytes_copy)

section \<open>What the fill loops compute\<close>

lemma fill_rgb_nth:
  "k < length px \<Longrightarrow>
     fill_rgb r g b i px ! k =
       (if i \<le> k \<and> k < i + 3 * ((length px - i) div 3)
        then [r, g, b] ! ((k - i) mod 3) else px ! k)"
proof (induction r g b i px rule: fill_rgb.induct)
  case (1 r g b i px)
  show ?case
  proof (cases "i + 2 < length px")
    case False
    then have "(length px - i) div 3 = 0" by simp
    with False show ?thesis by (auto simp: fill_rgb.simps [of r g b i px])
  next
    case True
    let ?px = "px[i := r, i + 1 := g, i + 2 := b]"
    define m where "m = length px - (i + 3)"
    define q where "q = m div 3"
    have "length px - i = m + 3" using True by (simp add: m_def)
    then have q: "(length px - i) div 3 = Suc q" by (simp add: q_def)
    have IH: "fill_rgb r g b (i + 3) ?px ! k =
       (if i + 3 \<le> k \<and> k < i + 3 + 3 * q then [r, g, b] ! ((k - (i + 3)) mod 3) else ?px ! k)"
      using 1 True by (simp add: q_def m_def)
    consider "k < i" | "k = i" | "k = i + 1" | "k = i + 2" | "i + 3 \<le> k" by linarith
    then show ?thesis
    proof cases
      case 5
      then obtain j where "k = i + 3 + j" by (auto simp: le_iff_add)
      then have "(k - i) mod 3 = (k - (i + 3)) mod 3" by simp
      with 5 IH True q show ?thesis by (simp add: fill_rgb.simps [of r g b i px])
    qed (use IH True q in \<open>simp_all add: fill_rgb.simps [of r g b i px]\<close>)
  qed
qed

lemma fill_pair_eq: "i \<le> length px \<Longrightarrow> fill_pair p i px = take i px @ replicate (length px - i) p"
proof (induction p i px rule: fill_pair.induct)
  case (1 p i px)
  show ?case
  proof (cases "i < length px")
    case True
    then have "length px - i = Suc (length px - Suc i)" by simp
    moreover have "take (Suc i) (px[i := p]) = take i px @ [p]"
      using True by (simp add: take_Suc_conv_app_nth [of i "px[i := p]"])
    ultimately show ?thesis
      using 1 True by (simp add: fill_pair.simps [of p i px])
  next
    case False
    with 1 show ?thesis by (subst fill_pair.simps) simp
  qed
qed

lemma unat_byte_less: "unat (x :: byte) < 256"
  using unsigned_less [of x] by simp

lemma unat_shift_byte: "unat (drop_bit 8 (s :: u32)) = unat s div 256"
  by (simp only: unat_drop_bit_eq) (simp add: drop_bit_eq_div)

text \<open>The weighted sum fits a byte after the shift, so no bits are lost.\<close>

lemma luma_value:
  "unat (luma r g b) = (54 * unat r + 183 * unat g + 19 * unat b) div 256"
proof -
  have b: "unat r < 256" "unat g < 256" "unat b < 256"
    by (rule unat_byte_less)+
  have u: "unat (ucast r :: u32) = unat r" "unat (ucast g :: u32) = unat g"
      "unat (ucast b :: u32) = unat b"
    by (simp_all add: unsigned_ucast_eq take_bit_nat_eq_self less_trans [OF unat_byte_less])
  have "unat (ucast r * 54 + ucast g * 183 + ucast b * 19 :: u32)
      = 54 * unat r + 183 * unat g + 19 * unat b"
    using b u by (simp add: unat_word_ariths)
  then show ?thesis
    using b by (simp add: luma_def unsigned_ucast_eq unat_shift_byte take_bit_nat_eq_self)
qed

lemma length_concat_replicate3 [simp]: "length (concat (replicate n [a, b, c])) = 3 * n"
  by (induction n) auto

lemma nth_concat_replicate3:
  "k < 3 * n \<Longrightarrow> concat (replicate n [a, b, c]) ! k = [a, b, c] ! (k mod 3)"
proof (induction n arbitrary: k)
  case 0
  then show ?case by simp
next
  case (Suc n)
  show ?case
  proof (cases "k < 3")
    case True
    then consider "k = 0" | "k = 1" | "k = 2" by linarith
    then show ?thesis by cases simp_all
  next
    case False
    then obtain j where "k = 3 + j" by (auto simp: not_less le_iff_add)
    with Suc show ?thesis by (simp add: nth_append)
  qed
qed

lemma fill_rgb_eq:
  "fill_rgb r g b 0 px =
     concat (replicate (length px div 3) [r, g, b]) @ drop (3 * (length px div 3)) px"
proof (rule nth_equalityI)
  show "length (fill_rgb r g b 0 px) =
      length (concat (replicate (length px div 3) [r, g, b]) @ drop (3 * (length px div 3)) px)"
    by simp
  fix k assume "k < length (fill_rgb r g b 0 px)"
  then show "fill_rgb r g b 0 px ! k =
      (concat (replicate (length px div 3) [r, g, b]) @ drop (3 * (length px div 3)) px) ! k"
    by (simp add: fill_rgb_nth nth_append nth_concat_replicate3)
qed

lemma pair_table:
  "\<forall>k \<in> set [0..<16]. unat (push_bit 4 (of_nat k :: byte) OR of_nat k) = 17 * k"
  by code_simp

lemma gray_pair_value: "unat (gray_pair r g b) = 17 * (unat (luma r g b) div 16)"
proof -
  define k where "k = unat (drop_bit 4 (luma r g b))"
  have k: "k = unat (luma r g b) div 16"
    unfolding k_def by (simp only: unat_drop_bit_eq) (simp add: drop_bit_eq_div)
  have "k < 16" using unat_byte_less [of "luma r g b"] by (simp add: k)
  moreover have "drop_bit 4 (luma r g b) = of_nat k" by (simp add: k_def)
  ultimately show ?thesis
    using pair_table by (simp add: gray_pair_def Let_def k)
qed

section \<open>Properties\<close>

text \<open>
  \<open>FillSolid\<close> on a colour panel writes the pixel \<open>r, g, b\<close> over and over, as often as it
  fits, and leaves the one or two bytes of an incomplete last pixel alone.
\<close>

lemma fill_colour:
  "fill_bytes True argb px =
     concat (replicate (length px div 3) [red_of argb, green_of argb, blue_of argb])
       @ drop (3 * (length px div 3)) px"
  by (simp add: fill_bytes_def fill_rgb_eq Let_def)

text \<open>
  \<open>FillSolid\<close> on a grayscale panel writes one byte everywhere, whose two nibbles are the four
  high bits of the luminance \<open>(54 r + 183 g + 19 b) / 256\<close>; the 32-bit sum never overflows.
\<close>

lemma fill_gray:
  "\<exists>p. fill_bytes False argb px = replicate (length px) p \<and>
     unat p = 17 * ((54 * unat (red_of argb) + 183 * unat (green_of argb)
                     + 19 * unat (blue_of argb)) div 256 div 16)"
  by (rule exI [of _ "gray_pair (red_of argb) (green_of argb) (blue_of argb)"])
    (simp add: fill_bytes_def fill_pair_eq gray_pair_value luma_value Let_def)

text \<open>The alpha byte is ignored: only the low 24 bits of the colour matter.\<close>

lemma fill_ignores_alpha: "fill_bytes color (argb AND 0xFFFFFF) px = fill_bytes color argb px"
proof -
  have "red_of (argb AND 0xFFFFFF) = red_of argb" "green_of (argb AND 0xFFFFFF) = green_of argb"
    "blue_of (argb AND 0xFFFFFF) = blue_of argb"
    by (simp_all add: red_of_def green_of_def blue_of_def drop_bit_and and.assoc)
  then show ?thesis by (simp add: fill_bytes_def Let_def)
qed

text \<open>
  \<open>PaintRGB888\<close> and \<open>PaintGrayscale\<close> copy as many bytes as both buffers have: a short source
  leaves the rest of the frame, a long one is cut off at its end.
\<close>

lemma paint_copies_prefix:
  "paint_bytes src dst = take (length dst) src @ drop (length src) dst"
  by (simp add: paint_bytes_copy copy_slice_def)

end
