(* ===== verification/Display_Session.thy ===== *)
theory Display_Session
  imports Bitmap Op_System
begin

text \<open>
  A client of \<open>einklib\<close>: any sequence of calls of the package's interface, with all the display
  handles and frames it obtained.  The theory shows that a frame that was neither committed nor
  cancelled can be drawn on, and that consumed frames are exactly the released mappings.
\<close>

section \<open>Sessions\<close>

record session =
  ss_world :: world
  ss_frames :: "frame list"

datatype call =
    CallOpen string
  | CallInfo dref
  | CallAcquire dref
  | CallOverlay dref bool
  | CallClose dref
  | CallCommit nat waveform_mode "Region option"
  | CallCancel nat
  | CallFill nat u32
  | CallPaint nat "byte list"

fun session_step :: "env \<Rightarrow> call \<Rightarrow> session \<Rightarrow> session" where
  "session_step E (CallOpen p) s = s\<lparr>ss_world := snd (display_Open E p (ss_world s))\<rparr>"
| "session_step E (CallInfo d) s = s\<lparr>ss_world := snd (display_Info E d (ss_world s))\<rparr>"
| "session_step E (CallAcquire d) s =
     (case display_AcquireFrame E d (ss_world s) of
        (r, w) \<Rightarrow>
          (case r of
             Ok f \<Rightarrow> s\<lparr>ss_world := w, ss_frames := ss_frames s @ [f]\<rparr>
           | _ \<Rightarrow> s\<lparr>ss_world := w\<rparr>))"
| "session_step E (CallOverlay d b) s =
     s\<lparr>ss_world := snd (display_SetOverlay E d b (ss_world s))\<rparr>"
| "session_step E (CallClose d) s = s\<lparr>ss_world := snd (display_Close E d (ss_world s))\<rparr>"
| "session_step E (CallCommit i m r) s =
     (if i < length (ss_frames s)
      then case frame_Commit E (ss_frames s ! i) m r (ss_world s) of
        (res, f, w) \<Rightarrow> s\<lparr>ss_world := w, ss_frames := (ss_frames s)[i := f]\<rparr>
      else s)"
| "session_step E (CallCancel i) s =
     (if i < length (ss_frames s)
      then case frame_Cancel E (ss_frames s ! i) (ss_world s) of
        (res, f, w) \<Rightarrow> s\<lparr>ss_world := w, ss_frames := (ss_frames s)[i := f]\<rparr>
      else s)"
| "session_step E (CallFill i c) s =
     (if i < length (ss_frames s)
      then s\<lparr>ss_world := snd (FillSolid (ss_frames s ! i) c (ss_world s))\<rparr> else s)"
| "session_step E (CallPaint i bs) s =
     (if i < length (ss_frames s)
      then s\<lparr>ss_world := snd (PaintRGB888 (ss_frames s ! i) bs (ss_world s))\<rparr> else s)"

definition new_session :: session where
  "new_session = \<lparr>ss_world = empty_world, ss_frames = []\<rparr>"

section \<open>Invariant\<close>

definition munmap_total :: "env \<Rightarrow> bool" where
  "munmap_total E \<longleftrightarrow> (\<forall>h a. e_munmap E h a = None)"

definition pending :: "frame list \<Rightarrow> nat set" where
  "pending fs = {i. i < length fs \<and> \<not> consumed (fs ! i)}"

definition session_inv :: "env \<Rightarrow> session \<Rightarrow> bool" where
  "session_inv E s \<longleftrightarrow>
     world_wf (ss_world s) \<and>
     (\<forall>i \<in> pending (ss_frames s). frame_ok (ss_frames s ! i) (ss_world s)) \<and>
     inj_on (\<lambda>i. fr_addr (ss_frames s ! i)) (pending (ss_frames s)) \<and>
     (munmap_total E \<longrightarrow>
        dom (mem (ss_world s)) = (\<lambda>i. fr_addr (ss_frames s ! i)) ` pending (ss_frames s))"

lemma pending_append: "pending (fs @ [f]) = pending fs \<union> (if consumed f then {} else {length fs})"
  by (auto simp: pending_def nth_append less_Suc_eq)

lemma pending_empty: "pending fs = {} \<longleftrightarrow> list_all consumed fs"
  by (auto simp: pending_def list_all_length)

lemma pending_consume:
  "i < length fs \<Longrightarrow> pending (fs[i := (fs ! i)\<lparr>consumed := True\<rparr>]) = pending fs - {i}"
  by (auto simp: pending_def nth_list_update)

text \<open>
  The two operations that release a frame: nothing happens, or the frame is marked and the
  mapping is removed unless the kernel refuses.
\<close>

definition releases :: "env \<Rightarrow> frame \<Rightarrow> world \<Rightarrow> frame \<Rightarrow> world \<Rightarrow> bool" where
  "releases E f w f' w' \<longleftrightarrow>
     (f' = f \<and> mem w' = mem w) \<or>
     (\<not> consumed f \<and> f' = f\<lparr>consumed := True\<rparr> \<and>
      (mem w' = (mem w)(fr_addr f := None) \<or> mem w' = mem w \<and> \<not> munmap_total E))"

lemma go_Munmap_releases:
  "mem (snd (go_Munmap E a w)) = (mem w)(a := None) \<or>
   mem (snd (go_Munmap E a w)) = mem w \<and> \<not> munmap_total E"
  unfolding go_Munmap_def sys_munmap_def munmap_total_def
  by (auto split: option.splits)

lemma frame_Commit_releases:
  "frame_Commit E f m r w = (res, f', w') \<Longrightarrow> releases E f w f' w'"
proof -
  assume c: "frame_Commit E f m r w = (res, f', w')"
  obtain e w1 where s: "ioctl_send E (fd_of w (fr_display f)) (commit_info f m r) w = (e, w1)"
    by (metis surj_pair)
  then have "mem w1 = mem w" by (metis ioctl_send_sel(1) snd_conv)
  with c s go_Munmap_releases [of E "fr_addr f" w1] show ?thesis
    by (auto simp: frame_Commit_def releases_def split: if_splits option.splits)
qed

lemma frame_Cancel_releases:
  "frame_Cancel E f w = (res, f', w') \<Longrightarrow> releases E f w f' w'"
  using go_Munmap_releases [of E "fr_addr f" w]
  by (auto simp: frame_Cancel_def releases_def split: if_splits prod.splits)

lemma frame_ok_mem: "mem w' = mem w \<Longrightarrow> frame_ok f w' = frame_ok f w"
  by (simp add: frame_ok_def)

lemma frame_ok_other:
  "mem w' = (mem w)(a := None) \<Longrightarrow> fr_addr f \<noteq> a \<Longrightarrow> frame_ok f w' = frame_ok f w"
  by (simp add: frame_ok_def)

lemma session_inv_release:
  assumes inv: "session_inv E s" and i: "i < length (ss_frames s)"
    and rel: "releases E (ss_frames s ! i) (ss_world s) f w" and wf: "world_wf w"
  shows "session_inv E (s\<lparr>ss_world := w, ss_frames := (ss_frames s)[i := f]\<rparr>)"
proof -
  let ?fs = "ss_frames s" and ?w = "ss_world s"
  consider (same) "f = ?fs ! i" "mem w = mem ?w"
    | (gone) "\<not> consumed (?fs ! i)" "f = (?fs ! i)\<lparr>consumed := True\<rparr>"
        "mem w = (mem ?w)(fr_addr (?fs ! i) := None)"
    | (kept) "\<not> consumed (?fs ! i)" "f = (?fs ! i)\<lparr>consumed := True\<rparr>"
        "mem w = mem ?w" "\<not> munmap_total E"
    using rel by (auto simp: releases_def)
  then show ?thesis
  proof cases
    case same
    then show ?thesis
      using inv wf by (simp add: session_inv_def frame_ok_mem [OF same(2)])
  next
    case gone
    have ip: "i \<in> pending ?fs" using gone i by (simp add: pending_def)
    have p: "pending (?fs[i := f]) = pending ?fs - {i}" using gone i by (simp add: pending_consume)
    have nth: "\<And>j. j \<noteq> i \<Longrightarrow> ?fs[i := f] ! j = ?fs ! j" by simp
    have inj: "inj_on (\<lambda>i. fr_addr (?fs ! i)) (pending ?fs)" using inv by (simp add: session_inv_def)
    have other: "fr_addr (?fs ! j) \<noteq> fr_addr (?fs ! i)" if "j \<in> pending ?fs" "j \<noteq> i" for j
      using inj that ip by (auto simp: inj_on_def)
    have ok: "\<forall>j \<in> pending (?fs[i := f]). frame_ok (?fs[i := f] ! j) w"
    proof
      fix j assume "j \<in> pending (?fs[i := f])"
      then have j: "j \<in> pending ?fs" "j \<noteq> i" by (simp_all add: p)
      with inv have "frame_ok (?fs ! j) ?w" by (simp add: session_inv_def)
      with frame_ok_other [OF gone(3) other [OF j]] j show "frame_ok (?fs[i := f] ! j) w" by simp
    qed
    have dom: "dom (mem w) = (\<lambda>j. fr_addr (?fs[i := f] ! j)) ` pending (?fs[i := f])"
      if "munmap_total E"
    proof -
      have "dom (mem ?w) = (\<lambda>i. fr_addr (?fs ! i)) ` pending ?fs"
        using inv that by (simp add: session_inv_def)
      moreover have "(\<lambda>j. fr_addr (?fs[i := f] ! j)) ` pending (?fs[i := f])
          = (\<lambda>j. fr_addr (?fs ! j)) ` (pending ?fs - {i})"
        unfolding p by (rule image_cong) auto
      moreover have "(\<lambda>j. fr_addr (?fs ! j)) ` (pending ?fs - {i})
          = (\<lambda>j. fr_addr (?fs ! j)) ` pending ?fs - {fr_addr (?fs ! i)}"
        using inj_on_image_set_diff [OF inj, of "pending ?fs" "{i}"] ip by simp
      ultimately show ?thesis by (simp add: gone)
    qed
    have "inj_on (\<lambda>j. fr_addr (?fs[i := f] ! j)) (pending (?fs[i := f]))"
      using inj by (auto simp: p inj_on_def)
    with ok dom wf show ?thesis by (simp add: session_inv_def)
  next
    case kept
    show ?thesis
      using inv wf kept
      by (auto simp: session_inv_def pending_consume [OF i] frame_ok_mem [OF kept(3)] inj_on_def)
  qed
qed

lemma session_inv_acquire:
  assumes inv: "session_inv E s" and fresh: "mmap_fresh E"
    and acq: "display_AcquireFrame E d (ss_world s) = (Ok f, w)"
  shows "session_inv E (s\<lparr>ss_world := w, ss_frames := ss_frames s @ [f]\<rparr>)"
proof -
  let ?fs = "ss_frames s" and ?w = "ss_world s"
  have wf: "world_wf ?w" using inv by (simp add: session_inv_def)
  from acq obtain b g where
    m: "e_mmap E (EvGetBuffer (fd_of ?w d) (Inr b) # hist ?w) (fd_of ?w d) (fr_len f)
          = Inr (fr_addr f, g)"
    and c: "\<not> consumed f" and mem: "mem w = (mem ?w)(fr_addr f \<mapsto> map g [0..<fr_len f])"
    by (rule acquire_Ok)
  have new: "fr_addr f \<notin> dom (mem ?w)"
    using fresh m wf by (fastforce simp: mmap_fresh_def world_wf_def)
  have old: "fr_addr (?fs ! j) \<noteq> fr_addr f" if "j \<in> pending ?fs" for j
    using inv that new by (auto simp: session_inv_def frame_ok_def)
  have p: "pending (?fs @ [f]) = insert (length ?fs) (pending ?fs)"
    using c by (auto simp: pending_append)
  have lt: "\<And>j. j \<in> pending ?fs \<Longrightarrow> (?fs @ [f]) ! j = ?fs ! j \<and> j < length ?fs"
    by (auto simp: pending_def nth_append)
  have ok: "\<forall>j \<in> pending (?fs @ [f]). frame_ok ((?fs @ [f]) ! j) w"
    using inv old lt by (auto simp: p session_inv_def frame_ok_def mem)
  have inj: "inj_on (\<lambda>j. fr_addr ((?fs @ [f]) ! j)) (pending (?fs @ [f]))"
    using inv old lt by (auto simp: p session_inv_def inj_on_def) (metis+)
  have dom: "dom (mem w) = (\<lambda>j. fr_addr ((?fs @ [f]) ! j)) ` pending (?fs @ [f])"
    if "munmap_total E"
    using inv that lt by (auto simp: p session_inv_def mem)
  have "world_wf w" using display_AcquireFrame_wf [OF wf, of E d] acq by simp
  with ok inj dom show ?thesis by (simp add: session_inv_def)
qed

text \<open>Calls that neither create nor release a frame.\<close>

lemma session_inv_world:
  assumes "session_inv E s" "world_wf w" "dom (mem w) = dom (mem (ss_world s))"
    and "\<And>f. frame_ok f (ss_world s) \<Longrightarrow> frame_ok f w"
  shows "session_inv E (s\<lparr>ss_world := w\<rparr>)"
  using assms by (simp add: session_inv_def)

lemma session_inv_same_mem:
  assumes "session_inv E s" "world_wf w" "mem w = mem (ss_world s)"
  shows "session_inv E (s\<lparr>ss_world := w\<rparr>)"
  using assms by (intro session_inv_world) (simp_all add: frame_ok_def)

lemma display_calls_mem:
  "mem (snd (display_Open E p w)) = mem w" "mem (snd (display_Info E d w)) = mem w"
  "mem (snd (display_SetOverlay E d b w)) = mem w" "mem (snd (display_Close E d w)) = mem w"
  by (auto simp: display_Open_def display_Info_def display_SetOverlay_def display_Close_def
      sys_open_def ioctl_get_info_def ioctl_overlay_def sys_close_def Let_def
      split: sum.splits option.splits)

lemma frame_update_dom: "dom (mem (snd (frame_update f g w))) = dom (mem w)"
  by (auto simp: frame_update_def split: option.splits)

lemma session_step_inv:
  assumes fresh: "mmap_fresh E" and inv: "session_inv E s"
  shows "session_inv E (session_step E c s)"
proof -
  have wf: "world_wf (ss_world s)" using inv by (simp add: session_inv_def)
  show ?thesis
  proof (cases c)
    case (CallOpen p)
    then show ?thesis
      using inv wf by (simp add: session_inv_same_mem display_Open_wf display_calls_mem)
  next
    case (CallInfo d)
    then show ?thesis
      using inv wf by (simp add: session_inv_same_mem display_Info_wf display_calls_mem)
  next
    case (CallOverlay d b)
    then show ?thesis
      using inv wf by (simp add: session_inv_same_mem display_SetOverlay_wf display_calls_mem)
  next
    case (CallClose d)
    then show ?thesis
      using inv wf by (simp add: session_inv_same_mem display_Close_wf display_calls_mem)
  next
    case (CallAcquire d)
    obtain r w where a: "display_AcquireFrame E d (ss_world s) = (r, w)" by (metis surj_pair)
    then have w: "world_wf w" using display_AcquireFrame_wf [OF wf, of E d] by simp
    show ?thesis
    proof (cases r)
      case (Ok f)
      with a CallAcquire session_inv_acquire [OF inv fresh] show ?thesis by simp
    qed (use a CallAcquire w inv acquire_not_Ok(1) [OF a]
        in \<open>simp_all add: session_inv_same_mem\<close>)
  next
    case (CallCommit i m r)
    obtain res f w where e: "frame_Commit E (ss_frames s ! i) m r (ss_world s) = (res, f, w)"
      by (metis prod_cases3)
    then have "world_wf w" using frame_Commit_wf [OF wf, of E "ss_frames s ! i" m r] by simp
    with e CallCommit inv session_inv_release [OF inv _ frame_Commit_releases [OF e]] show ?thesis
      by simp
  next
    case (CallCancel i)
    obtain res f w where e: "frame_Cancel E (ss_frames s ! i) (ss_world s) = (res, f, w)"
      by (metis prod_cases3)
    then have "world_wf w" using frame_Cancel_wf [OF wf, of E "ss_frames s ! i"] by simp
    with e CallCancel inv session_inv_release [OF inv _ frame_Cancel_releases [OF e]] show ?thesis
      by simp
  next
    case (CallFill i c)
    then show ?thesis using inv wf
      by (simp add: FillSolid_def session_inv_world frame_update_wf frame_update_dom
          fill.paint_keeps_frames)
  next
    case (CallPaint i bs)
    then show ?thesis using inv wf
      by (simp add: PaintRGB888_def session_inv_world frame_update_wf frame_update_dom
          copying.paint_keeps_frames)
  qed
qed

text \<open>The session as a system of operations that keeps its invariant, for every fresh kernel.\<close>

definition fresh_session_inv :: "env \<Rightarrow> session \<Rightarrow> bool" where
  "fresh_session_inv E s \<longleftrightarrow> (mmap_fresh E \<longrightarrow> session_inv E s)"

interpretation session: op_system "session_step E" "fresh_session_inv E" for E
  by unfold_locales (simp add: fresh_session_inv_def session_step_inv)

lemma new_session_inv: "session_inv E new_session"
  by (simp add: session_inv_def new_session_def empty_world_wf pending_def)
    (simp add: empty_world_def)

lemma session_reachable_inv:
  "mmap_fresh E \<Longrightarrow> session_inv E (fold (session_step E) cs new_session)"
  using session.run_inv [of E new_session cs]
  by (simp add: fresh_session_inv_def new_session_inv)

text \<open>The definitions a concrete run unfolds.\<close>

lemmas demo_session_defs =
  new_session_def empty_world_def demo_env_def demo_info_def display_Open_def
  display_AcquireFrame_def frame_Commit_def go_Mmap_def go_Munmap_def sys_defs Let_def
  info_of_buf_def newDisplayInfo_def FrameByteCount_def wrap64_def
  commit_info_def NewRegion_def

section \<open>Properties\<close>

text \<open>
  C8. Memory safety of the frame interface.  After any sequence of calls of \<open>einklib\<close>, in any
  order and with any answers of the kernel, drawing on a frame that was neither committed nor
  cancelled writes into a live mapping of exactly the frame's length, and two such frames never
  share memory.
\<close>

theorem pending_frames_drawable:
  assumes "mmap_fresh E" and "s = fold (session_step E) cs new_session"
    and "i \<in> pending (ss_frames s)"
  shows "fst (FillSolid (ss_frames s ! i) argb (ss_world s)) = Ok () \<and>
    (\<exists>bs. frame_bytes (ss_frames s ! i) (ss_world s) = Some bs \<and>
       length bs = fr_len (ss_frames s ! i)) \<and>
    (\<forall>j \<in> pending (ss_frames s).
       fr_addr (ss_frames s ! i) = fr_addr (ss_frames s ! j) \<longrightarrow> i = j)"
proof -
  have inv: "session_inv E s" using assms by (simp add: session_reachable_inv)
  then have ok: "frame_ok (ss_frames s ! i) (ss_world s)"
    using assms by (simp add: session_inv_def)
  then have "fst (FillSolid (ss_frames s ! i) argb (ss_world s)) = Ok ()"
    by (simp add: FillSolid_def fill.paint_ok)
  moreover from ok have "\<exists>bs. frame_bytes (ss_frames s ! i) (ss_world s) = Some bs \<and>
      length bs = fr_len (ss_frames s ! i)"
    by (simp add: frame_ok_def frame_bytes_def)
  ultimately show ?thesis using inv assms(3) by (auto simp: session_inv_def inj_on_def)
qed

lemma pending_frames_drawable_witness:
  "mmap_fresh demo_env \<and>
   fst (FillSolid
          (ss_frames (fold (session_step demo_env) [CallOpen DefaultDevice, CallAcquire 0]
             new_session) ! 0) 0xFF0000
          (ss_world (fold (session_step demo_env) [CallOpen DefaultDevice, CallAcquire 0]
             new_session))) = Ok ()"
proof -
  let ?s = "fold (session_step demo_env) [CallOpen DefaultDevice, CallAcquire 0] new_session"
  have "0 \<in> pending (ss_frames ?s)"
    by (simp add: demo_session_defs pending_def)
  then show ?thesis
    using pending_frames_drawable [OF demo_mmap_fresh refl, of 0 _ "0xFF0000"] demo_mmap_fresh
    by blast
qed

text \<open>
  C9. No mapping leaks and none is released twice: when \<open>munmap\<close> succeeds, the live mappings are,
  after any sequence of calls, exactly those of the frames that were neither committed nor
  cancelled, each counted once.
\<close>

theorem live_mappings_are_pending_frames:
  assumes "mmap_fresh E" and "munmap_total E" and "s = fold (session_step E) cs new_session"
  shows "live_maps (hist (ss_world s)) = (\<lambda>i. fr_addr (ss_frames s ! i)) ` pending (ss_frames s) \<and>
    card (live_maps (hist (ss_world s))) = card (pending (ss_frames s))"
proof -
  have inv: "session_inv E s" using assms by (simp add: session_reachable_inv)
  then have "dom (mem (ss_world s)) = live_maps (hist (ss_world s))"
    "dom (mem (ss_world s)) = (\<lambda>i. fr_addr (ss_frames s ! i)) ` pending (ss_frames s)"
    using assms(2) unfolding session_inv_def world_wf_def by blast+
  then have "live_maps (hist (ss_world s))
      = (\<lambda>i. fr_addr (ss_frames s ! i)) ` pending (ss_frames s)" by simp
  moreover have "inj_on (\<lambda>i. fr_addr (ss_frames s ! i)) (pending (ss_frames s))"
    using inv by (simp add: session_inv_def)
  ultimately show ?thesis by (simp add: card_image)
qed

lemma live_mappings_are_pending_frames_witness:
  "mmap_fresh demo_env \<and> munmap_total demo_env \<and>
   card (live_maps (hist (ss_world (fold (session_step demo_env)
      [CallOpen DefaultDevice, CallAcquire 0, CallCommit 0 2 None] new_session)))) = 0"
proof -
  let ?s = "fold (session_step demo_env)
      [CallOpen DefaultDevice, CallAcquire 0, CallCommit 0 2 None] new_session"
  have t: "munmap_total demo_env" by (simp add: munmap_total_def demo_env_def)
  have p: "pending (ss_frames ?s) = {}" by (simp add: pending_empty demo_session_defs)
  have "card (live_maps (hist (ss_world ?s))) = card (pending (ss_frames ?s))"
    by (rule live_mappings_are_pending_frames [OF demo_mmap_fresh t refl, THEN conjunct2])
  then have "card (live_maps (hist (ss_world ?s))) = 0" by (simp only: p card.empty)
  with t demo_mmap_fresh show ?thesis by blast
qed

end
