(* ===== verification/Interleave.thy ===== *)
theory Interleave
  imports Op_System
begin

text \<open>
  Goroutines that take turns on a shared state.  Each is at some point of its code, and the next of its steps
  is a function of that point and of the state.  The locales hold what all concurrent parts of the
  development need: an invariant of every goroutine that the steps of the others keep, and a log
  whose entries belong to goroutines one to one.
\<close>

section \<open>Taking turns\<close>

fun interleave :: "('p \<Rightarrow> 's \<Rightarrow> 'p \<times> 's) \<Rightarrow> nat \<Rightarrow> 'p list \<times> 's \<Rightarrow> 'p list \<times> 's" where
  "interleave step i (ps, s) =
     (if i < length ps then (case step (ps ! i) s of (p, s1) \<Rightarrow> (ps[i := p], s1)) else (ps, s))"

lemma interleave_length [simp]: "length (fst (fold (interleave step) sched c)) = length (fst c)"
  by (induction sched arbitrary: c) (auto split: prod.split)

text \<open>A goroutine alone.\<close>

definition alone_to :: "('p \<Rightarrow> 's \<Rightarrow> 'p \<times> 's) \<Rightarrow> 'p \<Rightarrow> 's \<Rightarrow> 'p \<Rightarrow> 's \<Rightarrow> bool" where
  "alone_to step p s q s' \<longleftrightarrow> (\<exists>n. fold (interleave step) (replicate n 0) ([p], s) = ([q], s'))"

lemma alone_here: "alone_to step p s p s"
  unfolding alone_to_def by (intro exI [of _ 0]) simp

lemma alone_step: "step p s = (p1, s1) \<Longrightarrow> alone_to step p1 s1 q s' \<Longrightarrow> alone_to step p s q s'"
  unfolding alone_to_def
proof (elim exE)
  fix n
  assume "step p s = (p1, s1)" and "fold (interleave step) (replicate n 0) ([p1], s1) = ([q], s')"
  then show "\<exists>n. fold (interleave step) (replicate n 0) ([p], s) = ([q], s')"
    by (intro exI [of _ "Suc n"]) simp
qed

lemma alone_trans: "alone_to step p s q t \<Longrightarrow> alone_to step q t r u \<Longrightarrow> alone_to step p s r u"
  unfolding alone_to_def
proof (elim exE)
  fix m n
  assume "fold (interleave step) (replicate m 0) ([p], s) = ([q], t)"
    and "fold (interleave step) (replicate n 0) ([q], t) = ([r], u)"
  then show "\<exists>n. fold (interleave step) (replicate n 0) ([p], s) = ([r], u)"
    by (intro exI [of _ "m + n"]) (simp add: replicate_add)
qed

text \<open>A goroutine that counts down ends.\<close>

lemma counted_run:
  assumes "\<And>p s. todo (fst (step p s)) \<le> todo p - (1 :: nat)"
  shows "i < length (fst c) \<Longrightarrow>
    todo (fst (fold (interleave step) sched c) ! i) \<le> todo (fst c ! i) - count_list sched i"
proof (induction sched arbitrary: c)
  case (Cons k ks)
  obtain ps s where c: "c = (ps, s)" by (metis surj_pair)
  let ?c = "interleave step k c"
  have "todo (fst ?c ! i) \<le> todo (fst c ! i) - (if k = i then 1 else 0)"
    using assms [of "ps ! i" s] Cons.prems
    by (cases "k = i") (auto simp: c split: prod.split)
  moreover have "i < length (fst ?c)" using Cons.prems by (auto simp: c split: prod.split)
  ultimately show ?case using Cons.IH [of ?c] by (cases "k = i") auto
qed simp

section \<open>Going forward\<close>

text \<open>
  When the points of a goroutine's code are ordered and no step goes back, a run does not either; what
  is a last point stays for good.
\<close>

locale forward =
  fixes step :: "'p :: order \<Rightarrow> 's \<Rightarrow> 'p \<times> 's"
  assumes step_forward: "p \<le> fst (step p s)"
begin

lemma run_forward: "list_all2 (\<le>) (fst c) (fst (fold (interleave step) sched c))"
proof (induction sched arbitrary: c)
  case Nil
  show ?case by (simp add: list_all2_refl)
next
  case (Cons k ks)
  obtain ps s where c: "c = (ps, s)" by (metis surj_pair)
  have "list_all2 (\<le>) (fst c) (fst (interleave step k c))"
    using step_forward [of "ps ! k" s]
    by (auto simp: c list_all2_conv_all_nth nth_list_update split: prod.split)
  from list_all2_trans [OF order_trans this Cons.IH] show ?case by simp
qed

lemma last_point_stays:
  assumes "i < length (fst c)" and "\<And>q. fst c ! i \<le> q \<Longrightarrow> q = fst c ! i"
  shows "fst (fold (interleave step) sched c) ! i = fst c ! i"
  using run_forward [of c sched] assms by (simp add: list_all2_conv_all_nth)

end

text \<open>
  Goroutines that may wait for one another: when one of those that are not at the end can always go
  on, all can come to their ends.
\<close>

locale live =
  fixes step :: "'p \<Rightarrow> 's \<Rightarrow> 'p \<times> 's"
    and steps_left :: "'p \<Rightarrow> nat"
    and sound :: "'p list \<times> 's \<Rightarrow> bool"
  assumes sound_step: "sound c \<Longrightarrow> sound (interleave step i c)"
    and not_stuck: "sound (ps, s) \<Longrightarrow> p \<in> set ps \<Longrightarrow> 0 < steps_left p \<Longrightarrow>
      \<exists>i < length ps. steps_left (fst (step (ps ! i) s)) < steps_left (ps ! i)"
begin

lemma sound_run: "sound c \<Longrightarrow> sound (fold (interleave step) sched c)"
  by (induction sched arbitrary: c) (simp_all add: sound_step)

lemma can_end:
  assumes "sound c"
  shows "\<exists>more. length more \<le> sum_list (map steps_left (fst c)) \<and>
    list_all (\<lambda>p. steps_left p = 0) (fst (fold (interleave step) more c))"
  using assms
proof (induction "sum_list (map steps_left (fst c))" arbitrary: c rule: less_induct)
  case less
  obtain ps s where c: "c = (ps, s)" by (metis surj_pair)
  show ?case
  proof (cases "list_all (\<lambda>p. steps_left p = 0) ps")
    case True
    then show ?thesis by (intro exI [of _ "[]"]) (simp add: c)
  next
    case False
    then obtain p where "p \<in> set ps" "0 < steps_left p" by (auto simp: list_all_iff)
    then obtain i where i: "i < length ps" "steps_left (fst (step (ps ! i) s)) < steps_left (ps ! i)"
      using not_stuck less.prems c by blast
    let ?c = "interleave step i c"
    have "map steps_left (fst ?c) = (map steps_left ps)[i := steps_left (fst (step (ps ! i) s))]"
      using i(1) by (simp add: c map_update split: prod.split)
    moreover have "steps_left (ps ! i) \<le> sum_list (map steps_left ps)"
      using elem_le_sum_list [of i "map steps_left ps"] i(1) by simp
    ultimately have fewer: "sum_list (map steps_left (fst ?c)) < sum_list (map steps_left (fst c))"
      using i by (simp add: c sum_list_update del: interleave.simps)
    from less.hyps [OF fewer sound_step [OF less.prems]] obtain more where
      "length more \<le> sum_list (map steps_left (fst ?c))"
      "list_all (\<lambda>p. steps_left p = 0) (fst (fold (interleave step) more ?c))" by blast
    with fewer show ?thesis by (intro exI [of _ "i # more"]) simp
  qed
qed

end

section \<open>Goroutines that keep apart\<close>

text \<open>
  Of goroutine \<open>i\<close>, whose task is \<open>jobs ! i\<close>, \<open>mine\<close> holds; any two are \<open>apart\<close>.
\<close>

definition team_inv ::
    "('s \<Rightarrow> bool) \<Rightarrow> ('j \<Rightarrow> 'p \<Rightarrow> 's \<Rightarrow> bool) \<Rightarrow> ('p \<Rightarrow> 'p \<Rightarrow> bool) \<Rightarrow> 'j list \<Rightarrow> 'p list \<times> 's \<Rightarrow> bool" where
  "team_inv shared mine apart jobs c \<longleftrightarrow>
     (case c of (ps, s) \<Rightarrow>
        length ps = length jobs \<and> shared s \<and>
        (\<forall>i < length jobs. mine (jobs ! i) (ps ! i) s) \<and>
        (\<forall>i < length jobs. \<forall>k < length jobs. i \<noteq> k \<longrightarrow> apart (ps ! i) (ps ! k)))"

locale team =
  fixes step :: "'p \<Rightarrow> 's \<Rightarrow> 'p \<times> 's"
    and shared :: "'s \<Rightarrow> bool"
    and mine :: "'j \<Rightarrow> 'p \<Rightarrow> 's \<Rightarrow> bool"
    and apart :: "'p \<Rightarrow> 'p \<Rightarrow> bool"
  assumes apart_sym: "apart p q \<Longrightarrow> apart q p"
    and step_mine: "shared s \<Longrightarrow> mine j p s \<Longrightarrow> step p s = (p', s') \<Longrightarrow> shared s' \<and> mine j p' s'"
    and step_others: "shared s \<Longrightarrow> mine j p s \<Longrightarrow> step p s = (p', s') \<Longrightarrow> mine k q s \<Longrightarrow> apart p q \<Longrightarrow>
      mine k q s' \<and> apart p' q"
begin

lemma team_step:
  assumes "team_inv shared mine apart jobs c"
  shows "team_inv shared mine apart jobs (interleave step i c)"
proof -
  obtain ps s where c: "c = (ps, s)" by (metis surj_pair)
  show ?thesis
  proof (cases "i < length jobs")
    case False
    with assms show ?thesis by (simp add: c team_inv_def)
  next
    case True
    obtain p s' where st: "step (ps ! i) s = (p, s')" by (metis surj_pair)
    have len: "length ps = length jobs" and sh: "shared s"
      and mine: "\<And>k. k < length jobs \<Longrightarrow> mine (jobs ! k) (ps ! k) s"
      and apart: "\<And>k l. k < length jobs \<Longrightarrow> l < length jobs \<Longrightarrow> k \<noteq> l \<Longrightarrow> apart (ps ! k) (ps ! l)"
      using assms by (auto simp: c team_inv_def)
    note own = step_mine [OF sh mine [OF True] st]
    have other: "mine (jobs ! k) (ps ! k) s' \<and> apart p (ps ! k)" if "k < length jobs" "k \<noteq> i" for k
      using step_others [OF sh mine [OF True] st mine [OF that(1)]] apart [OF True that(1)] that(2) by blast
    have "mine (jobs ! k) (ps[i := p] ! k) s'" if "k < length jobs" for k
      using that own other [OF that] True len by (cases "k = i") simp_all
    moreover have "apart (ps[i := p] ! k) (ps[i := p] ! l)" if "k < length jobs" "l < length jobs" "k \<noteq> l" for k l
      using that other [of k] other [of l] apart [OF that] apart_sym True len
      by (cases "k = i"; cases "l = i") simp_all
    ultimately show ?thesis using own True st len by (simp add: c team_inv_def)
  qed
qed

lemma team_run:
  "team_inv shared mine apart jobs c \<Longrightarrow> team_inv shared mine apart jobs (fold (interleave step) sched c)"
  by (induction sched arbitrary: c) (simp_all add: team_step)

end

section \<open>Whose entry it is\<close>

text \<open>
  Each entry of a log has an owner, a goroutine that is done and whose task the entry fits; no
  goroutine owns two, and each that succeeded owns one.
\<close>

definition owned_by ::
    "('e \<Rightarrow> 'j \<Rightarrow> bool) \<Rightarrow> ('p \<Rightarrow> bool) \<Rightarrow> ('p \<Rightarrow> bool) \<Rightarrow> 'j list \<Rightarrow> 'p list \<Rightarrow> 'e list \<Rightarrow> nat list \<Rightarrow> bool" where
  "owned_by fits over won jobs ps es owners \<longleftrightarrow>
     distinct owners \<and>
     list_all2 (\<lambda>e i. i < length jobs \<and> over (ps ! i) \<and> fits e (jobs ! i)) es owners \<and>
     {i. i < length jobs \<and> won (ps ! i)} \<subseteq> set owners"

lemma owned_kept:
  assumes "owned_by fits over won jobs ps es owners" and "i < length ps" and "over (ps ! i) \<Longrightarrow> p = ps ! i"
  shows "list_all2 (\<lambda>e k. k < length jobs \<and> over (ps[i := p] ! k) \<and> fits e (jobs ! k)) es owners"
proof -
  have "over (ps[i := p] ! k)" if "over (ps ! k)" for k
    using that assms(2,3) by (cases "k = i") auto
  then show ?thesis using assms(1) by (auto simp: owned_by_def elim: list_all2_mono)
qed

lemma owned_same:
  assumes "owned_by fits over won jobs ps es owners" and "i < length ps"
    and "over (ps ! i) \<Longrightarrow> p = ps ! i" and "won p \<Longrightarrow> ps ! i = p"
  shows "owned_by fits over won jobs (ps[i := p]) es owners"
proof -
  have "{k. k < length jobs \<and> won (ps[i := p] ! k)} \<subseteq> {k. k < length jobs \<and> won (ps ! k)}"
    using assms(2,4) by (auto simp: nth_list_update)
  with assms(1) owned_kept [OF assms(1-3)] show ?thesis unfolding owned_by_def by blast
qed

lemma owned_new:
  assumes "owned_by fits over won jobs ps es owners" and "i < length jobs" and "i < length ps"
    and "\<not> over (ps ! i)" and "over p" and "fits e (jobs ! i)"
  shows "owned_by fits over won jobs (ps[i := p]) (e # es) (i # owners)"
proof -
  have "{k. k < length jobs \<and> won (ps[i := p] ! k)} \<subseteq> insert i {k. k < length jobs \<and> won (ps ! k)}"
    using assms(3) by (auto simp: nth_list_update)
  then have "{k. k < length jobs \<and> won (ps[i := p] ! k)} \<subseteq> set (i # owners)"
    using assms(1) by (auto simp: owned_by_def)
  moreover have "i \<notin> set owners"
    using assms(1,4) by (auto simp: owned_by_def list_all2_conv_all_nth in_set_conv_nth)
  ultimately show ?thesis
    using assms owned_kept [OF assms(1,3), of p] by (simp add: owned_by_def)
qed

locale logging_team = team step shared mine apart
  for step :: "'p \<Rightarrow> 's \<Rightarrow> 'p \<times> 's" and shared :: "'s \<Rightarrow> bool"
    and mine :: "'j \<Rightarrow> 'p \<Rightarrow> 's \<Rightarrow> bool" and apart :: "'p \<Rightarrow> 'p \<Rightarrow> bool" +
  fixes log :: "'s \<Rightarrow> 'e list"
    and fits :: "'e \<Rightarrow> 'j \<Rightarrow> bool"
    and over :: "'p \<Rightarrow> bool"
    and won :: "'p \<Rightarrow> bool"
  assumes over_stays: "over p \<Longrightarrow> step p s = (p, s)"
    and step_log: "shared s \<Longrightarrow> mine j p s \<Longrightarrow> step p s = (p', s') \<Longrightarrow>
      log s' = log s \<and> (won p' \<longrightarrow> p = p') \<or>
      (\<exists>e. log s' = e # log s \<and> fits e j \<and> \<not> over p \<and> over p')"
begin

lemma owned_step:
  assumes "team_inv shared mine apart jobs (ps, s)" and "log s = es @ base"
    and "owned_by fits over won jobs ps es owners" and "interleave step i (ps, s) = (ps', s')"
  shows "\<exists>es owners. log s' = es @ base \<and> owned_by fits over won jobs ps' es owners"
proof (cases "i < length jobs")
  case False
  then have "ps' = ps" "s' = s" using assms(1,4) by (simp_all add: team_inv_def)
  with assms(2,3) show ?thesis by blast
next
  case True
  obtain p t where st: "step (ps ! i) s = (p, t)" by (metis surj_pair)
  have i: "i < length ps" and m: "shared s" "mine (jobs ! i) (ps ! i) s"
    using assms(1) True by (simp_all add: team_inv_def)
  have e: "ps' = ps[i := p]" "s' = t" using assms(4) i st by simp_all
  have stay: "over (ps ! i) \<Longrightarrow> p = ps ! i" using over_stays [of "ps ! i" s] st by simp
  from step_log [OF m st] show ?thesis
  proof (elim disjE exE conjE)
    assume "log t = log s" and "won p \<longrightarrow> ps ! i = p"
    with owned_same [OF assms(3) i stay] assms(2) e show ?thesis by metis
  next
    fix x assume "log t = x # log s" "fits x (jobs ! i)" "\<not> over (ps ! i)" "over p"
    with owned_new [OF assms(3) True i] assms(2) e show ?thesis by (metis append_Cons)
  qed
qed

lemma owned_run:
  assumes "team_inv shared mine apart jobs (ps, s)" and "\<And>i. i < length jobs \<Longrightarrow> \<not> over (ps ! i) \<and> \<not> won (ps ! i)"
    and "fold (interleave step) sched (ps, s) = (ps', s')"
  shows "\<exists>es owners. log s' = es @ log s \<and> owned_by fits over won jobs ps' es owners"
proof -
  have "log s = [] @ log s \<and> owned_by fits over won jobs ps [] []"
    using assms(2) by (auto simp: owned_by_def)
  then have "\<exists>es owners. log s = es @ log s \<and> owned_by fits over won jobs ps es owners" by blast
  moreover have "\<exists>es owners. log s = es @ base \<and> owned_by fits over won jobs ps es owners \<Longrightarrow>
      \<exists>es owners. log s' = es @ base \<and> owned_by fits over won jobs ps' es owners" for base
    using assms(1,3)
  proof (induction sched arbitrary: ps s)
    case (Cons k ks)
    obtain ps1 s1 where st: "interleave step k (ps, s) = (ps1, s1)" by (metis surj_pair)
    have "team_inv shared mine apart jobs (ps1, s1)" using team_step [OF Cons.prems(2), of k] st by simp
    moreover have "\<exists>es owners. log s1 = es @ base \<and> owned_by fits over won jobs ps1 es owners"
      using Cons.prems(1) owned_step [OF Cons.prems(2) _ _ st] by blast
    ultimately show ?case using Cons.IH Cons.prems(3) st by simp
  qed simp
  ultimately show ?thesis by blast
qed

end

end
