(* ===== verification/Close_Race.thy ===== *)
theory Close_Race
  imports Display Interleave
begin

text \<open>
  Closing a display while it is in use (\<open>einklib/display_linux.go\<close>).  \<open>Info\<close>, \<open>AcquireFrame\<close>,
  \<open>SetOverlay\<close> and \<open>Close\<close> hold the mutex of the display from beginning to end; \<open>frame.Commit\<close> reads
  \<open>f.display.fd\<close> without it, and its ioctl follows later.  Here the system call of \<open>Close\<close> and the
  assignment after it, and the read and the ioctl of \<open>Commit\<close>, are separate steps, and the rest of
  the process opens and closes other files in between, for which the kernel may use the same numbers
  again.
\<close>

section \<open>Steps\<close>

datatype dev_call =
    DevOpen
  | DevInfo dref
  | DevAcquire dref
  | DevOverlay dref bool
  | DevClose dref
  | DevCommit frame waveform_mode "Region option"
  | OtherOpen string

text \<open>
  Where a goroutine is: inside \<open>Close\<close> (with the mutex and the error of \<open>close(2)\<close>), inside \<open>Commit\<close>
  (with the descriptor it has read), or holding a descriptor of another file, which it will close.
\<close>

datatype dev_pc =
    Begin dev_call
  | InClose dref "nat option"
  | InCommit int frame waveform_mode "Region option"
  | HoldsOther int
  | Ended "unit outcome"

record dev =
  dv_locked :: "dref \<Rightarrow> bool"
  dv_world :: world

definition ended :: "'a outcome \<times> world \<Rightarrow> dev \<Rightarrow> dev_pc \<times> dev" where
  "ended rw s = (Ended (map_outcome (\<lambda>_. ()) (fst rw)), s\<lparr>dv_world := snd rw\<rparr>)"

text \<open>\<open>Commit\<close> after the descriptor was read: the ioctl, and the unmapping when it succeeds.\<close>

definition commit_send ::
    "env \<Rightarrow> int \<Rightarrow> frame \<Rightarrow> waveform_mode \<Rightarrow> Region option \<Rightarrow> world \<Rightarrow> unit outcome \<times> world" where
  "commit_send E fd f m rg w =
     (case ioctl_send E fd (commit_info f m rg) w of
        (Some e, w1) \<Rightarrow> (Err (ErrWrap ''EBC_SEND_BUFFER'' (Errno e)), w1)
      | (None, w1) \<Rightarrow> (Ok (), snd (go_Munmap E (fr_addr f) w1)))"

text \<open>A method that needs the mutex waits while it is held.\<close>

definition locking :: "dref \<Rightarrow> dev_call \<Rightarrow> (world \<Rightarrow> 'a outcome \<times> world) \<Rightarrow> dev \<Rightarrow> dev_pc \<times> dev" where
  "locking d x f s = (if dv_locked s d then (Begin x, s) else ended (f (dv_world s)) s)"

fun dev_step :: "env \<Rightarrow> string \<Rightarrow> dev_pc \<Rightarrow> dev \<Rightarrow> dev_pc \<times> dev" where
  "dev_step E path (Begin DevOpen) s = ended (display_Open E path (dv_world s)) s"
| "dev_step E path (Begin (DevInfo d)) s = locking d (DevInfo d) (display_Info E d) s"
| "dev_step E path (Begin (DevAcquire d)) s = locking d (DevAcquire d) (display_AcquireFrame E d) s"
| "dev_step E path (Begin (DevOverlay d on)) s =
     locking d (DevOverlay d on) (display_SetOverlay E d on) s"
| "dev_step E path (Begin (DevClose d)) s =
     (if dv_locked s d then (Begin (DevClose d), s)
      else if fd_of (dv_world s) d < 0 then (Ended (Ok ()), s)
      else case sys_close E (fd_of (dv_world s) d) (dv_world s) of
        (r, w) \<Rightarrow> (InClose d r, s\<lparr>dv_world := w, dv_locked := (dv_locked s)(d := True)\<rparr>))"
| "dev_step E path (InClose d r) s =
     (Ended (case r of None \<Rightarrow> Ok () | Some e \<Rightarrow> Err (Errno e)),
      s\<lparr>dv_world := (dv_world s)\<lparr>fd_of := (fd_of (dv_world s))(d := -1)\<rparr>,
         dv_locked := (dv_locked s)(d := False)\<rparr>)"
| "dev_step E path (Begin (DevCommit f m rg)) s =
     (if consumed f then (Ended (Err (ErrMsg ''einklib: frame already consumed'')), s)
      else (InCommit (fd_of (dv_world s) (fr_display f)) f m rg, s))"
| "dev_step E path (InCommit fd f m rg) s = ended (commit_send E fd f m rg (dv_world s)) s"
| "dev_step E path (Begin (OtherOpen p)) s =
     (case sys_open E p (dv_world s) of
        (Inl e, w) \<Rightarrow> (Ended (Err (Errno e)), s\<lparr>dv_world := w\<rparr>)
      | (Inr fd, w) \<Rightarrow> (HoldsOther fd, s\<lparr>dv_world := w\<rparr>))"
| "dev_step E path (HoldsOther fd) s =
     (Ended (Ok ()), s\<lparr>dv_world := snd (sys_close E fd (dv_world s))\<rparr>)"
| "dev_step E path (Ended r) s = (Ended r, s)"

definition dev_run :: "env \<Rightarrow> string \<Rightarrow> nat list \<Rightarrow> dev_call list \<Rightarrow> world \<Rightarrow> dev_pc list \<times> dev" where
  "dev_run E path sched calls w =
     fold (interleave (dev_step E path)) sched (map Begin calls, \<lparr>dv_locked = (\<lambda>_. False), dv_world = w\<rparr>)"

section \<open>Undisturbed calls\<close>

text \<open>Alone, \<open>Close\<close> and \<open>Commit\<close> are the functions of the theory \<open>Display\<close>.\<close>

lemma close_alone:
  "\<exists>n. dev_run E path (replicate n 0) [DevClose d] w =
     ([Ended (fst (display_Close E d w))], \<lparr>dv_locked = (\<lambda>_. False), dv_world = snd (display_Close E d w)\<rparr>)"
proof (cases "fd_of w d < 0")
  case True
  then show ?thesis by (intro exI [of _ 1]) (simp add: dev_run_def display_Close_def)
next
  case False
  then show ?thesis
    by (intro exI [of _ 2])
      (simp add: dev_run_def display_Close_def numeral_2_eq_2 fun_upd_idem split: prod.split)
qed

lemma commit_alone:
  "\<exists>n. dev_run E path (replicate n 0) [DevCommit f m rg] w =
     ([Ended (fst (frame_Commit E f m rg w))],
      \<lparr>dv_locked = (\<lambda>_. False), dv_world = snd (snd (frame_Commit E f m rg w))\<rparr>)"
proof (cases "consumed f")
  case True
  then show ?thesis by (intro exI [of _ 1]) (simp add: dev_run_def frame_Commit_def)
next
  case False
  then show ?thesis
    by (intro exI [of _ 2])
      (auto simp: dev_run_def frame_Commit_def commit_send_def ended_def numeral_2_eq_2
        split: prod.split option.split)
qed

section \<open>Which file a descriptor stands for\<close>

fun descr :: "hist \<Rightarrow> int \<Rightarrow> string option" where
  "descr [] = Map.empty"
| "descr (EvOpen p (Inr fd) # h) = (descr h)(fd \<mapsto> p)"
| "descr (EvClose fd r # h) = (descr h)(fd := None)"
| "descr (ev # h) = descr h"

text \<open>The descriptor that a call on the device uses; those of \<open>Commit\<close> only count when \<open>sends\<close> says so.\<close>

fun aimed_at :: "bool \<Rightarrow> event \<Rightarrow> int option" where
  "aimed_at sending (EvGetInfo fd r) = Some fd"
| "aimed_at sending (EvGetBuffer fd r) = Some fd"
| "aimed_at sending (EvMmap fd n r) = Some fd"
| "aimed_at sending (EvOverlay fd on r) = Some fd"
| "aimed_at sending (EvSend fd b bs r) = (if sending \<and> 0 \<le> fd then Some fd else None)"
| "aimed_at sending ev = None"

text \<open>Every such call used a descriptor that stood for the device at that moment.\<close>

fun well_aimed :: "bool \<Rightarrow> string \<Rightarrow> hist \<Rightarrow> bool" where
  "well_aimed sending path [] \<longleftrightarrow> True"
| "well_aimed sending path (ev # h) \<longleftrightarrow>
     (case aimed_at sending ev of None \<Rightarrow> True | Some fd \<Rightarrow> descr h fd = Some path) \<and> well_aimed sending path h"

text \<open>\<open>open(2)\<close> gives a descriptor that is not negative and not in use.\<close>

definition open_fresh :: "env \<Rightarrow> bool" where
  "open_fresh E \<longleftrightarrow> (\<forall>h p fd. e_open E h p = Inr fd \<longrightarrow> 0 \<le> fd \<and> descr h fd = None)"

section \<open>The invariant\<close>

text \<open>The displays: an open one has a descriptor of its own for the device.\<close>

definition dev_ok :: "bool \<Rightarrow> string \<Rightarrow> dev \<Rightarrow> bool" where
  "dev_ok sending path s \<longleftrightarrow>
     (\<forall>d. \<not> dv_locked s d \<and> 0 \<le> fd_of (dv_world s) d \<longrightarrow>
        descr (hist (dv_world s)) (fd_of (dv_world s) d) = Some path) \<and>
     (\<forall>d e. d \<noteq> e \<and> \<not> dv_locked s d \<and> \<not> dv_locked s e \<and> 0 \<le> fd_of (dv_world s) d \<longrightarrow>
        fd_of (dv_world s) d \<noteq> fd_of (dv_world s) e) \<and>
     (\<forall>d \<ge> ndisp (dv_world s). \<not> dv_locked s d \<and> fd_of (dv_world s) d < 0) \<and>
     (sending \<longrightarrow> (\<forall>d. \<not> dv_locked s d)) \<and>
     well_aimed sending path (hist (dv_world s))"

fun pc_fine :: "bool \<Rightarrow> string \<Rightarrow> (int \<Rightarrow> string option) \<Rightarrow> dev_pc \<Rightarrow> bool" where
  "pc_fine sending path dsc (HoldsOther fd) \<longleftrightarrow> dsc fd \<noteq> None \<and> dsc fd \<noteq> Some path"
| "pc_fine sending path dsc (InCommit fd f m rg) \<longleftrightarrow> (sending \<and> 0 \<le> fd \<longrightarrow> dsc fd = Some path)"
| "pc_fine sending path dsc (Begin (OtherOpen p)) \<longleftrightarrow> p \<noteq> path"
| "pc_fine sending path dsc (Begin (DevClose d)) \<longleftrightarrow> \<not> sending"
| "pc_fine sending path dsc (InClose d r) \<longleftrightarrow> \<not> sending"
| "pc_fine sending path dsc p \<longleftrightarrow> True"

fun pc_fds :: "bool \<Rightarrow> dev_pc \<Rightarrow> int set" where
  "pc_fds sending (HoldsOther fd) = {fd}"
| "pc_fds sending (InCommit fd f m rg) = (if sending \<and> 0 \<le> fd then {fd} else {})"
| "pc_fds sending p = {}"

lemma pc_fine_same: "pc_fine sending path dsc p \<Longrightarrow> (\<And>x. x \<in> pc_fds sending p \<Longrightarrow> dsc' x = dsc x) \<Longrightarrow> pc_fine sending path dsc' p"
  by (induction sending path dsc p rule: pc_fine.induct) auto

lemma pc_fds_known: "pc_fine sending path dsc p \<Longrightarrow> x \<in> pc_fds sending p \<Longrightarrow> dsc x \<noteq> None"
  by (induction sending path dsc p rule: pc_fine.induct) (auto split: if_splits)

definition separate :: "dev_pc \<Rightarrow> dev_pc \<Rightarrow> bool" where
  "separate p q \<longleftrightarrow> (\<forall>a b. p = HoldsOther a \<longrightarrow> q = HoldsOther b \<longrightarrow> a \<noteq> b)"

text \<open>What a step must do for the others: change no descriptor they use, and take a new one at most.\<close>

definition step_ok :: "bool \<Rightarrow> string \<Rightarrow> dev_pc \<Rightarrow> dev \<Rightarrow> dev_pc \<times> dev \<Rightarrow> bool" where
  "step_ok sending path p s r \<longleftrightarrow>
     (let dsc = descr (hist (dv_world s)); dsc' = descr (hist (dv_world (snd r)))
      in dev_ok sending path (snd r) \<and> pc_fine sending path dsc' (fst r) \<and>
         (\<forall>q. pc_fine sending path dsc q \<and> separate p q \<longrightarrow> pc_fine sending path dsc' q) \<and>
         (\<forall>a. fst r = HoldsOther a \<longrightarrow> p = fst r \<or> dsc a = None))"

text \<open>A call that neither opens nor closes anything.\<close>

lemma calm_step:
  assumes "dev_ok sending path s" and "descr (hist w) = descr (hist (dv_world s))"
    and "fd_of w = fd_of (dv_world s)" and "ndisp w = ndisp (dv_world s)" and "well_aimed sending path (hist w)"
    and "pc_fine sending path (descr (hist w)) p'" and "\<And>a. p' \<noteq> HoldsOther a"
  shows "step_ok sending path p s (p', s\<lparr>dv_world := w\<rparr>)"
  using assms by (simp add: step_ok_def dev_ok_def Let_def)

lemma stay_step:
  "dev_ok sending path s \<Longrightarrow> pc_fine sending path (descr (hist (dv_world s))) p' \<Longrightarrow> (\<And>a. p' \<noteq> HoldsOther a) \<Longrightarrow>
     step_ok sending path p s (p', s)"
  by (simp add: step_ok_def Let_def)

lemma munmap_calm:
  "descr (hist (snd (go_Munmap E a w))) = descr (hist w)"
  "fd_of (snd (go_Munmap E a w)) = fd_of w" "ndisp (snd (go_Munmap E a w)) = ndisp w"
  "well_aimed sending path (hist (snd (go_Munmap E a w))) = well_aimed sending path (hist w)"
  by (auto simp: go_Munmap_def sys_munmap_def split: option.split)

lemma locked_calls_calm:
  assumes "dev_ok sending path s" and "\<not> dv_locked s d"
  shows "w = snd (display_Info E d (dv_world s)) \<or> w = snd (display_AcquireFrame E d (dv_world s)) \<or>
      w = snd (display_SetOverlay E d on (dv_world s)) \<Longrightarrow>
    descr (hist w) = descr (hist (dv_world s)) \<and> fd_of w = fd_of (dv_world s) \<and>
    ndisp w = ndisp (dv_world s) \<and> well_aimed sending path (hist w)"
  using assms
  by (auto simp: display_Info_def display_AcquireFrame_def display_SetOverlay_def ioctl_get_info_def
      ioctl_get_buffer_def ioctl_overlay_def go_Mmap_def sys_mmap_def dev_ok_def Let_def
      split: sum.split option.split)

lemma locking_ok:
  assumes "dev_ok sending path s" and "pc_fine sending path (descr (hist (dv_world s))) (Begin x)"
    and "\<not> dv_locked s d \<Longrightarrow> descr (hist (snd (f (dv_world s)))) = descr (hist (dv_world s)) \<and>
      fd_of (snd (f (dv_world s))) = fd_of (dv_world s) \<and> ndisp (snd (f (dv_world s))) = ndisp (dv_world s) \<and>
      well_aimed sending path (hist (snd (f (dv_world s))))"
  shows "step_ok sending path p s (locking d x f s)"
  using assms by (auto simp: locking_def ended_def intro!: stay_step calm_step)

lemma open_step:
  assumes "open_fresh E" and "dev_ok sending path s"
  shows "step_ok sending path p s (ended (display_Open E path (dv_world s)) s)"
proof (cases "e_open E (hist (dv_world s)) path")
  case (Inl e)
  with assms(2) show ?thesis
    by (auto simp: display_Open_def sys_open_def ended_def Let_def dev_ok_def intro!: calm_step)
next
  case (Inr fd)
  let ?w = "dv_world s"
  have new: "0 \<le> fd" "descr (hist ?w) fd = None" using assms(1) Inr by (auto simp: open_fresh_def)
  have other: "fd_of ?w d \<noteq> fd" if "\<not> dv_locked s d" for d
    using that new assms(2) unfolding dev_ok_def by (metis option.distinct(1))
  let ?s = "s\<lparr>dv_world := ?w\<lparr>hist := EvOpen path (Inr fd) # hist ?w, fd_of := (fd_of ?w)(ndisp ?w := fd), ndisp := Suc (ndisp ?w)\<rparr>\<rparr>"
  have e: "ended (display_Open E path ?w) s = (Ended (Ok ()), ?s)"
    using Inr by (simp add: display_Open_def sys_open_def ended_def log_ev_def Let_def)
  have "dev_ok sending path ?s"
    using assms(2) new other by (auto simp: dev_ok_def)
  moreover have "pc_fine sending path (descr (hist (dv_world ?s))) q"
    if "pc_fine sending path (descr (hist ?w)) q" for q
    using that by (rule pc_fine_same) (use pc_fds_known [OF that, of fd] new in auto)
  ultimately show ?thesis unfolding e by (simp add: step_ok_def Let_def)
qed

lemma other_open_step:
  assumes "open_fresh E" and "dev_ok sending path s" and "q \<noteq> path"
  shows "step_ok sending path p s (dev_step E path (Begin (OtherOpen q)) s)"
proof (cases "e_open E (hist (dv_world s)) q")
  case (Inl e)
  with assms(2) show ?thesis
    by (auto simp: sys_open_def Let_def dev_ok_def intro!: calm_step)
next
  case (Inr fd)
  let ?w = "dv_world s" and ?s = "s\<lparr>dv_world := log_ev (EvOpen q (Inr fd)) (dv_world s)\<rparr>"
  have new: "descr (hist ?w) fd = None" using assms(1) Inr by (auto simp: open_fresh_def)
  have other: "fd_of ?w d \<noteq> fd" if "\<not> dv_locked s d" "0 \<le> fd_of ?w d" for d
    using that new assms(2) unfolding dev_ok_def by (metis option.distinct(1))
  have "dev_ok sending path ?s" using assms(2) other by (auto simp: dev_ok_def)
  moreover have "pc_fine sending path (descr (hist (dv_world ?s))) r"
    if "pc_fine sending path (descr (hist ?w)) r" for r
    using that by (rule pc_fine_same) (use pc_fds_known [OF that, of fd] new in auto)
  ultimately show ?thesis
    using Inr new assms(3) by (simp add: sys_open_def Let_def step_ok_def)
qed

lemma close_step:
  assumes "dev_ok sending path s" and "\<not> sending" and "\<not> dv_locked s d" and "0 \<le> fd_of (dv_world s) d"
  shows "step_ok sending path p s (InClose d r,
    s\<lparr>dv_world := log_ev (EvClose (fd_of (dv_world s) d) r') (dv_world s), dv_locked := (dv_locked s)(d := True)\<rparr>)"
proof -
  let ?w = "dv_world s"
  let ?s = "s\<lparr>dv_world := log_ev (EvClose (fd_of ?w d) r') ?w, dv_locked := (dv_locked s)(d := True)\<rparr>"
  have d: "descr (hist ?w) (fd_of ?w d) = Some path" "d < ndisp ?w"
    using assms by (auto simp: dev_ok_def) (metis linorder_not_le)
  have "dv_locked s e" if "e \<noteq> d" "fd_of ?w e = fd_of ?w d" for e
    using assms(1,3,4) that unfolding dev_ok_def by metis
  with assms d have "dev_ok sending path ?s" by (auto simp: dev_ok_def)
  moreover have "pc_fine sending path (descr (hist (dv_world ?s))) q"
    if "pc_fine sending path (descr (hist ?w)) q" for q
    using that d assms(2) by (intro pc_fine_same [OF that]) (cases q; auto)
  ultimately show ?thesis using assms(2) by (simp add: step_ok_def Let_def)
qed

lemma in_close_step:
  assumes "dev_ok sending path s" and "\<not> sending"
  shows "step_ok sending path p s (dev_step E path (InClose d r) s)"
  using assms by (auto simp: step_ok_def dev_ok_def Let_def)

lemma other_close_step:
  assumes "dev_ok sending path s" and "pc_fine sending path (descr (hist (dv_world s))) (HoldsOther fd)"
  shows "step_ok sending path (HoldsOther fd) s (dev_step E path (HoldsOther fd) s)"
proof -
  let ?w = "dv_world s" and ?s = "snd (dev_step E path (HoldsOther fd) s)"
  have "fd_of ?w d \<noteq> fd" if "\<not> dv_locked s d" "0 \<le> fd_of ?w d" for d
    using that assms by (auto simp: dev_ok_def)
  with assms have "dev_ok sending path ?s" by (auto simp: dev_ok_def sys_close_def Let_def)
  moreover have "pc_fine sending path (descr (hist (dv_world ?s))) q"
    if "pc_fine sending path (descr (hist ?w)) q" "separate (HoldsOther fd) q" for q
    using that assms(2)
    by (intro pc_fine_same [OF that(1)]) (cases q; auto simp: sys_close_def Let_def separate_def split: if_splits)
  ultimately show ?thesis by (simp add: step_ok_def Let_def)
qed

lemma commit_send_step:
  assumes "dev_ok sending path s" and "pc_fine sending path (descr (hist (dv_world s))) (InCommit fd f m rg)"
  shows "step_ok sending path p s (dev_step E path (InCommit fd f m rg) s)"
proof -
  let ?w = "snd (commit_send E fd f m rg (dv_world s))"
  have "descr (hist ?w) = descr (hist (dv_world s)) \<and> fd_of ?w = fd_of (dv_world s) \<and>
      ndisp ?w = ndisp (dv_world s) \<and> well_aimed sending path (hist ?w)"
    using assms by (auto simp: commit_send_def ioctl_send_def munmap_calm dev_ok_def Let_def split: option.split)
  with assms(1) show ?thesis by (auto simp: ended_def intro!: calm_step)
qed

lemma dev_step_ok:
  assumes "open_fresh E" and "dev_ok sending path s" and "pc_fine sending path (descr (hist (dv_world s))) p"
  shows "step_ok sending path p s (dev_step E path p s)"
proof (cases p)
  case (Begin x)
  note calm = locked_calls_calm [OF assms(2)]
  show ?thesis
  proof (cases x)
    case DevOpen
    with Begin open_step [OF assms(1,2)] show ?thesis by simp
  next
    case (DevInfo d)
    with Begin calm [where d = d] assms(2) show ?thesis by (auto intro!: locking_ok)
  next
    case (DevAcquire d)
    with Begin calm [where d = d] assms(2) show ?thesis by (auto intro!: locking_ok)
  next
    case (DevOverlay d on)
    with Begin calm [where d = d and on = on] assms(2) show ?thesis by (auto intro!: locking_ok)
  next
    case (DevClose d)
    with Begin assms(2,3) close_step [OF assms(2), of d] show ?thesis
      by (auto simp: sys_close_def Let_def intro!: stay_step)
  next
    case (DevCommit f m rg)
    with Begin assms(2,3) show ?thesis by (auto simp: dev_ok_def intro!: stay_step)
  next
    case (OtherOpen q)
    with Begin assms(3) other_open_step [OF assms(1,2), of q] show ?thesis by simp
  qed
next
  case (InClose d r)
  with assms(3) in_close_step [OF assms(2)] show ?thesis by simp
next
  case (InCommit fd f m rg)
  with commit_send_step [OF assms(2)] assms(3) show ?thesis by blast
next
  case (HoldsOther fd)
  with other_close_step [OF assms(2)] assms(3) show ?thesis by blast
next
  case (Ended r)
  with assms(2) show ?thesis by (auto intro!: stay_step)
qed

interpretation devices: team "dev_step E path" "\<lambda>s. open_fresh E \<and> dev_ok sending path s"
  "\<lambda>x p s. pc_fine sending path (descr (hist (dv_world s))) p" separate
  for E path sending
proof unfold_locales
  show "separate q p" if "separate p q" for p q using that by (auto simp: separate_def)
  fix s p p' s' and x :: dev_call
  assume s: "open_fresh E \<and> dev_ok sending path s" and p: "pc_fine sending path (descr (hist (dv_world s))) p"
    and "dev_step E path p s = (p', s')"
  then have r: "step_ok sending path p s (p', s')" using dev_step_ok [of E sending path s p] by simp
  with s show "(open_fresh E \<and> dev_ok sending path s') \<and> pc_fine sending path (descr (hist (dv_world s'))) p'"
    by (simp add: step_ok_def Let_def)
  show "pc_fine sending path (descr (hist (dv_world s'))) q \<and> separate p' q"
    if q: "pc_fine sending path (descr (hist (dv_world s))) q" "separate p q" for q
  proof -
    have "a \<noteq> b" if "p' = HoldsOther a" "q = HoldsOther b" for a b
      using that r q by (auto simp: step_ok_def separate_def Let_def)
    with r q show ?thesis by (auto simp: step_ok_def separate_def Let_def)
  qed
qed

section \<open>Nobody waits for ever\<close>

text \<open>A bound on the steps a goroutine still makes, waiting aside.\<close>

fun dev_todo :: "dev_pc \<Rightarrow> nat" where
  "dev_todo (Begin x) = 2"
| "dev_todo (Ended r) = 0"
| "dev_todo _ = 1"

fun is_ended :: "dev_pc \<Rightarrow> bool" where
  "is_ended (Ended r) = True"
| "is_ended _ = False"

text \<open>The mutex of a display is held by a goroutine that is inside \<open>Close\<close>.\<close>

definition held_by_close :: "dev_pc list \<times> dev \<Rightarrow> bool" where
  "held_by_close c \<longleftrightarrow>
     (\<forall>d. dv_locked (snd c) d \<longrightarrow> (\<exists>i < length (fst c). \<exists>r. fst c ! i = InClose d r))"

lemma dev_todo_0: "dev_todo p = 0 \<longleftrightarrow> is_ended p"
  by (cases p) simp_all

lemma waits_for: "dev_todo (fst (dev_step E path p s)) < dev_todo p \<or> is_ended p \<or> (\<exists>d. dv_locked s d)"
proof (cases p)
  case (Begin x)
  then show ?thesis by (cases x) (auto simp: locking_def ended_def split: prod.split sum.split)
qed (auto simp: ended_def split: prod.split)

lemma lock_changes:
  assumes "dev_step E path p s = (p', s')" and "dv_locked s' d"
  shows "(\<exists>r. p' = InClose d r) \<or> dv_locked s d \<and> (\<forall>r. p \<noteq> InClose d r)"
proof (cases p)
  case (Begin x)
  with assms show ?thesis
    by (cases x) (auto simp: locking_def ended_def split: prod.splits sum.splits if_splits)
qed (use assms in \<open>auto simp: ended_def split: if_splits\<close>)

interpretation devices: live "dev_step E path" dev_todo held_by_close for E path
proof unfold_locales
  show "held_by_close (interleave (dev_step E path) i c)" if inv: "held_by_close c" for i c
  proof -
    obtain ps s where c: "c = (ps, s)" by (metis surj_pair)
    obtain p' s' where st: "dev_step E path (ps ! i) s = (p', s')" by (metis surj_pair)
    have "\<exists>k < length ps. \<exists>r. ps[i := p'] ! k = InClose d r" if i: "i < length ps" and "dv_locked s' d" for d
      using lock_changes [OF st that(2)]
    proof (elim disjE conjE)
      assume "\<exists>r. p' = InClose d r"
      with i show ?thesis by (intro exI [of _ i]) simp
    next
      assume "dv_locked s d" and other: "\<forall>r. ps ! i \<noteq> InClose d r"
      then obtain k r where "k < length ps" "ps ! k = InClose d r" using inv by (auto simp: c held_by_close_def)
      moreover from this other have "k \<noteq> i" by blast
      ultimately show ?thesis by (intro exI [of _ k]) simp
    qed
    with inv st show ?thesis by (auto simp: c held_by_close_def)
  qed
  show "\<exists>i < length ps. dev_todo (fst (dev_step E path (ps ! i) s)) < dev_todo (ps ! i)"
    if inv: "held_by_close (ps, s)" and p: "p \<in> set ps" "0 < dev_todo p" for ps s p
  proof (cases "\<exists>d. dv_locked s d")
    case True
    then obtain i d r where "i < length ps" "ps ! i = InClose d r" using inv by (auto simp: held_by_close_def)
    then show ?thesis by (intro exI [of _ i]) simp
  next
    case False
    obtain i where "i < length ps" "ps ! i = p" using p(1) by (auto simp: in_set_conv_nth)
    moreover have "\<not> is_ended p" using p(2) dev_todo_0 [of p] by simp
    ultimately show ?thesis using waits_for [of E path p s] False by blast
  qed
qed

section \<open>Properties\<close>

fun is_close :: "dev_call \<Rightarrow> bool" where
  "is_close (DevClose d) = True"
| "is_close _ = False"

lemma fine_begin: "x \<noteq> OtherOpen path \<Longrightarrow> (is_close x \<Longrightarrow> \<not> sending) \<Longrightarrow> pc_fine sending path dsc (Begin x)"
  by (cases x) auto

text \<open>
  C15. The mutex of the display protects its descriptor.  Whatever calls on displays of the device
  interleave with other files being opened and closed, \<open>Info\<close>, \<open>AcquireFrame\<close> and \<open>SetOverlay\<close> only
  ever talk to a descriptor that stands for the device at that moment, although the kernel uses
  numbers again; and as long as nobody calls \<open>Close\<close>, so does \<open>Commit\<close>.
\<close>

theorem mutex_protects_descriptor:
  assumes "open_fresh E" and "list_all (\<lambda>x. x \<noteq> OtherOpen path) calls"
  shows "well_aimed (list_all (\<lambda>x. \<not> is_close x) calls) path
    (hist (dv_world (snd (dev_run E path sched calls empty_world))))"
proof -
  let ?sending = "list_all (\<lambda>x. \<not> is_close x) calls"
  let ?s = "\<lparr>dv_locked = (\<lambda>_. False), dv_world = empty_world\<rparr>"
  have "pc_fine ?sending path dsc (Begin x)" if "x \<in> set calls" for x dsc
    using that assms(2) by (intro fine_begin) (auto simp: list_all_iff)
  then have "team_inv (\<lambda>s. open_fresh E \<and> dev_ok ?sending path s)
      (\<lambda>x p s. pc_fine ?sending path (descr (hist (dv_world s))) p) separate calls (map Begin calls, ?s)"
    using assms(1) by (auto simp: team_inv_def dev_ok_def empty_world_def separate_def)
  from devices.team_run [OF this, of sched] show ?thesis
    unfolding dev_run_def team_inv_def case_prod_beta dev_ok_def by blast
qed


text \<open>A process with two free descriptors, used in order.\<close>

definition low_env :: env where
  "low_env = demo_env\<lparr>e_open := (\<lambda>h p. if descr h 3 = None then Inr 3 else if descr h 4 = None then Inr 4 else Inl 24)\<rparr>"

lemma low_fresh: "open_fresh low_env"
  by (auto simp: open_fresh_def low_env_def split: if_splits)

lemma mutex_protects_descriptor_witness:
  "well_aimed True DefaultDevice (hist (dv_world (snd (dev_run low_env DefaultDevice [0, 1, 2, 3, 2, 1]
     [DevOpen, DevCommit demo_frame WaveformFull None, OtherOpen ''cert.pem'', DevOverlay 0 True] empty_world))))"
  using mutex_protects_descriptor [OF low_fresh, of DefaultDevice
      "[DevOpen, DevCommit demo_frame WaveformFull None, OtherOpen ''cert.pem'', DevOverlay 0 True]"]
  by (simp add: DefaultDevice_def)


end
