(* ===== verification/Proto.thy ===== *)
theory Proto
  imports Waveform
begin

text \<open>
  The messages of \<open>einkproto/display.pb.go\<close>: the enum \<open>WaveformMode\<close> with its two name tables, one
  record per message, and the nil-safe getters (a nil message is \<open>None\<close>).  An enum is an \<open>int32\<close>,
  since proto3 enums are open; a 64-bit field is an \<open>int\<close>.  The wire format and the reflection
  support belong to the protobuf runtime and are not modelled.
\<close>

section \<open>The enum\<close>

type_synonym pb_mode = i32

definition WAVEFORM_MODE_UNSPECIFIED :: pb_mode where "WAVEFORM_MODE_UNSPECIFIED = 0"
definition WAVEFORM_MODE_INIT :: pb_mode where "WAVEFORM_MODE_INIT = 1"
definition WAVEFORM_MODE_DIRECT_UPDATE :: pb_mode where "WAVEFORM_MODE_DIRECT_UPDATE = 2"
definition WAVEFORM_MODE_GC16 :: pb_mode where "WAVEFORM_MODE_GC16 = 3"
definition WAVEFORM_MODE_GCC16 :: pb_mode where "WAVEFORM_MODE_GCC16 = 4"
definition WAVEFORM_MODE_ANIMATION :: pb_mode where "WAVEFORM_MODE_ANIMATION = 5"
definition WAVEFORM_MODE_PARTIAL :: pb_mode where "WAVEFORM_MODE_PARTIAL = 6"
definition WAVEFORM_MODE_FULL :: pb_mode where "WAVEFORM_MODE_FULL = 7"
definition WAVEFORM_MODE_AUTO :: pb_mode where "WAVEFORM_MODE_AUTO = 8"
definition WAVEFORM_MODE_RESET :: pb_mode where "WAVEFORM_MODE_RESET = 9"
definition WAVEFORM_MODE_BLACK_WHITE :: pb_mode where "WAVEFORM_MODE_BLACK_WHITE = 10"
definition WAVEFORM_MODE_TRANSPARENT :: pb_mode where "WAVEFORM_MODE_TRANSPARENT = 11"
definition WAVEFORM_MODE_REGAL :: pb_mode where "WAVEFORM_MODE_REGAL = 12"
definition WAVEFORM_MODE_SPECTRA_FULL_GC16 :: pb_mode where "WAVEFORM_MODE_SPECTRA_FULL_GC16 = 13"
definition WAVEFORM_MODE_SPECTRA_GLARE_REDUCED :: pb_mode where "WAVEFORM_MODE_SPECTRA_GLARE_REDUCED = 14"
definition WAVEFORM_MODE_SPECTRA_GHOST_REDUCED :: pb_mode where "WAVEFORM_MODE_SPECTRA_GHOST_REDUCED = 15"
definition WAVEFORM_MODE_SPECTRA_FULL_GCC16 :: pb_mode where "WAVEFORM_MODE_SPECTRA_FULL_GCC16 = 16"

lemmas pb_mode_consts =
  WAVEFORM_MODE_UNSPECIFIED_def
  WAVEFORM_MODE_INIT_def
  WAVEFORM_MODE_DIRECT_UPDATE_def
  WAVEFORM_MODE_GC16_def
  WAVEFORM_MODE_GCC16_def
  WAVEFORM_MODE_ANIMATION_def
  WAVEFORM_MODE_PARTIAL_def
  WAVEFORM_MODE_FULL_def
  WAVEFORM_MODE_AUTO_def
  WAVEFORM_MODE_RESET_def
  WAVEFORM_MODE_BLACK_WHITE_def
  WAVEFORM_MODE_TRANSPARENT_def
  WAVEFORM_MODE_REGAL_def
  WAVEFORM_MODE_SPECTRA_FULL_GC16_def
  WAVEFORM_MODE_SPECTRA_GLARE_REDUCED_def
  WAVEFORM_MODE_SPECTRA_GHOST_REDUCED_def
  WAVEFORM_MODE_SPECTRA_FULL_GCC16_def

text \<open>The two tables, in the order of the source.\<close>

definition WaveformMode_name :: "(pb_mode \<times> string) list" where
  "WaveformMode_name =
    [(0, ''WAVEFORM_MODE_UNSPECIFIED''),
     (1, ''WAVEFORM_MODE_INIT''),
     (2, ''WAVEFORM_MODE_DIRECT_UPDATE''),
     (3, ''WAVEFORM_MODE_GC16''),
     (4, ''WAVEFORM_MODE_GCC16''),
     (5, ''WAVEFORM_MODE_ANIMATION''),
     (6, ''WAVEFORM_MODE_PARTIAL''),
     (7, ''WAVEFORM_MODE_FULL''),
     (8, ''WAVEFORM_MODE_AUTO''),
     (9, ''WAVEFORM_MODE_RESET''),
     (10, ''WAVEFORM_MODE_BLACK_WHITE''),
     (11, ''WAVEFORM_MODE_TRANSPARENT''),
     (12, ''WAVEFORM_MODE_REGAL''),
     (13, ''WAVEFORM_MODE_SPECTRA_FULL_GC16''),
     (14, ''WAVEFORM_MODE_SPECTRA_GLARE_REDUCED''),
     (15, ''WAVEFORM_MODE_SPECTRA_GHOST_REDUCED''),
     (16, ''WAVEFORM_MODE_SPECTRA_FULL_GCC16'')]"

definition WaveformMode_value :: "(string \<times> pb_mode) list" where
  "WaveformMode_value =
    [(''WAVEFORM_MODE_UNSPECIFIED'', 0),
     (''WAVEFORM_MODE_INIT'', 1),
     (''WAVEFORM_MODE_DIRECT_UPDATE'', 2),
     (''WAVEFORM_MODE_GC16'', 3),
     (''WAVEFORM_MODE_GCC16'', 4),
     (''WAVEFORM_MODE_ANIMATION'', 5),
     (''WAVEFORM_MODE_PARTIAL'', 6),
     (''WAVEFORM_MODE_FULL'', 7),
     (''WAVEFORM_MODE_AUTO'', 8),
     (''WAVEFORM_MODE_RESET'', 9),
     (''WAVEFORM_MODE_BLACK_WHITE'', 10),
     (''WAVEFORM_MODE_TRANSPARENT'', 11),
     (''WAVEFORM_MODE_REGAL'', 12),
     (''WAVEFORM_MODE_SPECTRA_FULL_GC16'', 13),
     (''WAVEFORM_MODE_SPECTRA_GLARE_REDUCED'', 14),
     (''WAVEFORM_MODE_SPECTRA_GHOST_REDUCED'', 15),
     (''WAVEFORM_MODE_SPECTRA_FULL_GCC16'', 16)]"

section \<open>Messages\<close>

record pb_DisplayInfo =
  pdi_Width :: "i32"
  pdi_Height :: "i32"
  pdi_VirtualWidth :: "i32"
  pdi_VirtualHeight :: "i32"
  pdi_Color :: "bool"
  pdi_AppVersion :: "string"

record pb_Region =
  prg_X1 :: "i32"
  prg_Y1 :: "i32"
  prg_X2 :: "i32"
  prg_Y2 :: "i32"

record pb_RefreshHeader =
  prh_Mode :: "pb_mode"
  prh_Region :: "pb_Region option"
  prh_TotalBytes :: "int"

text \<open>The \<open>oneof payload\<close>; both wrapper structs may hold nothing.\<close>

datatype pb_payload =
    RefreshChunk_Header "pb_RefreshHeader option"
  | RefreshChunk_Data "byte list"

record pb_RefreshChunk =
  pck_Payload :: "pb_payload option"

record pb_RefreshResponse =
  prr_ElapsedMs :: "int"

record pb_FillRequest =
  pfr_Argb :: "u32"
  pfr_Mode :: "pb_mode"

record pb_SetOverlayRequest =
  pso_Enabled :: "bool"

record pb_HealthResponse =
  phr_DeviceOpen :: "bool"
  phr_LastError :: "string"
  phr_ServerVersion :: "string"
  phr_UptimeSeconds :: "int"

record pb_RotateResponse =
  pro_ScheduledAtMs :: "int"

record pb_GetMetricsResponse =
  pgm_PromText :: "string"

record pb_ReissueClientCertResponse =
  prc_ClientCertPem :: "string"
  prc_ClientKeyPem :: "string"
  prc_ClientCertFingerprint :: "string"
  prc_ServerRestartInMs :: "int"

section \<open>Getters\<close>

text \<open>\<open>if x != nil { return x.F }; return zero\<close>.\<close>

definition nil_get :: "('m \<Rightarrow> 'a) \<Rightarrow> 'a \<Rightarrow> 'm option \<Rightarrow> 'a" where
  "nil_get field zero x = (case x of None \<Rightarrow> zero | Some m \<Rightarrow> field m)"

lemma nil_get_simps [simp]:
  "nil_get field zero None = zero" "nil_get field zero (Some m) = field m"
  by (simp_all add: nil_get_def)

definition DisplayInfo_GetWidth :: "pb_DisplayInfo option \<Rightarrow> i32" where
  "DisplayInfo_GetWidth x = nil_get pdi_Width 0 x"
definition DisplayInfo_GetHeight :: "pb_DisplayInfo option \<Rightarrow> i32" where
  "DisplayInfo_GetHeight x = nil_get pdi_Height 0 x"
definition DisplayInfo_GetVirtualWidth :: "pb_DisplayInfo option \<Rightarrow> i32" where
  "DisplayInfo_GetVirtualWidth x = nil_get pdi_VirtualWidth 0 x"
definition DisplayInfo_GetVirtualHeight :: "pb_DisplayInfo option \<Rightarrow> i32" where
  "DisplayInfo_GetVirtualHeight x = nil_get pdi_VirtualHeight 0 x"
definition DisplayInfo_GetColor :: "pb_DisplayInfo option \<Rightarrow> bool" where
  "DisplayInfo_GetColor x = nil_get pdi_Color False x"
definition DisplayInfo_GetAppVersion :: "pb_DisplayInfo option \<Rightarrow> string" where
  "DisplayInfo_GetAppVersion x = nil_get pdi_AppVersion [] x"

definition Region_GetX1 :: "pb_Region option \<Rightarrow> i32" where
  "Region_GetX1 x = nil_get prg_X1 0 x"
definition Region_GetY1 :: "pb_Region option \<Rightarrow> i32" where
  "Region_GetY1 x = nil_get prg_Y1 0 x"
definition Region_GetX2 :: "pb_Region option \<Rightarrow> i32" where
  "Region_GetX2 x = nil_get prg_X2 0 x"
definition Region_GetY2 :: "pb_Region option \<Rightarrow> i32" where
  "Region_GetY2 x = nil_get prg_Y2 0 x"

definition RefreshHeader_GetMode :: "pb_RefreshHeader option \<Rightarrow> pb_mode" where
  "RefreshHeader_GetMode x = nil_get prh_Mode WAVEFORM_MODE_UNSPECIFIED x"
definition RefreshHeader_GetRegion :: "pb_RefreshHeader option \<Rightarrow> pb_Region option" where
  "RefreshHeader_GetRegion x = nil_get prh_Region None x"
definition RefreshHeader_GetTotalBytes :: "pb_RefreshHeader option \<Rightarrow> int" where
  "RefreshHeader_GetTotalBytes x = nil_get prh_TotalBytes 0 x"

definition RefreshChunk_GetPayload :: "pb_RefreshChunk option \<Rightarrow> pb_payload option" where
  "RefreshChunk_GetPayload x = nil_get pck_Payload None x"

definition RefreshChunk_GetHeader :: "pb_RefreshChunk option \<Rightarrow> pb_RefreshHeader option" where
  "RefreshChunk_GetHeader x =
     (case x of
        None \<Rightarrow> None
      | Some c \<Rightarrow> (case pck_Payload c of Some (RefreshChunk_Header h) \<Rightarrow> h | _ \<Rightarrow> None))"

definition RefreshChunk_GetData :: "pb_RefreshChunk option \<Rightarrow> byte list" where
  "RefreshChunk_GetData x =
     (case x of
        None \<Rightarrow> []
      | Some c \<Rightarrow> (case pck_Payload c of Some (RefreshChunk_Data d) \<Rightarrow> d | _ \<Rightarrow> []))"

definition RefreshResponse_GetElapsedMs :: "pb_RefreshResponse option \<Rightarrow> int" where
  "RefreshResponse_GetElapsedMs x = nil_get prr_ElapsedMs 0 x"

definition FillRequest_GetArgb :: "pb_FillRequest option \<Rightarrow> u32" where
  "FillRequest_GetArgb x = nil_get pfr_Argb 0 x"
definition FillRequest_GetMode :: "pb_FillRequest option \<Rightarrow> pb_mode" where
  "FillRequest_GetMode x = nil_get pfr_Mode WAVEFORM_MODE_UNSPECIFIED x"

definition SetOverlayRequest_GetEnabled :: "pb_SetOverlayRequest option \<Rightarrow> bool" where
  "SetOverlayRequest_GetEnabled x = nil_get pso_Enabled False x"

definition HealthResponse_GetDeviceOpen :: "pb_HealthResponse option \<Rightarrow> bool" where
  "HealthResponse_GetDeviceOpen x = nil_get phr_DeviceOpen False x"
definition HealthResponse_GetLastError :: "pb_HealthResponse option \<Rightarrow> string" where
  "HealthResponse_GetLastError x = nil_get phr_LastError [] x"
definition HealthResponse_GetServerVersion :: "pb_HealthResponse option \<Rightarrow> string" where
  "HealthResponse_GetServerVersion x = nil_get phr_ServerVersion [] x"
definition HealthResponse_GetUptimeSeconds :: "pb_HealthResponse option \<Rightarrow> int" where
  "HealthResponse_GetUptimeSeconds x = nil_get phr_UptimeSeconds 0 x"

definition RotateResponse_GetScheduledAtMs :: "pb_RotateResponse option \<Rightarrow> int" where
  "RotateResponse_GetScheduledAtMs x = nil_get pro_ScheduledAtMs 0 x"

definition GetMetricsResponse_GetPromText :: "pb_GetMetricsResponse option \<Rightarrow> string" where
  "GetMetricsResponse_GetPromText x = nil_get pgm_PromText [] x"

definition ReissueClientCertResponse_GetClientCertPem :: "pb_ReissueClientCertResponse option \<Rightarrow> string" where
  "ReissueClientCertResponse_GetClientCertPem x = nil_get prc_ClientCertPem [] x"
definition ReissueClientCertResponse_GetClientKeyPem :: "pb_ReissueClientCertResponse option \<Rightarrow> string" where
  "ReissueClientCertResponse_GetClientKeyPem x = nil_get prc_ClientKeyPem [] x"
definition ReissueClientCertResponse_GetClientCertFingerprint :: "pb_ReissueClientCertResponse option \<Rightarrow> string" where
  "ReissueClientCertResponse_GetClientCertFingerprint x = nil_get prc_ClientCertFingerprint [] x"
definition ReissueClientCertResponse_GetServerRestartInMs :: "pb_ReissueClientCertResponse option \<Rightarrow> int" where
  "ReissueClientCertResponse_GetServerRestartInMs x = nil_get prc_ServerRestartInMs 0 x"

lemmas getter_defs =
  DisplayInfo_GetWidth_def
  DisplayInfo_GetHeight_def
  DisplayInfo_GetVirtualWidth_def
  DisplayInfo_GetVirtualHeight_def
  DisplayInfo_GetColor_def
  DisplayInfo_GetAppVersion_def
  Region_GetX1_def
  Region_GetY1_def
  Region_GetX2_def
  Region_GetY2_def
  RefreshHeader_GetMode_def
  RefreshHeader_GetRegion_def
  RefreshHeader_GetTotalBytes_def
  RefreshResponse_GetElapsedMs_def
  FillRequest_GetArgb_def
  FillRequest_GetMode_def
  SetOverlayRequest_GetEnabled_def
  HealthResponse_GetDeviceOpen_def
  HealthResponse_GetLastError_def
  HealthResponse_GetServerVersion_def
  HealthResponse_GetUptimeSeconds_def
  RotateResponse_GetScheduledAtMs_def
  GetMetricsResponse_GetPromText_def
  ReissueClientCertResponse_GetClientCertPem_def
  ReissueClientCertResponse_GetClientKeyPem_def
  ReissueClientCertResponse_GetClientCertFingerprint_def
  ReissueClientCertResponse_GetServerRestartInMs_def

section \<open>The tables as a codec\<close>

definition pb_known :: "pb_mode \<Rightarrow> bool" where
  "pb_known m \<longleftrightarrow> m \<in> fst ` set WaveformMode_name"

definition pb_name :: "pb_mode \<Rightarrow> string" where
  "pb_name m = (case map_of WaveformMode_name m of None \<Rightarrow> [] | Some s \<Rightarrow> s)"

definition pb_value :: "string \<Rightarrow> pb_mode option" where
  "pb_value s = map_of WaveformMode_value s"

lemma tables_mirror: "WaveformMode_value = map (\<lambda>(m, s). (s, m)) WaveformMode_name"
  by (simp add: WaveformMode_value_def WaveformMode_name_def)

lemma distinct_numbers: "distinct (map fst WaveformMode_name)"
  by (simp add: WaveformMode_name_def)

lemma distinct_names: "distinct (map snd WaveformMode_name)"
  by (simp add: WaveformMode_name_def)

lemma distinct_value_keys: "distinct (map fst WaveformMode_value)"
  using distinct_names by (simp add: tables_mirror case_prod_beta' comp_def)

lemma pb_known_iff: "pb_known m \<longleftrightarrow> (\<exists>s. map_of WaveformMode_name m = Some s)"
  by (metis not_None_eq map_of_eq_None_iff pb_known_def)

lemma pb_value_iff: "pb_value s = Some m \<longleftrightarrow> map_of WaveformMode_name m = Some s"
  unfolding pb_value_def map_of_eq_Some_iff [OF distinct_value_keys]
    map_of_eq_Some_iff [OF distinct_numbers]
  by (auto simp: tables_mirror)

interpretation pb_names: name_codec pb_known pb_name pb_value "\<lambda>s. s"
  by unfold_locales (auto simp: pb_known_iff pb_name_def pb_value_iff)

section \<open>Properties\<close>

text \<open>
  The generated tables \<open>WaveformMode_name\<close> and \<open>WaveformMode_value\<close> are inverse to each other:
  a name has value \<open>m\<close> exactly when \<open>m\<close> is one of the seventeen known numbers and has that name.
\<close>

lemma enum_tables_inverse:
  "map_of WaveformMode_value s = Some m \<longleftrightarrow>
     (m \<in> fst ` set WaveformMode_name \<and> pb_name m = s)"
  using pb_names.dec_iff [of s m] by (simp add: pb_value_def pb_known_def)

end
