(* ===== verification/Grpc_Runtime.thy ===== *)
theory Grpc_Runtime
  imports World Proto
begin

text \<open>
  What the program uses of the gRPC runtime's data: the incoming context with its metadata, the
  server side of a client stream, the loosely typed messages that the generated handlers pass
  around, and handlers, which act on the state of the server and answer.
\<close>

section \<open>Contexts\<close>

text \<open>
  \<open>metadata.FromIncomingContext\<close> gives \<open>None\<close> for a context without metadata; \<open>MD.Get\<close> gives the
  list of the values of a key, empty when there is none.
\<close>

type_synonym metadata = "string \<Rightarrow> string list"

record context_t =
  ctx_incoming :: "metadata option"

definition FromIncomingContext :: "context_t \<Rightarrow> metadata option" where
  "FromIncomingContext ctx = ctx_incoming ctx"

definition md_Get :: "metadata \<Rightarrow> string \<Rightarrow> string list" where
  "md_Get md k = md k"

section \<open>Streams\<close>

text \<open>
  The server side of \<open>Refresh\<close>: the chunks that will arrive, the error that every later \<open>Recv\<close>
  returns (\<open>io.EOF\<close> when the client half-closes), and what \<open>SendAndClose\<close> will return.
\<close>

record refresh_stream =
  ss_context :: context_t
  ss_chunks :: "pb_RefreshChunk list"
  ss_end :: go_error
  ss_send :: "go_error option"

definition stream_Recv :: "refresh_stream \<Rightarrow> (go_error + pb_RefreshChunk) \<times> refresh_stream" where
  "stream_Recv ss =
     (case ss_chunks ss of
        [] \<Rightarrow> (Inl (ss_end ss), ss)
      | c # cs \<Rightarrow> (Inr c, ss\<lparr>ss_chunks := cs\<rparr>))"

section \<open>Messages and handlers\<close>

text \<open>The values of type \<open>interface{}\<close> that cross the generated handlers.\<close>

datatype msg =
    MEmpty
  | MDisplayInfo pb_DisplayInfo
  | MFillRequest pb_FillRequest
  | MRefreshResponse pb_RefreshResponse
  | MSetOverlayRequest pb_SetOverlayRequest
  | MHealthResponse pb_HealthResponse
  | MRotateResponse pb_RotateResponse
  | MReissueClientCertResponse pb_ReissueClientCertResponse
  | MGetMetricsResponse pb_GetMetricsResponse

type_synonym 's unary_handler = "context_t \<Rightarrow> msg \<Rightarrow> 's \<Rightarrow> msg outcome \<times> 's"
type_synonym 's stream_handler = "refresh_stream \<Rightarrow> 's \<Rightarrow> pb_RefreshResponse outcome \<times> 's"

end
