(* ===== verification/Encoding.thy ===== *)
theory Encoding
  imports Name_Codec
begin

text \<open>
  The two encodings of bytes the credential code uses: \<open>base64.RawURLEncoding\<close> for the bearer tokens
  and the upper-case hexadecimal bytes of a fingerprint.
\<close>

section \<open>Bytes of a string\<close>

definition byte_of :: "char \<Rightarrow> byte" where
  "byte_of c = of_char c"

lemma unat_byte_of: "unat (byte_of c) = of_char c"
proof -
  have "(of_char c :: byte) = of_nat (of_char c)" by (simp only: of_nat_of_char)
  moreover have "(of_char c :: nat) < 256" by simp
  ultimately show ?thesis by (simp add: byte_of_def unsigned_of_nat take_bit_nat_eq_self)
qed

lemma byte_of_inj: "byte_of x = byte_of y \<longleftrightarrow> x = y"
proof
  assume "byte_of x = byte_of y"
  then have "unat (byte_of x) = unat (byte_of y)" by simp
  then show "x = y" unfolding unat_byte_of by simp
qed simp

section \<open>base64, URL alphabet, no padding\<close>

definition b64_alphabet :: string where
  "b64_alphabet = ''ABCDEFGHIJKLMNOPQRSTUVWXYZabcdefghijklmnopqrstuvwxyz0123456789-_''"

definition b64_char :: "nat \<Rightarrow> char" where
  "b64_char n = b64_alphabet ! (n mod 64)"

fun b64_encode :: "byte list \<Rightarrow> string" where
  "b64_encode [] = []"
| "b64_encode [a] =
     (let v = unat a * 65536 in [b64_char (v div 262144), b64_char (v div 4096)])"
| "b64_encode [a, b] =
     (let v = unat a * 65536 + unat b * 256
      in [b64_char (v div 262144), b64_char (v div 4096), b64_char (v div 64)])"
| "b64_encode (a # b # c # rest) =
     (let v = unat a * 65536 + unat b * 256 + unat c
      in b64_char (v div 262144) # b64_char (v div 4096) # b64_char (v div 64) # b64_char v
           # b64_encode rest)"

lemma b64_alphabet_distinct: "distinct b64_alphabet"
  by (simp add: b64_alphabet_def)

lemma b64_alphabet_length: "length b64_alphabet = 64"
  by (simp add: b64_alphabet_def)

lemma b64_alphabet_visible: "list_all visible b64_alphabet"
  by (simp add: b64_alphabet_def visible_def)

lemma b64_char_all: "list_all P b64_alphabet \<Longrightarrow> P (b64_char n)"
  by (simp add: b64_char_def list_all_length b64_alphabet_length)

lemma b64_char_inj: "b64_char m = b64_char n \<longleftrightarrow> m mod 64 = n mod 64"
  by (simp add: b64_char_def nth_eq_iff_index_eq b64_alphabet_distinct b64_alphabet_length)

lemma b64_encode_all: "list_all P b64_alphabet \<Longrightarrow> list_all P (b64_encode bs)"
  by (induction bs rule: b64_encode.induct) (simp_all add: Let_def b64_char_all)

lemmas b64_encode_visible = b64_encode_all [OF b64_alphabet_visible]

lemma length_b64_encode: "length (b64_encode bs) = (length bs * 4 + 2) div 3"
  by (induction bs rule: b64_encode.induct) (simp_all add: Let_def)

text \<open>Sextets determine the 24-bit group, and the group its three bytes.\<close>

lemma sextets_inj:
  assumes "(m :: nat) < 16777216" "n < 16777216"
    and "(m div 262144) mod 64 = (n div 262144) mod 64" "(m div 4096) mod 64 = (n div 4096) mod 64"
    and "(m div 64) mod 64 = (n div 64) mod 64" "m mod 64 = n mod 64"
  shows "m = n"
proof -
  have s: "k = 64 * (64 * (64 * ((k div 262144) mod 64) + (k div 4096) mod 64)
      + (k div 64) mod 64) + k mod 64" if "k < 16777216" for k :: nat
  proof -
    have "k div 64 div 64 = k div 4096" "k div 4096 div 64 = k div 262144"
      by (simp_all add: div_mult2_eq [symmetric])
    moreover have "k div 262144 < 64" using that by simp
    ultimately show ?thesis
      by (metis div_mult_mod_eq mod_less mult.commute)
  qed
  let ?join = "\<lambda>a b c d. 64 * (64 * (64 * a + b) + c) + (d :: nat)"
  have "m = ?join ((m div 262144) mod 64) ((m div 4096) mod 64) ((m div 64) mod 64) (m mod 64)"
    by (rule s [OF assms(1)])
  also have "\<dots> = ?join ((n div 262144) mod 64) ((n div 4096) mod 64) ((n div 64) mod 64) (n mod 64)"
    by (simp only: assms(3-6))
  also have "\<dots> = n" by (rule s [OF assms(2), symmetric])
  finally show ?thesis .
qed

definition group :: "byte \<Rightarrow> byte \<Rightarrow> byte \<Rightarrow> nat" where
  "group a b c = unat a * 65536 + unat b * 256 + unat c"

lemma byte_bound: "unat (x :: byte) < 256"
  using unsigned_less [of x] by simp

lemma group_bound: "group a b c < 16777216"
  using byte_bound [of a] byte_bound [of b] byte_bound [of c] by (simp add: group_def)

lemma digits_256:
  assumes "(x :: nat) < 256" "y < 256" "z < 256"
  shows "(x * 65536 + y * 256 + z) div 65536 = x"
    and "(x * 65536 + y * 256 + z) div 256 mod 256 = y"
    and "(x * 65536 + y * 256 + z) mod 256 = z"
proof -
  have "x * 65536 + y * 256 + z = z + 256 * (x * 256 + y)" by simp
  then have d: "(x * 65536 + y * 256 + z) div 256 = x * 256 + y" using assms by simp
  show "(x * 65536 + y * 256 + z) div 65536 = x"
    using d assms div_mult2_eq [of "x * 65536 + y * 256 + z" 256 256] by simp
  show "(x * 65536 + y * 256 + z) div 256 mod 256 = y" using d assms by simp
  have "x * 65536 + y * 256 + z = z + 256 * (x * 256 + y)" by simp
  then show "(x * 65536 + y * 256 + z) mod 256 = z"
    using assms(3) by (simp only: mod_mult_self2) simp
qed

lemma group_inj: "group a b c = group a' b' c' \<longleftrightarrow> a = a' \<and> b = b' \<and> c = c'"
proof
  have d: "unat a = group a b c div 65536 \<and> unat b = group a b c div 256 mod 256 \<and>
      unat c = group a b c mod 256" for a b c
    unfolding group_def using digits_256 [OF byte_bound byte_bound byte_bound, of a b c] by simp
  assume "group a b c = group a' b' c'"
  then show "a = a' \<and> b = b' \<and> c = c'"
    using d [of a b c] d [of a' b' c'] by (metis word_unat_eq_iff)
qed simp

lemma group_trailing:
  "group a b 0 mod 64 = 0" "group a 0 0 div 64 mod 64 = 0"
proof -
  have "group a b 0 = 64 * (unat a * 1024 + unat b * 4)" by (simp add: group_def)
  then show "group a b 0 mod 64 = 0" by simp
  have "group a 0 0 = 4096 * (unat a * 16)" by (simp add: group_def)
  then show "group a 0 0 div 64 mod 64 = 0" by simp
qed

lemma b64_encode_group:
  "b64_encode [a] = [b64_char (group a 0 0 div 262144), b64_char (group a 0 0 div 4096)]"
  "b64_encode [a, b] =
     [b64_char (group a b 0 div 262144), b64_char (group a b 0 div 4096),
      b64_char (group a b 0 div 64)]"
  "b64_encode (a # b # c # rest) =
     b64_char (group a b c div 262144) # b64_char (group a b c div 4096)
       # b64_char (group a b c div 64) # b64_char (group a b c) # b64_encode rest"
  by (simp_all add: group_def Let_def)

lemma b64_encode_inj:
  "length xs = length ys \<Longrightarrow> b64_encode xs = b64_encode ys \<Longrightarrow> xs = ys"
proof (induction xs arbitrary: ys rule: b64_encode.induct)
  case 1
  then show ?case by simp
next
  case (2 a)
  obtain a' where ys: "ys = [a']" using 2(1) by (cases ys) auto
  have eq: "b64_encode [a] = b64_encode [a']" using 2(2) ys by (simp only:)
  have "group a 0 0 = group a' 0 0"
    by (rule sextets_inj [OF group_bound group_bound])
      (use eq in \<open>simp_all only: b64_encode_group b64_char_inj list.inject group_trailing\<close>)
  then show ?case by (simp add: ys group_inj)
next
  case (3 a b)
  obtain a' b' where ys: "ys = [a', b']" using 3(1) by (cases ys; cases "tl ys") auto
  have eq: "b64_encode [a, b] = b64_encode [a', b']" using 3(2) ys by (simp only:)
  have "group a b 0 = group a' b' 0"
    by (rule sextets_inj [OF group_bound group_bound])
      (use eq in \<open>simp_all only: b64_encode_group b64_char_inj list.inject group_trailing\<close>)
  then show ?case by (simp add: ys group_inj)
next
  case (4 a b c rest)
  obtain a' b' c' rest' where ys: "ys = a' # b' # c' # rest'"
    using 4(2) by (metis length_Suc_conv)
  have eq: "b64_encode (a # b # c # rest) = b64_encode (a' # b' # c' # rest')"
    using 4(3) ys by simp
  have "group a b c = group a' b' c'"
    by (rule sextets_inj [OF group_bound group_bound])
      (use eq in \<open>simp_all only: b64_encode_group b64_char_inj list.inject\<close>)
  moreover have "b64_encode rest = b64_encode rest'"
    using eq by (simp only: b64_encode_group list.inject)
  then have "rest = rest'" using 4(1) [OF refl, of rest'] 4(2) ys by simp
  ultimately show ?case by (simp add: ys group_inj)
qed

section \<open>Hexadecimal bytes\<close>

definition hex_digit :: "nat \<Rightarrow> char" where
  "hex_digit n = ''0123456789abcdef'' ! (n mod 16)"

text \<open>\<open>hex.EncodeToString\<close> of one byte, and \<open>strings.ToUpper\<close> on ASCII text.\<close>

definition hex_encode :: "byte \<Rightarrow> string" where
  "hex_encode b = [hex_digit (unat b div 16), hex_digit (unat b)]"

definition upper_byte :: "char \<Rightarrow> char" where
  "upper_byte c =
     (if CHR ''a'' \<le> c \<and> c \<le> CHR ''z'' then char_of (of_char c - 32 :: nat) else c)"

definition hex_upper :: "byte \<Rightarrow> string" where
  "hex_upper b = map upper_byte (hex_encode b)"

lemma length_hex_upper [simp]: "length (hex_upper b) = 2"
  by (simp add: hex_upper_def hex_encode_def)

lemma hex_digits_distinct: "distinct (map (\<lambda>n. upper_byte (hex_digit n)) [0..<16])"
  by code_simp

lemma hex_digit_inj: "upper_byte (hex_digit m) = upper_byte (hex_digit n) \<longleftrightarrow> m mod 16 = n mod 16"
proof -
  have "inj_on (\<lambda>n. upper_byte (hex_digit n)) {0..<16}"
    using hex_digits_distinct by (simp add: distinct_map)
  then have "upper_byte (hex_digit (m mod 16)) = upper_byte (hex_digit (n mod 16))
      \<longleftrightarrow> m mod 16 = n mod 16"
    using inj_on_eq_iff [of "\<lambda>n. upper_byte (hex_digit n)" "{0..<16}" "m mod 16" "n mod 16"]
    by simp
  then show ?thesis by (simp add: hex_digit_def)
qed

lemma hex_upper_inj: "hex_upper a = hex_upper b \<longleftrightarrow> a = b"
proof
  assume "hex_upper a = hex_upper b"
  then have "unat a div 16 mod 16 = unat b div 16 mod 16" "unat a mod 16 = unat b mod 16"
    by (simp_all only: hex_upper_def hex_encode_def list.map list.inject hex_digit_inj)
  moreover have "unat a div 16 < 16" "unat b div 16 < 16"
    using byte_bound [of a] byte_bound [of b] by simp_all
  ultimately have "unat a = unat b" by (metis div_mult_mod_eq mod_less)
  then show "a = b" by (simp add: word_unat_eq_iff)
qed simp

end
