(* ===== verification/Cert_Manager.thy ===== *)
theory Cert_Manager
  imports World Encoding Op_System
begin

text \<open>
  \<open>einkgrpc/certmanager.go\<close>: the owner of the TLS material and the bearer tokens, in memory and on
  disk.  PEM blocks and file contents are byte strings; key generation, certificates, PEM and
  SHA-256 are the environment's.  A Go map is iterated in an unspecified order, which is the
  argument \<open>order\<close> of the loops over the file names.
\<close>

section \<open>Helpers\<close>

text \<open>\<open>genSelfSigned\<close>: certificate and key, both PEM; durations in nanoseconds.\<close>

definition hour :: int where "hour = 3600000000000"

definition self_signed_template :: "nat \<Rightarrow> string \<Rightarrow> int \<Rightarrow> int \<Rightarrow> cert_template" where
  "self_signed_template serial cn now1 now2 =
     \<lparr>ct_serial = serial, ct_common_name = cn, ct_not_before = now1 - hour,
      ct_not_after = now2 + 10 * 365 * 24 * hour, ct_digital_signature = True,
      ct_key_encipherment = True, ct_server_auth = True, ct_client_auth = True,
      ct_is_ca = True\<rparr>"

definition genSelfSigned :: "env \<Rightarrow> string \<Rightarrow> world \<Rightarrow> (go_error + string \<times> string) \<times> world" where
  "genSelfSigned E commonName w =
     (case rsa_GenerateKey E w of
        (Inl e, w1) \<Rightarrow> (Inl e, w1)
      | (Inr key, w1) \<Rightarrow>
     (case rand_Int E (2 ^ 128) w1 of
        (Inl e, w2) \<Rightarrow> (Inl e, w2)
      | (Inr serial, w2) \<Rightarrow>
     (case time_now E w2 of (now1, w3) \<Rightarrow>
     (case time_now E w3 of (now2, w4) \<Rightarrow>
     (case x509_CreateCertificate E (self_signed_template serial commonName now1 now2) key w4 of
        (Inl e, w5) \<Rightarrow> (Inl e, w5)
      | (Inr der, w5) \<Rightarrow>
     (case e_marshal_key E key of
        Inl e \<Rightarrow> (Inl e, w5)
      | Inr keyDER \<Rightarrow>
          (Inr (e_pem_encode E ''CERTIFICATE'' der, e_pem_encode E ''PRIVATE KEY'' keyDER),
           w5)))))))"

definition randomToken :: "env \<Rightarrow> world \<Rightarrow> string outcome \<times> world" where
  "randomToken E w =
     (case rand_Read E 24 w of
        (Inl e, w1) \<Rightarrow> (Panic (''crypto/rand: '' @ err_text E e), w1)
      | (Inr b, w1) \<Rightarrow> (Ok (b64_encode b), w1))"

text \<open>The colon-separated fingerprint: \<open>sha256.Sum256\<close> has 32 bytes.\<close>

definition sha256_sum :: "env \<Rightarrow> string \<Rightarrow> byte list" where
  "sha256_sum E der = map (e_sha256 E der) [0..<32]"

definition fingerprintPEM :: "env \<Rightarrow> string \<Rightarrow> string" where
  "fingerprintPEM E certPEM =
     (case e_pem_decode E certPEM of
        None \<Rightarrow> []
      | Some der \<Rightarrow> join '':'' (map hex_upper (sha256_sum E der)))"

section \<open>State\<close>

record CertManager =
  cm_filesDir :: string
  cm_tlsDir :: path
  serverCer :: string
  serverKey :: string
  clientCer :: string
  clientKey :: string
  token :: string
  adminTok :: string

definition pem_names :: "string list" where
  "pem_names = [''cert.pem'', ''key.pem'', ''client-cert.pem'', ''client-key.pem'']"

definition all_names :: "string list" where
  "all_names = pem_names @ [''token.txt'', ''admin-token.txt'']"

text \<open>The sinks of \<open>loadOrInit\<close> and the data of \<open>regenerateLocked\<close>, by file name.\<close>

definition set_sink :: "string \<Rightarrow> string \<Rightarrow> CertManager \<Rightarrow> CertManager" where
  "set_sink name b cm =
     (if name = ''cert.pem'' then cm\<lparr>serverCer := b\<rparr>
      else if name = ''key.pem'' then cm\<lparr>serverKey := b\<rparr>
      else if name = ''client-cert.pem'' then cm\<lparr>clientCer := b\<rparr>
      else if name = ''client-key.pem'' then cm\<lparr>clientKey := b\<rparr>
      else cm)"

definition file_data :: "CertManager \<Rightarrow> string \<Rightarrow> string" where
  "file_data cm name =
     (if name = ''cert.pem'' then serverCer cm
      else if name = ''key.pem'' then serverKey cm
      else if name = ''client-cert.pem'' then clientCer cm
      else if name = ''client-key.pem'' then clientKey cm
      else if name = ''token.txt'' then token cm
      else adminTok cm)"

section \<open>Operations\<close>

text \<open>The write loop: it stops at the first failing write.\<close>

fun write_loop :: "env \<Rightarrow> path \<Rightarrow> (string \<times> string) list \<Rightarrow> world \<Rightarrow> unit outcome \<times> world" where
  "write_loop E dir [] w = (Ok (), w)"
| "write_loop E dir ((name, data) # rest) w =
     (case os_WriteFile E (dir @ [name]) data w of
        (Some e, w1) \<Rightarrow> (Err (ErrWrap (''write '' @ name) (Errno e)), w1)
      | (None, w1) \<Rightarrow> write_loop E dir rest w1)"

definition regenerateLocked ::
    "env \<Rightarrow> string list \<Rightarrow> CertManager \<Rightarrow> world \<Rightarrow> unit outcome \<times> CertManager \<times> world" where
  "regenerateLocked E order cm w =
     (case genSelfSigned E ''tableaux-eink server'' w of
        (Inl e, w1) \<Rightarrow> (Err e, cm, w1)
      | (Inr (srvCer, srvKey), w1) \<Rightarrow>
     (case genSelfSigned E ''tableaux-eink client'' w1 of
        (Inl e, w2) \<Rightarrow> (Err e, cm, w2)
      | (Inr (cliCer, cliKey), w2) \<Rightarrow>
     (let cm1 = cm\<lparr>serverCer := srvCer, serverKey := srvKey, clientCer := cliCer,
                    clientKey := cliKey\<rparr>
      in case randomToken E w2 of
        (Ok t, w3) \<Rightarrow>
          (let cm2 = cm1\<lparr>token := t\<rparr>
           in case randomToken E w3 of
             (Ok a, w4) \<Rightarrow>
               (let cm3 = cm2\<lparr>adminTok := a\<rparr>
                in case write_loop E (cm_tlsDir cm3) (map (\<lambda>n. (n, file_data cm3 n)) order) w4 of
                     (r, w5) \<Rightarrow> (r, cm3, w5))
           | (Err e, w4) \<Rightarrow> (Err e, cm2, w4)
           | (Panic s, w4) \<Rightarrow> (Panic s, cm2, w4))
      | (Err e, w3) \<Rightarrow> (Err e, cm1, w3)
      | (Panic s, w3) \<Rightarrow> (Panic s, cm1, w3))))"

text \<open>The read loop: true when a file is missing; it stops there.\<close>

fun read_loop :: "env \<Rightarrow> string list \<Rightarrow> CertManager \<Rightarrow> world \<Rightarrow> bool \<times> CertManager \<times> world" where
  "read_loop E [] cm w = (False, cm, w)"
| "read_loop E (name # rest) cm w =
     (case os_ReadFile E (cm_tlsDir cm @ [name]) w of
        (Inl e, w1) \<Rightarrow> (True, cm, w1)
      | (Inr b, w1) \<Rightarrow> read_loop E rest (set_sink name b cm) w1)"

definition loadOrInit ::
    "env \<Rightarrow> string list \<Rightarrow> string list \<Rightarrow> CertManager \<Rightarrow> world
       \<Rightarrow> unit outcome \<times> CertManager \<times> world" where
  "loadOrInit E rorder worder cm w =
     (case read_loop E rorder cm w of
        (True, cm1, w1) \<Rightarrow> regenerateLocked E worder cm1 w1
      | (False, cm1, w1) \<Rightarrow>
     (case os_ReadFile E (cm_tlsDir cm1 @ [''token.txt'']) w1 of (rt, w2) \<Rightarrow>
     (let cm2 = (case rt of Inr b \<Rightarrow> cm1\<lparr>token := trim_space b\<rparr> | Inl e \<Rightarrow> cm1)
      in case os_ReadFile E (cm_tlsDir cm2 @ [''admin-token.txt'']) w2 of (ra, w3) \<Rightarrow>
     (let cm3 = (case ra of Inr b \<Rightarrow> cm2\<lparr>adminTok := trim_space b\<rparr> | Inl e \<Rightarrow> cm2);
          missing = (isl rt \<or> isl ra)
      in if missing then regenerateLocked E worder cm3 w3 else (Ok (), cm3, w3)))))"

definition empty_CertManager :: "string \<Rightarrow> CertManager" where
  "empty_CertManager dir =
     \<lparr>cm_filesDir = dir, cm_tlsDir = [dir, ''tls''], serverCer = [], serverKey = [],
      clientCer = [], clientKey = [], token = [], adminTok = []\<rparr>"

definition NewCertManager ::
    "env \<Rightarrow> string list \<Rightarrow> string list \<Rightarrow> string \<Rightarrow> world \<Rightarrow> CertManager outcome \<times> world" where
  "NewCertManager E rorder worder dir w =
     (let cm = empty_CertManager dir
      in case os_MkdirAll E (cm_tlsDir cm) w of
        (Some e, w1) \<Rightarrow> (Err (ErrWrap ''mkdir tls dir'' (Errno e)), w1)
      | (None, w1) \<Rightarrow>
          (case loadOrInit E rorder worder cm w1 of
             (Ok u, cm1, w2) \<Rightarrow> (Ok cm1, w2)
           | (Err e, cm1, w2) \<Rightarrow> (Err e, w2)
           | (Panic s, cm1, w2) \<Rightarrow> (Panic s, w2)))"

definition cm_Rotate ::
    "env \<Rightarrow> string list \<Rightarrow> CertManager \<Rightarrow> world \<Rightarrow> unit outcome \<times> CertManager \<times> world" where
  "cm_Rotate E order cm w = regenerateLocked E order cm w"

definition cm_ReissueClientCert ::
    "env \<Rightarrow> CertManager \<Rightarrow> world \<Rightarrow> unit outcome \<times> CertManager \<times> world" where
  "cm_ReissueClientCert E cm w =
     (case genSelfSigned E ''tableaux-eink client'' w of
        (Inl e, w1) \<Rightarrow> (Err e, cm, w1)
      | (Inr (cliCer, cliKey), w1) \<Rightarrow>
     (let cm1 = cm\<lparr>clientCer := cliCer, clientKey := cliKey\<rparr>
      in case os_WriteFile E (cm_tlsDir cm1 @ [''client-cert.pem'']) cliCer w1 of
        (Some e, w2) \<Rightarrow> (Err (Errno e), cm1, w2)
      | (None, w2) \<Rightarrow>
          (case os_WriteFile E (cm_tlsDir cm1 @ [''client-key.pem'']) cliKey w2 of
             (Some e, w3) \<Rightarrow> (Err (Errno e), cm1, w3)
           | (None, w3) \<Rightarrow> (Ok (), cm1, w3))))"

definition cm_Fingerprint :: "env \<Rightarrow> CertManager \<Rightarrow> string" where
  "cm_Fingerprint E cm = fingerprintPEM E (serverCer cm)"

definition cm_ClientFingerprint :: "env \<Rightarrow> CertManager \<Rightarrow> string" where
  "cm_ClientFingerprint E cm = fingerprintPEM E (clientCer cm)"

text \<open>The accessors copy (\<open>append([]byte(nil), x...)\<close>): on values, they return the field.\<close>

definition ServerCertPEM :: "CertManager \<Rightarrow> string" where "ServerCertPEM cm = serverCer cm"
definition ServerKeyPEM :: "CertManager \<Rightarrow> string" where "ServerKeyPEM cm = serverKey cm"
definition ClientCertPEM :: "CertManager \<Rightarrow> string" where "ClientCertPEM cm = clientCer cm"
definition ClientKeyPEM :: "CertManager \<Rightarrow> string" where "ClientKeyPEM cm = clientKey cm"
definition cm_Token :: "CertManager \<Rightarrow> string" where "cm_Token cm = token cm"
definition cm_AdminToken :: "CertManager \<Rightarrow> string" where "cm_AdminToken cm = adminTok cm"
definition LoadServerKeypair :: "CertManager \<Rightarrow> string \<times> string" where
  "LoadServerKeypair cm = (serverCer cm, serverKey cm)"

text \<open>A pool is represented by the PEM it was built from.\<close>

definition ClientCAPool :: "env \<Rightarrow> CertManager \<Rightarrow> string outcome" where
  "ClientCAPool E cm =
     (if \<not> e_append_certs E (clientCer cm)
      then Err (ErrMsg ''einkgrpc: failed to parse client cert PEM'')
      else Ok (clientCer cm))"

section \<open>What the operations keep\<close>

text \<open>The system calls of this component touch only the history and the files.\<close>

lemma gen_files: "genSelfSigned E cn w = (r, w') \<Longrightarrow> files w' = files w"
  by (auto simp: genSelfSigned_def rsa_GenerateKey_def rand_Int_def time_now_def
      x509_CreateCertificate_def Let_def split: sum.splits prod.splits)

lemma randomToken_files: "randomToken E w = (r, w') \<Longrightarrow> files w' = files w"
  by (auto simp: randomToken_def rand_Read_def split: sum.splits prod.splits)

lemma ReadFile_files: "os_ReadFile E p w = (r, w') \<Longrightarrow> files w' = files w"
  by (auto simp: os_ReadFile_def)

text \<open>A freshly drawn token: 24 bytes give 32 visible characters.\<close>

definition token_ok :: "string \<Rightarrow> bool" where
  "token_ok t \<longleftrightarrow> length t = 32 \<and> list_all visible t"

lemma token_ok_b64: "length b = 24 \<Longrightarrow> token_ok (b64_encode b)"
  by (simp add: token_ok_def length_b64_encode b64_encode_visible)

lemma token_ok_trimmed: "token_ok t \<Longrightarrow> trimmed t"
proof -
  assume t: "token_ok t"
  then have "t \<noteq> []" by (auto simp: token_ok_def)
  with t show "trimmed t"
    by (intro trimmed_visible) (simp_all add: token_ok_def list_all_iff)
qed

lemma token_ok_nonempty: "token_ok t \<Longrightarrow> t \<noteq> []"
  by (auto simp: token_ok_def)

lemma rand_Read_length: "rand_Read E n w = (Inr b, w') \<Longrightarrow> length b = n"
  by (auto simp: rand_Read_def split: sum.splits)

lemma randomToken_ok: "randomToken E w = (Ok t, w') \<Longrightarrow> token_ok t"
  by (auto simp: randomToken_def rand_Read_def intro!: token_ok_b64
      split: sum.splits prod.splits)

text \<open>\<open>regenerateLocked\<close> never returns an error from \<open>randomToken\<close>: that path panics.\<close>

lemma randomToken_not_Err: "randomToken E w \<noteq> (Err e, w')"
  by (auto simp: randomToken_def split: sum.splits prod.splits)

lemma set_sink_dirs [simp]:
  "cm_tlsDir (set_sink n b cm) = cm_tlsDir cm" "cm_filesDir (set_sink n b cm) = cm_filesDir cm"
  "token (set_sink n b cm) = token cm" "adminTok (set_sink n b cm) = adminTok cm"
  by (simp_all add: set_sink_def)

lemma regenerate_dirs:
  "regenerateLocked E order cm w = (r, cm', w') \<Longrightarrow>
     cm_tlsDir cm' = cm_tlsDir cm \<and> cm_filesDir cm' = cm_filesDir cm"
  by (auto simp: regenerateLocked_def Let_def split: sum.splits prod.splits outcome.splits)

text \<open>After a loop without a failing write, every listed file holds its data.\<close>

lemma write_loop_other:
  "write_loop E dir xs w = (r, w') \<Longrightarrow> \<forall>n \<in> fst ` set xs. p \<noteq> dir @ [n] \<Longrightarrow>
     files w' p = files w p"
proof (induction E dir xs w rule: write_loop.induct)
  case (2 E dir name data rest w)
  then show ?case
    by (fastforce simp: os_WriteFile_def split: option.splits prod.splits)
qed auto

lemma write_loop_files:
  "write_loop E dir xs w = (Ok (), w') \<Longrightarrow> distinct (map fst xs) \<Longrightarrow> (n, d) \<in> set xs \<Longrightarrow>
     files w' (dir @ [n]) = Some d"
proof (induction E dir xs w rule: write_loop.induct)
  case (2 E dir name data rest w)
  obtain r w1 where os: "os_WriteFile E (dir @ [name]) data w = (r, w1)" by (metis surj_pair)
  with 2(2) have r: "r = None" and rest: "write_loop E dir rest w1 = (Ok (), w')"
    by (auto split: option.splits)
  show ?case
  proof (cases "n = name \<and> d = data")
    case True
    have "files w' (dir @ [n]) = files w1 (dir @ [n])"
      using 2(3) True by (intro write_loop_other [OF rest]) auto
    moreover have "files w1 (dir @ [n]) = Some d"
      using os r True by (auto simp: os_WriteFile_def split: option.splits prod.splits)
    ultimately show ?thesis by simp
  next
    case False
    then have "(n, d) \<in> set rest" using 2(4) by auto
    with 2 os r rest show ?thesis by auto
  qed
qed auto

section \<open>Memory and disk\<close>

text \<open>The disk mirrors the memory, and the tokens survive the \<open>TrimSpace\<close> of a reload.\<close>

definition synced :: "CertManager \<Rightarrow> world \<Rightarrow> bool" where
  "synced cm w \<longleftrightarrow>
     cm_tlsDir cm = [cm_filesDir cm, ''tls''] \<and>
     list_all (\<lambda>n. files w (cm_tlsDir cm @ [n]) = Some (file_data cm n)) all_names \<and>
     trimmed (token cm) \<and> trimmed (adminTok cm)"

definition readable :: "env \<Rightarrow> bool" where
  "readable E \<longleftrightarrow> (\<forall>h p. e_readfile E h p = None)"

text \<open>Iteration orders of the two map literals: every key once.\<close>

definition read_order :: "string list \<Rightarrow> bool" where
  "read_order ns \<longleftrightarrow> set ns = set pem_names \<and> distinct ns"

definition write_order :: "string list \<Rightarrow> bool" where
  "write_order ns \<longleftrightarrow> set ns = set all_names \<and> distinct ns"

lemma write_loop_synced:
  assumes "write_loop E (cm_tlsDir cm) (map (\<lambda>n. (n, file_data cm n)) order) w = (Ok (), w')"
    and "write_order order" and "cm_tlsDir cm = [cm_filesDir cm, ''tls'']"
    and "token_ok (token cm)" and "token_ok (adminTok cm)"
  shows "synced cm w'"
proof -
  have "files w' (cm_tlsDir cm @ [n]) = Some (file_data cm n)" if "n \<in> set all_names" for n
    using assms(1) assms(2) that
    by (intro write_loop_files [OF assms(1)]) (auto simp: write_order_def comp_def)
  with assms show ?thesis by (simp add: synced_def list_all_iff token_ok_trimmed)
qed

lemma regenerate_synced:
  assumes "regenerateLocked E order cm w = (Ok (), cm', w')" and "write_order order"
    and "cm_tlsDir cm = [cm_filesDir cm, ''tls'']"
  shows "synced cm' w' \<and> token_ok (token cm') \<and> token_ok (adminTok cm')"
  using assms
  by (auto simp: regenerateLocked_def Let_def split: sum.splits prod.splits outcome.splits
      dest: randomToken_ok intro!: write_loop_synced)

lemma read_loop_present:
  "readable E \<Longrightarrow> list_all (\<lambda>n. files w (cm_tlsDir cm @ [n]) = Some (c n)) ns \<Longrightarrow>
     \<exists>w'. read_loop E ns cm w = (False, fold (\<lambda>n. set_sink n (c n)) ns cm, w') \<and>
       files w' = files w"
proof (induction ns arbitrary: cm w)
  case (Cons n ns)
  let ?w1 = "log_ev (EvReadFile (cm_tlsDir cm @ [n])) w"
  have r: "os_ReadFile E (cm_tlsDir cm @ [n]) w = (Inr (c n), ?w1)"
    using Cons.prems by (simp add: os_ReadFile_def readable_def)
  obtain w' where "read_loop E ns (set_sink n (c n) cm) ?w1 =
      (False, fold (\<lambda>n. set_sink n (c n)) ns (set_sink n (c n) cm), w')" "files w' = files w"
    using Cons.IH [of ?w1 "set_sink n (c n) cm"] Cons.prems by auto
  with r show ?case by auto
qed simp

lemma fold_sinks:
  "cm_tlsDir (fold (\<lambda>n. set_sink n (c n)) ns cm) = cm_tlsDir cm"
  "cm_filesDir (fold (\<lambda>n. set_sink n (c n)) ns cm) = cm_filesDir cm"
  "token (fold (\<lambda>n. set_sink n (c n)) ns cm) = token cm"
  "adminTok (fold (\<lambda>n. set_sink n (c n)) ns cm) = adminTok cm"
  by (induction ns arbitrary: cm) simp_all

lemma fold_sinks_field:
  "''cert.pem'' \<in> set ns \<Longrightarrow> serverCer (fold (\<lambda>n. set_sink n (c n)) ns cm) = c ''cert.pem''"
  "''key.pem'' \<in> set ns \<Longrightarrow> serverKey (fold (\<lambda>n. set_sink n (c n)) ns cm) = c ''key.pem''"
  "''client-cert.pem'' \<in> set ns \<Longrightarrow>
     clientCer (fold (\<lambda>n. set_sink n (c n)) ns cm) = c ''client-cert.pem''"
  "''client-key.pem'' \<in> set ns \<Longrightarrow>
     clientKey (fold (\<lambda>n. set_sink n (c n)) ns cm) = c ''client-key.pem''"
  by (induction ns rule: rev_induct) (auto simp: set_sink_def)

lemma loadOrInit_synced:
  assumes "readable E" "read_order rorder" "synced cm w"
    and dirs: "cm_tlsDir cm0 = cm_tlsDir cm" "cm_filesDir cm0 = cm_filesDir cm"
  shows "\<exists>w'. loadOrInit E rorder worder cm0 w = (Ok (), cm, w') \<and> files w' = files w"
proof -
  let ?cm1 = "fold (\<lambda>n. set_sink n (file_data cm n)) rorder cm0"
  have all: "list_all (\<lambda>n. files w (cm_tlsDir cm @ [n]) = Some (file_data cm n)) all_names"
    and trim: "trimmed (token cm)" "trimmed (adminTok cm)"
    using assms(3) unfolding synced_def by blast+
  have set: "set rorder = set pem_names" using assms(2) by (simp add: read_order_def)
  have "list_all (\<lambda>n. files w (cm_tlsDir cm0 @ [n]) = Some (file_data cm n)) rorder"
    using all dirs set by (simp add: list_all_iff all_names_def)
  then obtain w1 where l: "read_loop E rorder cm0 w = (False, ?cm1, w1)" "files w1 = files w"
    using read_loop_present [OF assms(1)] by blast
  have mem: "''cert.pem'' \<in> set rorder" "''key.pem'' \<in> set rorder"
    "''client-cert.pem'' \<in> set rorder" "''client-key.pem'' \<in> set rorder"
    using set by (simp_all add: pem_names_def)
  have f: "files w (cm_tlsDir cm @ [''token.txt'']) = Some (token cm)"
    "files w (cm_tlsDir cm @ [''admin-token.txt'']) = Some (adminTok cm)"
    using all by (simp_all add: all_names_def file_data_def)
  have cm: "?cm1\<lparr>token := token cm, adminTok := adminTok cm\<rparr> = cm"
    using dirs fold_sinks [of "file_data cm" rorder cm0] fold_sinks_field [of rorder "file_data cm" cm0]
      mem
    by (cases cm, cases ?cm1) (simp add: file_data_def)
  show ?thesis
    using l f dirs cm assms(1) trim
    by (simp add: loadOrInit_def os_ReadFile_def readable_def fold_sinks trim_space_id Let_def)
qed

text \<open>A restart on a synchronised disk gives back the very same credentials.\<close>

lemma restart_synced:
  assumes "readable E" "read_order rorder" "synced cm w" "e_mkdir E (hist w) (cm_tlsDir cm) = None"
  shows "\<exists>w'. NewCertManager E rorder worder (cm_filesDir cm) w = (Ok cm, w') \<and>
    files w' = files w"
proof -
  let ?cm0 = "empty_CertManager (cm_filesDir cm)"
  let ?w1 = "log_ev (EvMkdir (cm_tlsDir cm)) w"
  have d: "cm_tlsDir ?cm0 = cm_tlsDir cm" "cm_filesDir ?cm0 = cm_filesDir cm"
    using assms(3) by (simp_all add: empty_CertManager_def synced_def)
  have "synced cm ?w1" using assms(3) unfolding synced_def log_ev_sel .
  from loadOrInit_synced [OF assms(1,2) this d] obtain w' where
    "loadOrInit E rorder worder ?cm0 ?w1 = (Ok (), cm, w')" "files w' = files w" by auto
  then show ?thesis
    using d assms(4) by (simp add: NewCertManager_def os_MkdirAll_def Let_def)
qed

lemma WriteFile_None_files:
  "os_WriteFile E p c w = (None, w') \<Longrightarrow> files w' = (files w)(p \<mapsto> c)"
  by (auto simp: os_WriteFile_def split: option.splits prod.splits)

lemma reissue_synced:
  assumes "cm_ReissueClientCert E cm w = (Ok (), cm', w')" and "synced cm w"
  shows "synced cm' w'"
proof -
  obtain c k w1 w2 where
    g: "genSelfSigned E ''tableaux-eink client'' w = (Inr (c, k), w1)"
    and a: "os_WriteFile E (cm_tlsDir cm @ [''client-cert.pem'']) c w1 = (None, w2)"
    and b: "os_WriteFile E (cm_tlsDir cm @ [''client-key.pem'']) k w2 = (None, w')"
    and cm': "cm' = cm\<lparr>clientCer := c, clientKey := k\<rparr>"
    using assms(1) by (auto simp: cm_ReissueClientCert_def Let_def
        split: sum.splits prod.splits option.splits)
  have "files w' = (files w)(cm_tlsDir cm @ [''client-cert.pem''] \<mapsto> c,
      cm_tlsDir cm @ [''client-key.pem''] \<mapsto> k)"
    using gen_files [OF g] WriteFile_None_files [OF a] WriteFile_None_files [OF b] by simp
  then show ?thesis
    using assms(2) by (auto simp: synced_def cm' all_names_def pem_names_def file_data_def)
qed

lemma reissue_keeps:
  assumes "cm_ReissueClientCert E cm w = (r, cm', w')"
  shows "serverCer cm' = serverCer cm" "serverKey cm' = serverKey cm" "token cm' = token cm"
    "adminTok cm' = adminTok cm" "cm_tlsDir cm' = cm_tlsDir cm" "cm_filesDir cm' = cm_filesDir cm"
  using assms
  by (auto simp: cm_ReissueClientCert_def Let_def split: sum.splits prod.splits option.splits)

lemma regenerate_tokens_ok:
  assumes "regenerateLocked E order cm w = (r, cm', w')"
    and "token_ok (token cm)" "token_ok (adminTok cm)"
  shows "token_ok (token cm')" "token_ok (adminTok cm')"
  using assms
  by (auto simp: regenerateLocked_def Let_def split: sum.splits prod.splits outcome.splits
      dest: randomToken_ok)

section \<open>Sequences of operations\<close>

datatype cm_op = OpRotate "string list" | OpReissue

fun cm_step :: "env \<Rightarrow> cm_op \<Rightarrow> CertManager \<times> world \<Rightarrow> CertManager \<times> world" where
  "cm_step E (OpRotate order) (cm, w) = snd (cm_Rotate E order cm w)"
| "cm_step E OpReissue (cm, w) = snd (cm_ReissueClientCert E cm w)"

definition cm_tokens_ok :: "CertManager \<times> world \<Rightarrow> bool" where
  "cm_tokens_ok s \<longleftrightarrow> token_ok (token (fst s)) \<and> token_ok (adminTok (fst s))"

interpretation cm_ops: op_system "cm_step E" cm_tokens_ok for E
proof unfold_locales
  fix s op assume ok: "cm_tokens_ok s"
  obtain cm w where s: "s = (cm, w)" by (metis surj_pair)
  show "cm_tokens_ok (cm_step E op s)"
  proof (cases op)
    case (OpRotate order)
    obtain r cm' w' where e: "regenerateLocked E order cm w = (r, cm', w')"
      by (metis prod_cases3)
    with regenerate_tokens_ok [OF e] ok s OpRotate show ?thesis
      by (simp add: cm_tokens_ok_def cm_Rotate_def)
  next
    case OpReissue
    obtain r cm' w' where e: "cm_ReissueClientCert E cm w = (r, cm', w')"
      by (metis prod_cases3)
    with reissue_keeps [OF e] ok s OpReissue show ?thesis
      by (simp add: cm_tokens_ok_def)
  qed
qed

section \<open>When nothing fails\<close>

text \<open>An environment whose cryptographic calls succeed, and one whose writes succeed as well.\<close>

definition crypto_ok :: "env \<Rightarrow> bool" where
  "crypto_ok E \<longleftrightarrow>
     (\<forall>h. \<not> isl (e_rsa E h)) \<and> (\<forall>h n. \<not> isl (e_rand_int E h n)) \<and>
     (\<forall>h t k. \<not> isl (e_create_cert E h t k)) \<and> (\<forall>k. \<not> isl (e_marshal_key E k)) \<and>
     (\<forall>h n. \<not> isl (e_rand E h n))"

definition obliging :: "env \<Rightarrow> bool" where
  "obliging E \<longleftrightarrow> crypto_ok E \<and> (\<forall>h p c. e_writefile E h p c = None)"

lemma not_isl_iff: "\<not> isl r \<longleftrightarrow> (\<exists>x. r = Inr x)"
  by (cases r) auto

lemma gen_obliging:
  assumes "crypto_ok E"
  shows "\<exists>c k w'. genSelfSigned E cn w = (Inr (c, k), w')"
proof -
  have a: "\<And>h. \<exists>x. e_rsa E h = Inr x" "\<And>h n. \<exists>x. e_rand_int E h n = Inr x"
    "\<And>h t k. \<exists>x. e_create_cert E h t k = Inr x" "\<And>k. \<exists>x. e_marshal_key E k = Inr x"
    using assms by (simp_all add: crypto_ok_def not_isl_iff)
  show ?thesis
    using a(1) [of "hist w"] a(2) a(3) a(4)
    by (auto simp: genSelfSigned_def rsa_GenerateKey_def rand_Int_def time_now_def
        x509_CreateCertificate_def Let_def split: sum.split) (metis Inl_Inr_False)+
qed

lemma randomToken_obliging:
  assumes "crypto_ok E"
  shows "\<exists>t w'. randomToken E w = (Ok t, w')"
proof -
  obtain f where "e_rand E (hist w) 24 = Inr f"
    using assms unfolding crypto_ok_def not_isl_iff by blast
  then show ?thesis by (simp add: randomToken_def rand_Read_def)
qed

lemma write_loop_obliging: "obliging E \<Longrightarrow> fst (write_loop E dir xs w) = Ok ()"
  by (induction E dir xs w rule: write_loop.induct)
    (auto simp: os_WriteFile_def obliging_def)

text \<open>With working cryptography a rotation is the write loop over fresh material.\<close>

lemma rotate_crypto:
  assumes "crypto_ok E"
  shows "\<exists>cm' v. cm_tlsDir cm' = cm_tlsDir cm \<and> cm_filesDir cm' = cm_filesDir cm \<and>
    files v = files w \<and>
    cm_Rotate E order cm w =
      (case write_loop E (cm_tlsDir cm) (map (\<lambda>n. (n, file_data cm' n)) order) v of
         (r, w') \<Rightarrow> (r, cm', w'))"
proof -
  obtain sc sk w1 where g1: "genSelfSigned E ''tableaux-eink server'' w = (Inr (sc, sk), w1)"
    using gen_obliging [OF assms] by blast
  obtain cc ck w2 where g2: "genSelfSigned E ''tableaux-eink client'' w1 = (Inr (cc, ck), w2)"
    using gen_obliging [OF assms] by blast
  obtain t w3 where t: "randomToken E w2 = (Ok t, w3)" using randomToken_obliging [OF assms] by blast
  obtain a w4 where a: "randomToken E w3 = (Ok a, w4)" using randomToken_obliging [OF assms] by blast
  have f: "files w4 = files w"
    using gen_files [OF g1] gen_files [OF g2] randomToken_files [OF t] randomToken_files [OF a]
    by simp
  show ?thesis
    using g1 g2 t a f
    by (intro exI [of _ "cm\<lparr>serverCer := sc, serverKey := sk, clientCer := cc, clientKey := ck,
          token := t, adminTok := a\<rparr>"] exI [of _ w4])
      (simp add: cm_Rotate_def regenerateLocked_def Let_def)
qed

lemma rotate_obliging:
  assumes "obliging E"
  shows "\<exists>cm' w'. cm_Rotate E order cm w = (Ok (), cm', w')"
proof -
  have c: "crypto_ok E" using assms by (simp add: obliging_def)
  obtain cm' v where "cm_Rotate E order cm w =
      (case write_loop E (cm_tlsDir cm) (map (\<lambda>n. (n, file_data cm' n)) order) v of
         (r, w') \<Rightarrow> (r, cm', w'))"
    using rotate_crypto [OF c] by blast
  moreover obtain w' where
    "write_loop E (cm_tlsDir cm) (map (\<lambda>n. (n, file_data cm' n)) order) v = (Ok (), w')"
    using write_loop_obliging [OF assms] by (metis prod.collapse)
  ultimately show ?thesis by auto
qed

lemma demo_obliging: "obliging demo_env"
  by (simp add: obliging_def crypto_ok_def demo_env_def)

lemma demo_readable: "readable demo_env"
  by (simp add: readable_def demo_env_def)

lemma orders_ok: "write_order all_names" "read_order pem_names"
  by (auto simp: write_order_def read_order_def all_names_def pem_names_def)

section \<open>Properties\<close>

text \<open>
  C20. Credentials survive a restart.  After a successful \<open>Rotate\<close> the disk mirrors the memory, and
  constructing a new \<open>CertManager\<close> on the same directory, with any iteration order of the file
  table, loads exactly the rotated credentials and writes nothing.
\<close>

theorem rotate_then_restart:
  assumes "cm_Rotate E worder cm w = (Ok (), cm', w')" and "write_order worder"
    and "cm_tlsDir cm = [cm_filesDir cm, ''tls'']"
    and "readable E" and "read_order rorder" and "e_mkdir E (hist w') (cm_tlsDir cm') = None"
  shows "\<exists>w''. NewCertManager E rorder worder2 (cm_filesDir cm) w' = (Ok cm', w'') \<and>
    files w'' = files w'"
proof -
  have r: "regenerateLocked E worder cm w = (Ok (), cm', w')" using assms(1) by (simp add: cm_Rotate_def)
  have "synced cm' w'" using regenerate_synced [OF r assms(2,3)] by simp
  with restart_synced [OF assms(4,5) _ assms(6)] regenerate_dirs [OF r] show ?thesis by metis
qed

lemma rotate_then_restart_witness:
  "\<exists>cm' w' w''. cm_Rotate demo_env all_names (empty_CertManager ''f'') empty_world = (Ok (), cm', w')
     \<and> NewCertManager demo_env (rev pem_names) all_names ''f'' w' = (Ok cm', w'')"
proof -
  obtain cm' w' where r:
    "cm_Rotate demo_env all_names (empty_CertManager ''f'') empty_world = (Ok (), cm', w')"
    using rotate_obliging [OF demo_obliging] by blast
  have d: "cm_tlsDir (empty_CertManager ''f'') = [cm_filesDir (empty_CertManager ''f''), ''tls'']"
    "cm_filesDir (empty_CertManager ''f'') = ''f''"
    by (simp_all add: empty_CertManager_def)
  have o: "read_order (rev pem_names)" by (auto simp: read_order_def pem_names_def)
  have m: "e_mkdir demo_env (hist w') (cm_tlsDir cm') = None" by (simp add: demo_env_def)
  from rotate_then_restart [OF r orders_ok(1) d(1) demo_readable o m] r d(2) show ?thesis by metis
qed

text \<open>
  \<open>ReissueClientCert\<close> touches only the client material: on every path, failing writes
  included, the server certificate, its key and both tokens stay; on success a synchronised disk
  stays synchronised, so a restart serves the new client certificate.
\<close>

lemma reissue_keeps_identity:
  assumes "cm_ReissueClientCert E cm w = (r, cm', w')"
  shows "ServerCertPEM cm' = ServerCertPEM cm \<and> ServerKeyPEM cm' = ServerKeyPEM cm \<and>
    cm_Token cm' = cm_Token cm \<and> cm_AdminToken cm' = cm_AdminToken cm \<and>
    cm_Fingerprint E cm' = cm_Fingerprint E cm \<and>
    (r = Ok () \<and> synced cm w \<longrightarrow> synced cm' w')"
  using reissue_keeps [OF assms] reissue_synced [of E cm w cm' w'] assms
  by (auto simp: ServerCertPEM_def ServerKeyPEM_def cm_Token_def cm_AdminToken_def
      cm_Fingerprint_def)

lemma reissue_keeps_identity_example:
  "\<exists>r cm' w'. cm_ReissueClientCert demo_env (empty_CertManager ''f'') empty_world = (r, cm', w') \<and>
     cm_Token cm' = cm_Token (empty_CertManager ''f'')"
proof -
  obtain r cm' w' where
    "cm_ReissueClientCert demo_env (empty_CertManager ''f'') empty_world = (r, cm', w')"
    by (metis prod_cases3)
  with reissue_keeps_identity [OF this] show ?thesis by blast
qed

text \<open>
  Whatever sequence of rotations and reissues is run, whether they succeed or fail half-way,
  both tokens stay 32 visible ASCII characters.
\<close>

lemma tokens_stay_wellformed:
  assumes "token_ok (cm_Token cm)" and "token_ok (cm_AdminToken cm)"
  shows "let cm' = fst (fold (cm_step E) ops (cm, w))
    in token_ok (cm_Token cm') \<and> token_ok (cm_AdminToken cm')"
  using cm_ops.run_inv [of "(cm, w)" E ops] assms
  by (simp add: cm_tokens_ok_def cm_Token_def cm_AdminToken_def Let_def)

definition demo_cm :: CertManager where
  "demo_cm = (empty_CertManager ''f'')\<lparr>serverCer := ''CERTIFICATE:s'', serverKey := ''ks'',
     clientCer := ''CERTIFICATE:c'', clientKey := ''kc'',
     token := ''operator-token-of-32-characters-'', adminTok := ''admin-token-with--32-characters-''\<rparr>"

lemma demo_cm_tokens: "token_ok (cm_Token demo_cm)" "token_ok (cm_AdminToken demo_cm)"
  by (simp_all add: demo_cm_def empty_CertManager_def cm_Token_def cm_AdminToken_def
      token_ok_def visible_def)

lemma tokens_stay_wellformed_example:
  "token_ok (cm_Token demo_cm) \<and> token_ok (cm_AdminToken demo_cm) \<and>
   token_ok (cm_Token (fst (fold (cm_step demo_env) [OpReissue, OpRotate all_names]
     (demo_cm, empty_world))))"
  using tokens_stay_wellformed [OF demo_cm_tokens, of demo_env "[OpReissue, OpRotate all_names]"
      empty_world] demo_cm_tokens by (simp only: Let_def)

lemma rotate_draws:
  assumes "cm_Rotate E order cm w = (Ok (), cm', w')"
  shows "\<exists>b1 b2. length b1 = 24 \<and> length b2 = 24 \<and>
    cm_Token cm' = b64_encode b1 \<and> cm_AdminToken cm' = b64_encode b2"
proof -
  have draw: "\<exists>b. length b = 24 \<and> t = b64_encode b" if "randomToken E v = (Ok t, v')" for t v v'
    using that rand_Read_length [of E 24 v]
    by (auto simp: randomToken_def split: sum.splits prod.splits)
  have "(\<exists>b. length b = 24 \<and> token cm' = b64_encode b) \<and>
      (\<exists>b. length b = 24 \<and> adminTok cm' = b64_encode b)"
    using assms
    by (auto simp: cm_Rotate_def regenerateLocked_def Let_def
        split: sum.splits prod.splits outcome.splits dest!: draw)
  then show ?thesis by (auto simp: cm_Token_def cm_AdminToken_def)
qed

text \<open>
  Fresh tokens.  A successful \<open>Rotate\<close> draws both tokens from 24 random bytes each; a token
  determines its bytes, so the operator and the admin token coincide only if the two draws do,
  and an old token survives a rotation only if its very bytes were drawn again.
\<close>

lemma rotate_draws_tokens:
  assumes "cm_Rotate E order cm w = (Ok (), cm', w')"
  shows "\<exists>b1 b2. length b1 = 24 \<and> length b2 = 24 \<and>
    cm_Token cm' = b64_encode b1 \<and> cm_AdminToken cm' = b64_encode b2 \<and>
    (cm_Token cm' = cm_AdminToken cm' \<longleftrightarrow> b1 = b2) \<and>
    (\<forall>b0. length b0 = 24 \<longrightarrow> (cm_Token cm' = b64_encode b0 \<longleftrightarrow> b0 = b1))"
proof -
  obtain b1 b2 where b: "length b1 = 24" "length b2 = 24" "cm_Token cm' = b64_encode b1"
    "cm_AdminToken cm' = b64_encode b2"
    using rotate_draws [OF assms] by blast
  have "b64_encode x = b64_encode y \<longleftrightarrow> x = y" if "length x = 24" "length y = 24" for x y
    using b64_encode_inj [of x y] that by auto
  with b show ?thesis by (intro exI [of _ b1] exI [of _ b2]) auto
qed

lemma rotate_draws_tokens_example:
  "\<exists>cm' w' b1. cm_Rotate demo_env all_names demo_cm empty_world = (Ok (), cm', w') \<and>
     length b1 = 24 \<and> cm_Token cm' = b64_encode b1"
proof -
  obtain cm' w' where r: "cm_Rotate demo_env all_names demo_cm empty_world = (Ok (), cm', w')"
    using rotate_obliging [OF demo_obliging] by blast
  from rotate_draws_tokens [OF r] r show ?thesis by blast
qed

section \<open>Fingerprints\<close>

text \<open>
  A fingerprint is 32 upper-case hexadecimal bytes joined by colons, 95 characters, and two
  certificates have the same fingerprint exactly when their digests agree; only a text without a
  PEM block has the empty fingerprint.
\<close>

lemma fingerprint_identifies:
  "(fingerprintPEM E p = [] \<longleftrightarrow> e_pem_decode E p = None) \<and>
   (case (e_pem_decode E p, e_pem_decode E q) of
      (Some d1, Some d2) \<Rightarrow> length (fingerprintPEM E p) = 95 \<and>
        (fingerprintPEM E p = fingerprintPEM E q \<longleftrightarrow> sha256_sum E d1 = sha256_sum E d2)
    | _ \<Rightarrow> True)"
proof -
  have two: "list_all (\<lambda>s. length s = 2) (map hex_upper bs)" for bs by (simp add: list_all_iff)
  have len: "length (join '':'' (map hex_upper (sha256_sum E d))) = 95" for d
    using join2_length [OF two, of "sha256_sum E d" "CHR '':''"] by (simp add: sha256_sum_def)
  have "inj hex_upper" by (simp add: inj_def hex_upper_inj)
  then have inj: "join '':'' (map hex_upper (sha256_sum E d)) = join '':'' (map hex_upper (sha256_sum E d'))
      \<longleftrightarrow> sha256_sum E d = sha256_sum E d'" for d d'
    using join2_inj [OF _ two two, of "sha256_sum E d" "sha256_sum E d'" "CHR '':''"]
    inj_map_eq_map [OF \<open>inj hex_upper\<close>]
    by (simp add: sha256_sum_def del: map_map)
  have "join '':'' (map hex_upper (sha256_sum E d)) \<noteq> []" for d using len [of d] by force
  with len inj show ?thesis by (auto simp: fingerprintPEM_def split: option.splits)
qed

section \<open>A rotation that stops half-way\<close>

lemma write_loop_torn:
  assumes "e_writefile E (hist w) (dir @ [a]) x = None"
    and "\<And>h. e_writefile E h (dir @ [b]) y = Some (e, None)"
  shows "\<exists>w'. write_loop E dir ((a, x) # (b, y) # rest) w =
      (Err (ErrWrap (''write '' @ b) (Errno e)), w') \<and> files w' = (files w)(dir @ [a] \<mapsto> x)"
  using assms by (auto simp: os_WriteFile_def)


definition full_disk_env :: env where
  "full_disk_env = demo_env\<lparr>e_writefile := (\<lambda>h p c.
     if p = [''f'', ''tls'', ''key.pem''] then Some (28, None) else None)\<rparr>"

definition demo_disk :: world where
  "demo_disk = empty_world\<lparr>files := (\<lambda>p. if take 2 p = [''f'', ''tls''] \<and> length p = 3
     then Some (file_data demo_cm (p ! 2)) else None)\<rparr>"

lemma demo_disk_synced: "synced demo_cm demo_disk"
proof -
  have "trimmed (token demo_cm)" "trimmed (adminTok demo_cm)"
    using demo_cm_tokens by (simp_all add: token_ok_trimmed cm_Token_def cm_AdminToken_def)
  moreover have "cm_tlsDir demo_cm = [''f'', ''tls'']" "cm_filesDir demo_cm = ''f''"
    by (simp_all add: demo_cm_def empty_CertManager_def)
  ultimately show ?thesis by (simp add: synced_def demo_disk_def list_all_iff)
qed


end
