(* ===== verification/Token_Auth.thy ===== *)
theory Token_Auth
  imports Grpc_Runtime Cert_Manager
begin

text \<open>
  \<open>einkgrpc/tokenauth.go\<close>: the two interceptors that guard every RPC.  A \<open>TokenAuth\<close> holds a pointer
  to the \<open>CertManager\<close>, so it reads the tokens that are current when the request arrives; here the
  pointer is a function from the state of the server.
\<close>

section \<open>Operations\<close>

text \<open>\<open>subtle.ConstantTimeCompare\<close>: the disjunction of all byte differences is zero.\<close>

fun xor_acc :: "byte \<Rightarrow> string \<Rightarrow> string \<Rightarrow> byte" where
  "xor_acc v (x # xs) (y # ys) = xor_acc (or v (xor (byte_of x) (byte_of y))) xs ys"
| "xor_acc v _ _ = v"

definition ConstantTimeCompare :: "string \<Rightarrow> string \<Rightarrow> nat" where
  "ConstantTimeCompare x y =
     (if length x \<noteq> length y then 0 else if xor_acc 0 x y = 0 then 1 else 0)"

definition ta_equals :: "string \<Rightarrow> string \<Rightarrow> bool" where
  "ta_equals a b =
     (if length a = 0 \<or> length b = 0 \<or> length a \<noteq> length b then False
      else ConstantTimeCompare a b = 1)"

definition bearer :: string where
  "bearer = ''Bearer ''"

definition check :: "CertManager \<Rightarrow> context_t \<Rightarrow> go_error option" where
  "check cm ctx =
     (case FromIncomingContext ctx of
        None \<Rightarrow> Some (ErrStatus Unauthenticated ''missing metadata'')
      | Some md \<Rightarrow>
     (case md_Get md ''authorization'' of
        [] \<Rightarrow> Some (ErrStatus Unauthenticated ''missing authorization header'')
      | a # as \<Rightarrow>
     (let got = trim_space a
      in if \<not> has_prefix got bearer
         then Some (ErrStatus Unauthenticated ''authorization is not Bearer'')
         else
           (let tok = trim_space (drop (length bearer) got)
            in if \<not> ta_equals tok (cm_Token cm) \<and> \<not> ta_equals tok (cm_AdminToken cm)
               then Some (ErrStatus Unauthenticated ''invalid token'')
               else None))))"

record 's TokenAuth =
  ta_cm :: "'s \<Rightarrow> CertManager"

definition NewTokenAuth :: "('s \<Rightarrow> CertManager) \<Rightarrow> 's TokenAuth" where
  "NewTokenAuth cm = \<lparr>ta_cm = cm\<rparr>"

definition ta_Unary :: "'s TokenAuth \<Rightarrow> 's unary_handler \<Rightarrow> 's unary_handler" where
  "ta_Unary t handler ctx req s =
     (case check (ta_cm t s) ctx of
        Some e \<Rightarrow> (Err e, s)
      | None \<Rightarrow> handler ctx req s)"

definition ta_Stream :: "'s TokenAuth \<Rightarrow> 's stream_handler \<Rightarrow> 's stream_handler" where
  "ta_Stream t handler ss s =
     (case check (ta_cm t s) (ss_context ss) of
        Some e \<Rightarrow> (Err e, s)
      | None \<Rightarrow> handler ss s)"

section \<open>The comparison\<close>

lemma xor_zero_iff: "xor a b = 0 \<longleftrightarrow> a = (b :: byte)"
proof
  assume "xor a b = 0"
  then have "xor (xor a b) b = b" by simp
  then show "a = b" by (simp add: xor.assoc)
qed simp

lemma xor_acc_zero:
  "length xs = length ys \<Longrightarrow> xor_acc v xs ys = 0 \<longleftrightarrow> v = 0 \<and> xs = ys"
proof (induction xs ys arbitrary: v rule: list_induct2)
  case (Cons x xs y ys)
  then show ?case by (auto simp: or_eq_0_iff xor_zero_iff byte_of_inj)
qed simp

lemma ta_equals_iff: "ta_equals a b \<longleftrightarrow> a = b \<and> a \<noteq> []"
  using xor_acc_zero [of a b 0] by (auto simp: ta_equals_def ConstantTimeCompare_def)

section \<open>What a request presents\<close>

text \<open>The bearer token in a context, if it carries one.\<close>

definition presented :: "context_t \<Rightarrow> string option" where
  "presented ctx =
     (case ctx_incoming ctx of
        None \<Rightarrow> None
      | Some md \<Rightarrow>
          (case md ''authorization'' of
             [] \<Rightarrow> None
           | a # as \<Rightarrow>
               (if has_prefix (trim_space a) bearer
                then Some (trim_space (drop 7 (trim_space a))) else None)))"

definition valid_token :: "CertManager \<Rightarrow> string \<Rightarrow> bool" where
  "valid_token cm t \<longleftrightarrow> t \<noteq> [] \<and> (t = cm_Token cm \<or> t = cm_AdminToken cm)"

lemma length_bearer [simp]: "length bearer = 7"
  by (simp add: bearer_def)

lemma check_cases:
  "check cm ctx =
     (case presented ctx of
        None \<Rightarrow> check cm ctx
      | Some t \<Rightarrow> if valid_token cm t then None
                   else Some (ErrStatus Unauthenticated ''invalid token''))"
  by (auto simp: check_def presented_def valid_token_def ta_equals_iff FromIncomingContext_def
      md_Get_def Let_def split: option.splits list.splits)

lemma check_None: "presented ctx = None \<Longrightarrow> \<exists>s. check cm ctx = Some (ErrStatus Unauthenticated s)"
  by (auto simp: check_def presented_def FromIncomingContext_def md_Get_def Let_def
      split: option.splits list.splits if_splits)

text \<open>The context a client with token \<open>t\<close> produces.\<close>

definition bearer_ctx :: "string \<Rightarrow> context_t" where
  "bearer_ctx t =
     \<lparr>ctx_incoming = Some (\<lambda>k. if k = ''authorization'' then [bearer @ t] else [])\<rparr>"

lemma presented_bearer_ctx:
  assumes "token_ok t"
  shows "presented (bearer_ctx t) = Some t"
proof -
  have t: "t \<noteq> []" "list_all visible t" using assms by (auto simp: token_ok_def)
  then have "visible (last t)" by (simp add: list_all_iff)
  then have "trimmed (bearer @ t)"
    using t(1) by (intro trimmed_visible) (simp_all add: bearer_def visible_def)
  then have "trim_space (bearer @ t) = bearer @ t" by (rule trim_space_id)
  moreover have "trim_space t = t" by (rule trim_space_id [OF token_ok_trimmed [OF assms]])
  ultimately show ?thesis by (simp add: presented_def bearer_ctx_def)
qed

section \<open>The contract of a credential store\<close>

text \<open>
  A store whose operations keep it good, and whose current credentials are then well-formed tokens:
  a client that sends one of them presents exactly that credential.
\<close>

locale credential_store = op_system step good
  for step :: "'op \<Rightarrow> 's \<Rightarrow> 's" and good :: "'s \<Rightarrow> bool" +
  fixes creds :: "'s \<Rightarrow> string list"
  assumes creds_ok: "good s \<Longrightarrow> t \<in> set (creds s) \<Longrightarrow> token_ok t"
begin

lemma presents: "good s \<Longrightarrow> t \<in> set (creds s) \<Longrightarrow> presented (bearer_ctx t) = Some t"
  by (intro presented_bearer_ctx creds_ok)

lemma presents_later:
  "good s \<Longrightarrow> t \<in> set (creds (fold step ops s)) \<Longrightarrow> presented (bearer_ctx t) = Some t \<and> t \<noteq> []"
  using run_inv [of s ops] creds_ok presents token_ok_nonempty by blast

end

interpretation store: credential_store "cm_step E" cm_tokens_ok
    "\<lambda>s. [cm_Token (fst s), cm_AdminToken (fst s)]" for E
  by unfold_locales
    (auto simp: cm_tokens_ok_def cm_Token_def cm_AdminToken_def intro: cm_ops.step_inv)

section \<open>Properties\<close>

text \<open>
  C6. The guard accepts a request exactly when it presents, after \<open>TrimSpace\<close> and behind the scheme
  \<open>Bearer\<close>, a non-empty token equal to the current operator or admin token; in particular an empty
  stored token never authenticates anybody.  Every rejection has the code \<open>Unauthenticated\<close>.
\<close>

theorem check_exact:
  "(check cm ctx = None \<longleftrightarrow>
      (case presented ctx of
         None \<Rightarrow> False
       | Some t \<Rightarrow> t \<noteq> [] \<and> (t = cm_Token cm \<or> t = cm_AdminToken cm))) \<and>
   check cm ctx \<in> {None} \<union> Some ` range (ErrStatus Unauthenticated)"
proof (cases "presented ctx")
  case None
  with check_None [OF None, of cm] show ?thesis by auto
next
  case (Some t)
  with check_cases [of cm ctx] show ?thesis by (auto simp: valid_token_def)
qed

text \<open>
  Issued tokens work.  After any sequence of rotations and reissues, a client that sends the
  operator token or the admin token in its \<open>authorization\<close> header passes both interceptors: the
  handler runs and its answer is returned as it is.
\<close>

lemma issued_tokens_pass:
  assumes "token_ok (cm_Token cm)" and "token_ok (cm_AdminToken cm)"
    and "s = fold (cm_step E) ops (cm, w)"
    and "t = cm_Token (fst s) \<or> t = cm_AdminToken (fst s)"
  shows "ta_Unary (NewTokenAuth fst) h (bearer_ctx t) req s = h (bearer_ctx t) req s \<and>
    ta_Stream (NewTokenAuth fst) g (ss\<lparr>ss_context := bearer_ctx t\<rparr>) s =
      g (ss\<lparr>ss_context := bearer_ctx t\<rparr>) s"
proof -
  have "cm_tokens_ok (cm, w)"
    using assms(1,2) by (simp add: cm_tokens_ok_def cm_Token_def cm_AdminToken_def)
  with store.presents_later [of "(cm, w)" t E ops] assms(3,4)
  have "presented (bearer_ctx t) = Some t" "t \<noteq> []" by auto
  with assms(4) check_cases [of "fst s" "bearer_ctx t"] have "check (fst s) (bearer_ctx t) = None"
    by (simp add: valid_token_def)
  then show ?thesis by (simp add: ta_Unary_def ta_Stream_def NewTokenAuth_def)
qed

lemma issued_tokens_pass_example:
  "\<exists>s. s = fold (cm_step demo_env) [OpRotate all_names, OpReissue] (demo_cm, empty_world) \<and>
     ta_Unary (NewTokenAuth fst) (\<lambda>ctx req s. (Ok MEmpty, s)) (bearer_ctx (cm_Token (fst s))) MEmpty s
       = (Ok MEmpty, s)"
proof -
  define s where "s = fold (cm_step demo_env) [OpRotate all_names, OpReissue] (demo_cm, empty_world)"
  have "cm_Token (fst s) = cm_Token (fst s) \<or> cm_Token (fst s) = cm_AdminToken (fst s)" by blast
  from issued_tokens_pass [OF demo_cm_tokens s_def this, of "\<lambda>ctx req s. (Ok MEmpty, s)" MEmpty]
  show ?thesis using s_def by blast
qed



end
