(* ===== verification/Display_Service.thy ===== *)
theory Display_Service
  imports Bitmap Token_Auth
begin

text \<open>
  \<open>einkgrpc/displayservice.go\<close>: the implementation of the RPCs on top of a display and a
  \<open>CertManager\<close>.  The state of a handler call is the service, the \<open>CertManager\<close> behind its pointer,
  the goroutines it has started and the world.  Lengths of Go slices are far below \<open>2^63\<close>, so the
  64-bit counters of \<open>Refresh\<close> are integers.
\<close>

section \<open>State\<close>

text \<open>
  A nil display is \<open>None\<close>; of the callback \<open>rotateRequest\<close> the service only knows whether it is
  nil.  A goroutine calls it at once or after a sleep (in nanoseconds).
\<close>

record DisplayService =
  ds_display :: "dref option"
  ds_serverVersion :: string
  ds_startedAt :: int
  ds_rotateRequest :: bool
  ds_lastError :: string

datatype task = CallRotateRequest | CallRotateRequestAfter int

record svc_state =
  st_svc :: DisplayService
  st_cm :: CertManager
  st_tasks :: "task list"
  st_world :: world

definition NewDisplayService ::
    "env \<Rightarrow> dref option \<Rightarrow> string \<Rightarrow> bool \<Rightarrow> world \<Rightarrow> DisplayService \<times> world" where
  "NewDisplayService E d version rotateRequest w =
     (case time_now E w of
        (t, w1) \<Rightarrow>
          (\<lparr>ds_display = d, ds_serverVersion = version, ds_startedAt = t,
             ds_rotateRequest = rotateRequest, ds_lastError = []\<rparr>, w1))"

definition recordErr :: "env \<Rightarrow> go_error \<Rightarrow> svc_state \<Rightarrow> svc_state" where
  "recordErr E e s = s\<lparr>st_svc := (st_svc s)\<lparr>ds_lastError := err_text E e\<rparr>\<rparr>"

text \<open>\<open>time.Since\<close>, in nanoseconds, and \<open>Duration.Milliseconds\<close>.\<close>

definition time_since :: "env \<Rightarrow> int \<Rightarrow> svc_state \<Rightarrow> int \<times> svc_state" where
  "time_since E t0 s =
     (case time_now E (st_world s) of (t, w) \<Rightarrow> (t - t0, s\<lparr>st_world := w\<rparr>))"

definition milliseconds :: "int \<Rightarrow> int" where
  "milliseconds d = d sdiv 1000000"

definition spawn :: "task \<Rightarrow> svc_state \<Rightarrow> svc_state" where
  "spawn t s = s\<lparr>st_tasks := st_tasks s @ [t]\<rparr>"

definition boolToInt :: "bool \<Rightarrow> int" where
  "boolToInt b = (if b then 1 else 0)"

definition translateMode :: "pb_mode \<Rightarrow> waveform_mode" where
  "translateMode m =
     (if m = WAVEFORM_MODE_INIT then WaveformInit
      else if m = WAVEFORM_MODE_DIRECT_UPDATE then WaveformDirectUpdate
      else if m = WAVEFORM_MODE_GC16 then WaveformGC16
      else if m = WAVEFORM_MODE_GCC16 then WaveformGCC16
      else if m = WAVEFORM_MODE_ANIMATION then WaveformAnimation
      else if m = WAVEFORM_MODE_PARTIAL then WaveformPartial
      else if m = WAVEFORM_MODE_FULL then WaveformFull
      else if m = WAVEFORM_MODE_AUTO then WaveformAuto
      else if m = WAVEFORM_MODE_RESET then WaveformReset
      else if m = WAVEFORM_MODE_BLACK_WHITE then WaveformBlackWhite
      else if m = WAVEFORM_MODE_TRANSPARENT then WaveformTransparent
      else if m = WAVEFORM_MODE_REGAL then WaveformRegal
      else if m = WAVEFORM_MODE_SPECTRA_FULL_GC16 then WaveformSpectraFullGC16
      else if m = WAVEFORM_MODE_SPECTRA_GLARE_REDUCED then WaveformSpectraGlareReduced
      else if m = WAVEFORM_MODE_SPECTRA_GHOST_REDUCED then WaveformSpectraGhostReduced
      else if m = WAVEFORM_MODE_SPECTRA_FULL_GCC16 then WaveformSpectraFullGCC16
      else WaveformAuto)"

section \<open>Unary operations\<close>

definition not_opened :: go_error where
  "not_opened = ErrStatus FailedPrecondition ''display not opened''"

definition ds_GetInfo :: "env \<Rightarrow> svc_state \<Rightarrow> pb_DisplayInfo outcome \<times> svc_state" where
  "ds_GetInfo E s =
     (case ds_display (st_svc s) of
        None \<Rightarrow> (Err not_opened, s)
      | Some d \<Rightarrow>
     (case display_Info E d (st_world s) of
        (Err e, w) \<Rightarrow>
          (Err (ErrStatus Internal (''display.info: '' @ err_text E e)),
           recordErr E e (s\<lparr>st_world := w\<rparr>))
      | (Panic p, w) \<Rightarrow> (Panic p, s\<lparr>st_world := w\<rparr>)
      | (Ok i, w) \<Rightarrow>
          (Ok \<lparr>pdi_Width = di_width i, pdi_Height = di_height i,
               pdi_VirtualWidth = di_virtualWidth i, pdi_VirtualHeight = di_virtHeight i,
               pdi_Color = di_color i, pdi_AppVersion = ds_serverVersion (st_svc s)\<rparr>,
           s\<lparr>st_world := w\<rparr>)))"

definition ds_Health :: "env \<Rightarrow> svc_state \<Rightarrow> pb_HealthResponse outcome \<times> svc_state" where
  "ds_Health E s =
     (let last = ds_lastError (st_svc s)
      in case time_since E (ds_startedAt (st_svc s)) s of
           (d, s1) \<Rightarrow>
             (Ok \<lparr>phr_DeviceOpen = (ds_display (st_svc s) \<noteq> None), phr_LastError = last,
                  phr_ServerVersion = ds_serverVersion (st_svc s),
                  phr_UptimeSeconds = e_seconds E d\<rparr>, s1))"

definition ds_Fill :: "env \<Rightarrow> pb_FillRequest \<Rightarrow> svc_state \<Rightarrow> pb_RefreshResponse outcome \<times> svc_state"
  where
  "ds_Fill E req s =
     (case ds_display (st_svc s) of
        None \<Rightarrow> (Err not_opened, s)
      | Some d \<Rightarrow>
     (case time_now E (st_world s) of (t0, w0) \<Rightarrow>
     (case display_AcquireFrame E d w0 of
        (Err e, w1) \<Rightarrow>
          (Err (ErrStatus Internal (''acquireFrame: '' @ err_text E e)),
           recordErr E e (s\<lparr>st_world := w1\<rparr>))
      | (Panic p, w1) \<Rightarrow> (Panic p, s\<lparr>st_world := w1\<rparr>)
      | (Ok f, w1) \<Rightarrow>
     (case FillSolid f (pfr_Argb req) w1 of
        (Err e, w2) \<Rightarrow> (Err e, s\<lparr>st_world := w2\<rparr>)
      | (Panic p, w2) \<Rightarrow> (Panic p, s\<lparr>st_world := w2\<rparr>)
      | (Ok _, w2) \<Rightarrow>
     (case frame_Commit E f (translateMode (pfr_Mode req)) None w2 of
        (Err e, f', w3) \<Rightarrow>
          (Err (ErrStatus Internal (''commit: '' @ err_text E e)),
           recordErr E e (s\<lparr>st_world := w3\<rparr>))
      | (Panic p, f', w3) \<Rightarrow> (Panic p, s\<lparr>st_world := w3\<rparr>)
      | (Ok _, f', w3) \<Rightarrow>
     (case time_since E t0 (s\<lparr>st_world := w3\<rparr>) of (el, s4) \<Rightarrow>
          (Ok \<lparr>prr_ElapsedMs = milliseconds el\<rparr>, s4)))))))"

definition ds_SetOverlay :: "env \<Rightarrow> pb_SetOverlayRequest \<Rightarrow> svc_state \<Rightarrow> unit outcome \<times> svc_state" where
  "ds_SetOverlay E req s =
     (case ds_display (st_svc s) of
        None \<Rightarrow> (Err not_opened, s)
      | Some d \<Rightarrow>
     (case display_SetOverlay E d (pso_Enabled req) (st_world s) of
        (Err e, w) \<Rightarrow>
          (Err (ErrStatus Internal (''setOverlay: '' @ err_text E e)),
           recordErr E e (s\<lparr>st_world := w\<rparr>))
      | (Panic p, w) \<Rightarrow> (Panic p, s\<lparr>st_world := w\<rparr>)
      | (Ok _, w) \<Rightarrow> (Ok (), s\<lparr>st_world := w\<rparr>)))"

text \<open>\<open>UnixMilli\<close> rounds down.\<close>

definition ds_Rotate ::
    "env \<Rightarrow> string list \<Rightarrow> svc_state \<Rightarrow> pb_RotateResponse outcome \<times> svc_state" where
  "ds_Rotate E order s =
     (case cm_Rotate E order (st_cm s) (st_world s) of
        (Err e, cm, w) \<Rightarrow>
          (Err (ErrStatus Internal (''rotate: '' @ err_text E e)), s\<lparr>st_cm := cm, st_world := w\<rparr>)
      | (Panic p, cm, w) \<Rightarrow> (Panic p, s\<lparr>st_cm := cm, st_world := w\<rparr>)
      | (Ok _, cm, w) \<Rightarrow>
     (case time_now E w of (t, w1) \<Rightarrow>
     (let s1 = s\<lparr>st_cm := cm, st_world := w1\<rparr>;
          s2 = (if ds_rotateRequest (st_svc s1) then spawn CallRotateRequest s1 else s1)
      in (Ok \<lparr>pro_ScheduledAtMs = t div 1000000\<rparr>, s2))))"

definition ds_ReissueClientCert ::
    "env \<Rightarrow> svc_state \<Rightarrow> pb_ReissueClientCertResponse outcome \<times> svc_state" where
  "ds_ReissueClientCert E s =
     (case cm_ReissueClientCert E (st_cm s) (st_world s) of
        (Err e, cm, w) \<Rightarrow>
          (Err (ErrStatus Internal (''reissue: '' @ err_text E e)), s\<lparr>st_cm := cm, st_world := w\<rparr>)
      | (Panic p, cm, w) \<Rightarrow> (Panic p, s\<lparr>st_cm := cm, st_world := w\<rparr>)
      | (Ok _, cm, w) \<Rightarrow>
     (let s1 = s\<lparr>st_cm := cm, st_world := w\<rparr>;
          resp = \<lparr>prc_ClientCertPem = ClientCertPEM cm, prc_ClientKeyPem = ClientKeyPEM cm,
                  prc_ClientCertFingerprint = cm_ClientFingerprint E cm,
                  prc_ServerRestartInMs = 2000\<rparr>;
          s2 = (if ds_rotateRequest (st_svc s1)
                then spawn (CallRotateRequestAfter (2 * 1000000000)) s1 else s1)
      in (Ok resp, s2)))"

definition prom_text :: "int \<Rightarrow> bool \<Rightarrow> string" where
  "prom_text uptime open =
     ''# HELP tableaux_uptime_seconds Server uptime in seconds.'' @ [CHR 0x0A] @
     ''# TYPE tableaux_uptime_seconds counter'' @ [CHR 0x0A] @
     ''tableaux_uptime_seconds '' @ show_int uptime @ [CHR 0x0A] @
     ''# HELP tableaux_device_open Whether the EBC device is opened.'' @ [CHR 0x0A] @
     ''# TYPE tableaux_device_open gauge'' @ [CHR 0x0A] @
     ''tableaux_device_open '' @ show_int (boolToInt open) @ [CHR 0x0A]"

definition ds_GetMetrics :: "env \<Rightarrow> svc_state \<Rightarrow> pb_GetMetricsResponse outcome \<times> svc_state" where
  "ds_GetMetrics E s =
     (case time_since E (ds_startedAt (st_svc s)) s of
        (d, s1) \<Rightarrow>
          (Ok \<lparr>pgm_PromText = prom_text (e_seconds E d) (ds_display (st_svc s) \<noteq> None)\<rparr>, s1))"

section \<open>The upload\<close>

text \<open>\<open>errors.Is(err, io.EOF)\<close>.\<close>

fun is_EOF :: "go_error \<Rightarrow> bool" where
  "is_EOF ErrEOF = True"
| "is_EOF (ErrWrap s e) = is_EOF e"
| "is_EOF (ErrMsg s) = False"
| "is_EOF (Errno n) = False"
| "is_EOF ErrClosed = False"
| "is_EOF (ErrStatus c s) = False"

definition invalid :: "string \<Rightarrow> go_error" where
  "invalid s = ErrStatus InvalidArgument s"

text \<open>\<open>copy(pixels[written:end], data)\<close>; a bad slice expression panics.\<close>

definition copy_pixels :: "frame \<Rightarrow> int \<Rightarrow> int \<Rightarrow> byte list \<Rightarrow> world \<Rightarrow> unit outcome \<times> world" where
  "copy_pixels f lo hi data w =
     (if lo < 0 \<or> hi < lo \<or> int (fr_len f) < hi
      then (Panic ''slice bounds out of range'', w)
      else frame_update f (\<lambda>px. splice px (nat lo) (take (nat (hi - lo)) data)) w)"

text \<open>
  The receive loop.  It returns the number of bytes written, or the error after \<open>frame.Cancel()\<close>;
  with it the rest of the stream, the frame and the world.
\<close>

function refresh_loop ::
    "env \<Rightarrow> frame \<Rightarrow> int \<Rightarrow> int \<Rightarrow> refresh_stream \<Rightarrow> world
       \<Rightarrow> int outcome \<times> refresh_stream \<times> frame \<times> world" where
  "refresh_loop E f want written ss w =
     (case stream_Recv ss of
        (Inl e, ss1) \<Rightarrow>
          (if is_EOF e then (Ok written, ss1, f, w)
           else (Err e, ss1, snd (frame_Cancel E f w)))
      | (Inr chunk, ss1) \<Rightarrow>
          (case RefreshChunk_GetPayload (Some chunk) of
             Some (RefreshChunk_Data data) \<Rightarrow>
               (let hi = written + int (length data)
                in if hi > want
                   then (Err (invalid ''chunk overflows total_bytes''), ss1,
                         snd (frame_Cancel E f w))
                   else case copy_pixels f written hi data w of
                       (Ok _, w1) \<Rightarrow> refresh_loop E f want hi ss1 w1
                     | (Err e, w1) \<Rightarrow> (Err e, ss1, f, w1)
                     | (Panic p, w1) \<Rightarrow> (Panic p, ss1, f, w1))
           | _ \<Rightarrow> (Err (invalid ''expected data chunk after header''), ss1,
                   snd (frame_Cancel E f w))))"
  by pat_completeness auto
termination
  by (relation "measure (\<lambda>(E, f, want, written, ss, w). length (ss_chunks ss))")
    (auto simp: stream_Recv_def split: list.splits)

declare refresh_loop.simps [simp del]

definition region_of_pb :: "pb_Region option \<Rightarrow> Region option" where
  "region_of_pb r =
     (case r of None \<Rightarrow> None | Some r \<Rightarrow> Some (NewRegion (prg_X1 r) (prg_Y1 r) (prg_X2 r) (prg_Y2 r)))"

text \<open>The end of \<open>Refresh\<close>: committing the frame and answering.\<close>

definition refresh_finish ::
    "env \<Rightarrow> frame \<Rightarrow> pb_RefreshHeader \<Rightarrow> int \<Rightarrow> refresh_stream \<Rightarrow> svc_state
       \<Rightarrow> pb_RefreshResponse outcome \<times> svc_state" where
  "refresh_finish E f header t0 ss s =
     (case frame_Commit E f (translateMode (prh_Mode header)) (region_of_pb (prh_Region header))
         (st_world s) of
        (Err e, f2, w2) \<Rightarrow>
          (Err (ErrStatus Internal (''commit: '' @ err_text E e)),
           recordErr E e (s\<lparr>st_world := w2\<rparr>))
      | (Panic p, f2, w2) \<Rightarrow> (Panic p, s\<lparr>st_world := w2\<rparr>)
      | (Ok _, f2, w2) \<Rightarrow>
     (case time_since E t0 (s\<lparr>st_world := w2\<rparr>) of (el, s3) \<Rightarrow>
     (case ss_send ss of
        None \<Rightarrow> (Ok \<lparr>prr_ElapsedMs = milliseconds el\<rparr>, s3)
      | Some e \<Rightarrow> (Err e, s3))))"

text \<open>The part of \<open>Refresh\<close> after the header was accepted and the frame acquired.\<close>

definition refresh_body ::
    "env \<Rightarrow> frame \<Rightarrow> pb_RefreshHeader \<Rightarrow> int \<Rightarrow> refresh_stream \<Rightarrow> svc_state
       \<Rightarrow> pb_RefreshResponse outcome \<times> svc_state" where
  "refresh_body E f header t0 ss s =
     (let want = prh_TotalBytes header
      in if want < 0 \<or> want > int (fr_len f)
         then (Err (invalid (''total_bytes '' @ show_int want @ '' out of range'')),
               s\<lparr>st_world := snd (snd (frame_Cancel E f (st_world s)))\<rparr>)
         else
     (case refresh_loop E f want 0 ss (st_world s) of
        (Err e, ss1, f1, w1) \<Rightarrow> (Err e, s\<lparr>st_world := w1\<rparr>)
      | (Panic p, ss1, f1, w1) \<Rightarrow> (Panic p, s\<lparr>st_world := w1\<rparr>)
      | (Ok written, ss1, f1, w1) \<Rightarrow>
          (if written \<noteq> want
           then (Err (invalid (''got '' @ show_int written @ '' bytes, want '' @ show_int want)),
                 s\<lparr>st_world := snd (snd (frame_Cancel E f1 w1))\<rparr>)
           else refresh_finish E f1 header t0 ss1 (s\<lparr>st_world := w1\<rparr>))))"

text \<open>\<open>Refresh\<close>; an answer \<open>Ok r\<close> means that \<open>SendAndClose\<close> sent \<open>r\<close>.\<close>

definition ds_Refresh :: "env \<Rightarrow> refresh_stream \<Rightarrow> svc_state \<Rightarrow> pb_RefreshResponse outcome \<times> svc_state"
  where
  "ds_Refresh E ss s =
     (case ds_display (st_svc s) of
        None \<Rightarrow> (Err not_opened, s)
      | Some d \<Rightarrow>
     (case stream_Recv ss of
        (Inl e, ss1) \<Rightarrow> (Err e, s)
      | (Inr first, ss1) \<Rightarrow>
     (case RefreshChunk_GetPayload (Some first) of
        Some (RefreshChunk_Header (Some header)) \<Rightarrow>
     (case time_now E (st_world s) of (t0, w0) \<Rightarrow>
     (case display_AcquireFrame E d w0 of
        (Err e, w1) \<Rightarrow>
          (Err (ErrStatus Internal (''acquireFrame: '' @ err_text E e)),
           recordErr E e (s\<lparr>st_world := w1\<rparr>))
      | (Panic p, w1) \<Rightarrow> (Panic p, s\<lparr>st_world := w1\<rparr>)
      | (Ok f, w1) \<Rightarrow> refresh_body E f header t0 ss1 (s\<lparr>st_world := w1\<rparr>)))
      | _ \<Rightarrow> (Err (invalid ''first chunk must be RefreshHeader''), s))))"

section \<open>The upload protocol, abstractly\<close>

text \<open>
  What a sequence of chunks uploads: the concatenated data, or the error the client gets.  No
  frame, no memory, no counters: the specification that the code refines.
\<close>

fun receive :: "int \<Rightarrow> int \<Rightarrow> pb_RefreshChunk list \<Rightarrow> go_error \<Rightarrow> go_error + byte list" where
  "receive want n [] e = (if is_EOF e then Inr [] else Inl e)"
| "receive want n (c # cs) e =
     (case pck_Payload c of
        Some (RefreshChunk_Data d) \<Rightarrow>
          (if n + int (length d) > want then Inl (invalid ''chunk overflows total_bytes'')
           else (case receive want (n + int (length d)) cs e of
                   Inl x \<Rightarrow> Inl x
                 | Inr ds \<Rightarrow> Inr (d @ ds)))
      | _ \<Rightarrow> Inl (invalid ''expected data chunk after header''))"

definition upload ::
    "nat \<Rightarrow> pb_RefreshHeader \<Rightarrow> pb_RefreshChunk list \<Rightarrow> go_error \<Rightarrow> go_error + byte list" where
  "upload cap h cs e =
     (let want = prh_TotalBytes h
      in if want < 0 \<or> want > int cap
         then Inl (invalid (''total_bytes '' @ show_int want @ '' out of range''))
         else case receive want 0 cs e of
                Inl x \<Rightarrow> Inl x
              | Inr ds \<Rightarrow>
                  (if int (length ds) \<noteq> want
                   then Inl (invalid (''got '' @ show_int (int (length ds)) @ '' bytes, want ''
                               @ show_int want))
                   else Inr ds))"

lemma receive_bound: "receive want n cs e = Inr ds \<Longrightarrow> n \<le> want \<Longrightarrow> n + int (length ds) \<le> want"
  by (induction want n cs e arbitrary: ds rule: receive.induct)
    (fastforce split: if_splits option.splits pb_payload.splits sum.splits)+

lemma upload_length: "upload cap h cs e = Inr ds \<Longrightarrow> length ds \<le> cap \<and> int (length ds) = prh_TotalBytes h"
  by (auto simp: upload_def Let_def split: if_splits sum.splits)

text \<open>An error of the receiving phase is never a panic, and the loop is the specification.\<close>

definition with_pixels :: "frame \<Rightarrow> byte list \<Rightarrow> world \<Rightarrow> world" where
  "with_pixels f px w = w\<lparr>mem := (mem w)(fr_addr f \<mapsto> px)\<rparr>"

lemma with_pixels_sel [simp]:
  "mem (with_pixels f px w) = (mem w)(fr_addr f \<mapsto> px)" "hist (with_pixels f px w) = hist w"
  "fd_of (with_pixels f px w) = fd_of w" "files (with_pixels f px w) = files w"
  "ndisp (with_pixels f px w) = ndisp w"
  "with_pixels f px (with_pixels f py w) = with_pixels f px w"
  by (simp_all add: with_pixels_def)

lemma with_pixels_same: "mem w (fr_addr f) = Some px \<Longrightarrow> with_pixels f px w = w"
  by (simp add: with_pixels_def fun_upd_idem)

lemma copy_pixels_ok:
  assumes "mem w (fr_addr f) = Some px" and "0 \<le> n" and "n + int (length d) \<le> int (fr_len f)"
  shows "copy_pixels f n (n + int (length d)) d w = (Ok (), with_pixels f (splice px (nat n) d) w)"
  using assms by (simp add: copy_pixels_def frame_update_def with_pixels_def)

lemma frame_Cancel_live:
  "\<not> consumed f \<Longrightarrow>
     snd (frame_Cancel E f w) = (f\<lparr>consumed := True\<rparr>, snd (go_Munmap E (fr_addr f) w))"
  by (simp add: frame_Cancel_def split: prod.split)

lemma refresh_loop_receive:
  assumes "mem w (fr_addr f) = Some px" and "length px = fr_len f" and "\<not> consumed f"
    and "0 \<le> n" and "n \<le> want" and "want \<le> int (fr_len f)"
  shows "case receive want n (ss_chunks ss) (ss_end ss) of
      Inr ds \<Rightarrow> refresh_loop E f want n ss w =
        (Ok (n + int (length ds)), ss\<lparr>ss_chunks := []\<rparr>, f, with_pixels f (splice px (nat n) ds) w)
    | Inl e \<Rightarrow> (\<exists>px' ss' f'. length px' = length px \<and> refresh_loop E f want n ss w =
        (Err e, ss', f', snd (go_Munmap E (fr_addr f) (with_pixels f px' w))))"
  using assms
proof (induction "ss_chunks ss" arbitrary: ss n w px)
  case Nil
  have "stream_Recv ss = (Inl (ss_end ss), ss)" "ss\<lparr>ss_chunks := []\<rparr> = ss"
    using Nil.hyps [symmetric] by (simp_all add: stream_Recv_def)
  then show ?case
    using Nil.hyps [symmetric] Nil.prems
    by (auto simp: refresh_loop.simps [of E f want n ss w] with_pixels_same frame_Cancel_live
        intro!: exI [of _ px])
next
  case (Cons c cs)
  let ?ss = "ss\<lparr>ss_chunks := cs\<rparr>"
  have r: "stream_Recv ss = (Inr c, ?ss)"
    using Cons.hyps(2) [symmetric] by (simp add: stream_Recv_def)
  show ?case
  proof (cases "\<exists>d. pck_Payload c = Some (RefreshChunk_Data d) \<and> n + int (length d) \<le> want")
    case False
    then show ?thesis
      using r Cons.hyps(2) [symmetric] Cons.prems
      by (auto simp: refresh_loop.simps [of E f want n ss w] RefreshChunk_GetPayload_def
          with_pixels_same frame_Cancel_live Let_def intro!: exI [of _ px]
          split: option.splits pb_payload.splits)
  next
    case True
    then obtain d where d: "pck_Payload c = Some (RefreshChunk_Data d)"
      and le: "n + int (length d) \<le> want" by blast
    let ?px = "splice px (nat n) d" and ?n = "n + int (length d)"
    let ?w = "with_pixels f ?px w"
    have bound: "nat n + length d \<le> length px" using le Cons.prems by linarith
    have c: "copy_pixels f n ?n d w = (Ok (), ?w)"
      using Cons.prems le by (intro copy_pixels_ok) auto
    have step: "refresh_loop E f want n ss w = refresh_loop E f want ?n ?ss ?w"
      using r c d le
      by (simp add: refresh_loop.simps [of E f want n ss w] RefreshChunk_GetPayload_def Let_def)
    have IH: "case receive want ?n (ss_chunks ?ss) (ss_end ?ss) of
        Inr ds \<Rightarrow> refresh_loop E f want ?n ?ss ?w =
          (Ok (?n + int (length ds)), ?ss\<lparr>ss_chunks := []\<rparr>, f,
           with_pixels f (splice ?px (nat ?n) ds) ?w)
      | Inl e \<Rightarrow> (\<exists>px' ss' f'. length px' = length ?px \<and> refresh_loop E f want ?n ?ss ?w =
          (Err e, ss', f', snd (go_Munmap E (fr_addr f) (with_pixels f px' ?w))))"
      by (rule Cons.hyps(1)) (use Cons.prems bound le in simp_all)
    show ?thesis
    proof (cases "receive want ?n cs (ss_end ss)")
      case (Inl e)
      with IH d le step bound Cons.hyps(2) [symmetric] show ?thesis by (simp add: not_less)
    next
      case (Inr ds)
      then have "nat n + length d + length ds \<le> length px"
        using receive_bound [of want ?n cs "ss_end ss" ds] le Cons.prems by linarith
      then have "splice ?px (nat n + length d) ds = splice px (nat n) (d @ ds)"
        by (rule splice_splice)
      moreover have "nat ?n = nat n + length d" using Cons.prems by simp
      ultimately show ?thesis
        using Inr IH d le step bound Cons.hyps(2) [symmetric] by (simp add: not_less)
    qed
  qed
qed

section \<open>The body of Refresh refines the upload\<close>

lemma refresh_body_upload:
  assumes "mem (st_world s) (fr_addr f) = Some px" and "length px = fr_len f" and "\<not> consumed f"
  shows "case upload (fr_len f) h (ss_chunks ss) (ss_end ss) of
      Inr ds \<Rightarrow> refresh_body E f h t0 ss s =
        refresh_finish E f h t0 (ss\<lparr>ss_chunks := []\<rparr>)
          (s\<lparr>st_world := with_pixels f (copy_slice px ds) (st_world s)\<rparr>)
    | Inl e \<Rightarrow> (\<exists>px'. length px' = length px \<and> refresh_body E f h t0 ss s =
        (Err e, s\<lparr>st_world := snd (go_Munmap E (fr_addr f) (with_pixels f px' (st_world s)))\<rparr>))"
proof (cases "prh_TotalBytes h < 0 \<or> prh_TotalBytes h > int (fr_len f)")
  case True
  with assms show ?thesis
    by (auto simp: upload_def refresh_body_def frame_Cancel_live with_pixels_same
        intro!: exI [of _ px])
next
  case False
  let ?want = "prh_TotalBytes h"
  have b: "0 \<le> ?want" "?want \<le> int (fr_len f)" using False by auto
  note L = refresh_loop_receive [OF assms order_refl b, of E ss]
  show ?thesis
  proof (cases "receive ?want 0 (ss_chunks ss) (ss_end ss)")
    case (Inl e)
    with L obtain px' ss' f' where "length px' = length px" "refresh_loop E f ?want 0 ss (st_world s) =
        (Err e, ss', f', snd (go_Munmap E (fr_addr f) (with_pixels f px' (st_world s))))"
      by auto
    with Inl b show ?thesis by (auto simp: upload_def refresh_body_def Let_def)
  next
    case (Inr ds)
    have len: "length ds \<le> length px"
      using receive_bound [OF Inr b(1)] b(2) assms(2) by simp
    have l: "refresh_loop E f ?want 0 ss (st_world s) = (Ok (int (length ds)),
        ss\<lparr>ss_chunks := []\<rparr>, f, with_pixels f (copy_slice px ds) (st_world s))"
      using L Inr splice_zero [OF len] by simp
    show ?thesis
      using b l Inr assms(3)
      by (auto simp: upload_def refresh_body_def Let_def frame_Cancel_live
          intro!: exI [of _ "copy_slice px ds"])
  qed
qed

text \<open>What the device receives: the buffers sent so far.\<close>

fun is_send :: "event \<Rightarrow> bool" where
  "is_send (EvSend fd b bs r) = True"
| "is_send ev = False"

definition sends :: "world \<Rightarrow> event list" where
  "sends w = filter is_send (hist w)"

lemma sends_log [simp]: "sends (log_ev ev w) = (if is_send ev then ev # sends w else sends w)"
  by (simp add: sends_def)

lemma sends_with_pixels [simp]: "sends (with_pixels f px w) = sends w"
  by (simp add: sends_def)

lemma sends_munmap [simp]: "sends (snd (go_Munmap E a w)) = sends w"
  by (simp add: go_Munmap_def sys_munmap_def sends_def split: option.split)

lemma sends_now [simp]: "sends (snd (time_now E w)) = sends w"
  by (simp add: time_now_def Let_def)

lemma sends_hist: "hist w' = ev # ev2 # hist w \<Longrightarrow> \<not> is_send ev \<Longrightarrow> \<not> is_send ev2 \<Longrightarrow> sends w' = sends w"
  by (simp add: sends_def)

lemma refresh_finish_sends:
  assumes "mem (st_world s) (fr_addr f) = Some px" and "\<not> consumed f"
  shows "\<exists>r. sends (st_world (snd (refresh_finish E f h t0 ss s))) =
      EvSend (fd_of (st_world s) (fr_display f))
        (commit_info f (translateMode (prh_Mode h)) (region_of_pb (prh_Region h))) px r
      # sends (st_world s) \<and>
    (case r of
       None \<Rightarrow> (case ss_send ss of
                  None \<Rightarrow> is_ok (fst (refresh_finish E f h t0 ss s))
                | Some e \<Rightarrow> fst (refresh_finish E f h t0 ss s) = Err e)
     | Some n \<Rightarrow> \<exists>m. fst (refresh_finish E f h t0 ss s) = Err (ErrStatus Internal (''commit: '' @ m)))"
  using assms
  by (auto simp: refresh_finish_def frame_Commit_def ioctl_send_def Let_def commit_info_def
      time_since_def time_now_def recordErr_def split: option.splits)

lemma acquire_pixels:
  assumes "display_AcquireFrame E d w = (Ok f, w')"
  shows "\<exists>px. mem w' (fr_addr f) = Some px \<and> length px = fr_len f" and "\<not> consumed f"
    and "sends w' = sends w"
  by (rule acquire_Ok [OF assms], simp add: sends_def)+

section \<open>Mappings\<close>

text \<open>The address ranges the process still has mapped.\<close>

definition mapped :: "world \<Rightarrow> i64 set" where
  "mapped w = live_maps (hist w)"

definition munmap_works :: "env \<Rightarrow> bool" where
  "munmap_works E \<longleftrightarrow> (\<forall>h a. e_munmap E h a = None)"

lemma mapped_simps [simp]:
  "mapped (with_pixels f px w) = mapped w" "mapped (snd (time_now E w)) = mapped w"
  "mapped (snd (ioctl_send E fd b w)) = mapped w"
  by (simp_all add: mapped_def time_now_def Let_def)

lemma mapped_munmap:
  "munmap_works E \<Longrightarrow> mem w a = Some px \<Longrightarrow> mapped (snd (go_Munmap E a w)) = mapped w - {a}"
  by (simp add: mapped_def go_Munmap_def sys_munmap_def munmap_works_def)

lemma mapped_acquire:
  assumes "display_AcquireFrame E d w = (r, w')" and "mmap_fresh E"
  shows "case r of
      Ok f \<Rightarrow> fr_addr f \<notin> mapped w \<and> mapped w' = insert (fr_addr f) (mapped w)
    | _ \<Rightarrow> mapped w' = mapped w"
  using assms
  by (fastforce simp: mapped_def mmap_fresh_def display_AcquireFrame_def go_Mmap_def
      ioctl_get_buffer_def sys_mmap_def Let_def split: if_splits sum.splits prod.splits)

lemma mapped_commit:
  assumes "munmap_works E" and "mem w (fr_addr f) = Some px" and "\<not> consumed f"
    and "frame_Commit E f m rg w = (r, f', w')"
  shows "(r = Ok () \<and> mapped w' = mapped w - {fr_addr f}) \<or>
    (\<exists>e. r = Err e \<and> mapped w' = mapped w)"
proof -
  let ?b = "commit_info f m rg" and ?fd = "fd_of w (fr_display f)"
  obtain q w1 where s: "ioctl_send E ?fd ?b w = (q, w1)" by (metis surj_pair)
  have "mem w1 = mem w" "mapped w1 = mapped w"
    using ioctl_send_sel(1) [of E ?fd ?b w] mapped_simps(3) [of E ?fd ?b w] s by simp_all
  then show ?thesis
    using assms(2-4) s mapped_munmap [OF assms(1), of w1 "fr_addr f" px]
    by (auto simp: frame_Commit_def split: option.splits)
qed

lemma commit_not_panic: "frame_Commit E f m rg w \<noteq> (Panic p, x)"
  by (auto simp: frame_Commit_def split: option.splits prod.splits)

text \<open>The exact outcome of a drawing RPC for the address space: \<open>released\<close>, or one leaked mapping.\<close>

definition released :: "world \<Rightarrow> 'a outcome \<Rightarrow> world \<Rightarrow> bool" where
  "released w r w' \<longleftrightarrow>
     (\<not> is_panic r \<and> mapped w' = mapped w) \<or>
     (\<exists>a m. r = Err (ErrStatus Internal (''commit: '' @ m)) \<and> a \<notin> mapped w \<and>
        mapped w' = insert a (mapped w))"

lemma released_leak:
  "a \<notin> mapped w \<Longrightarrow> mapped w' = insert a (mapped w) \<Longrightarrow>
     released w (Err (ErrStatus Internal (''commit: '' @ m))) w'"
  unfolding released_def by blast

lemma released_same: "\<not> is_panic r \<Longrightarrow> mapped w' = mapped w \<Longrightarrow> released w r w'"
  by (simp add: released_def)

lemma time_since_sel [simp]:
  "mapped (st_world (snd (time_since E t0 s))) = mapped (st_world s)"
  "st_svc (snd (time_since E t0 s)) = st_svc s"
  by (simp_all add: time_since_def time_now_def mapped_def Let_def)

lemma recordErr_world [simp]: "st_world (recordErr E e s) = st_world s"
  by (simp add: recordErr_def)

lemma finish_released:
  assumes "munmap_works E" and "mem (st_world s) (fr_addr f) = Some px" and "\<not> consumed f"
    and "fr_addr f \<notin> mapped w" and "mapped (st_world s) = insert (fr_addr f) (mapped w)"
    and "refresh_finish E f h t0 ss s = (r, s')"
  shows "released w r (st_world s')"
proof -
  obtain q f' w' where c: "frame_Commit E f (translateMode (prh_Mode h))
      (region_of_pb (prh_Region h)) (st_world s) = (q, f', w')"
    by (metis prod_cases3)
  from mapped_commit [OF assms(1-3) c] show ?thesis
  proof (elim disjE exE conjE)
    assume q: "q = Ok ()" "mapped w' = mapped (st_world s) - {fr_addr f}"
    obtain el s3 where t: "time_since E t0 (s\<lparr>st_world := w'\<rparr>) = (el, s3)" by (metis surj_pair)
    have "s' = s3" "\<not> is_panic r"
      using assms(6) c q(1) t by (auto simp: refresh_finish_def split: option.splits)
    then show ?thesis
      using q(2) assms(4,5) time_since_sel(1) [of E t0 "s\<lparr>st_world := w'\<rparr>"] t
      by (intro released_same) simp_all
  next
    fix e assume q: "q = Err e" "mapped w' = mapped (st_world s)"
    have "r = Err (ErrStatus Internal (''commit: '' @ err_text E e))" "st_world s' = w'"
      using assms(6) c q(1) by (auto simp: refresh_finish_def)
    then show ?thesis using q(2) assms(4,5) by (simp only: released_leak)
  qed
qed

lemma body_released:
  assumes "munmap_works E" and "mem (st_world s) (fr_addr f) = Some px" and "length px = fr_len f"
    and "\<not> consumed f"
    and "fr_addr f \<notin> mapped w" and "mapped (st_world s) = insert (fr_addr f) (mapped w)"
    and "refresh_body E f h t0 ss s = (r, s')"
  shows "released w r (st_world s')"
proof (cases "upload (fr_len f) h (ss_chunks ss) (ss_end ss)")
  case (Inl e)
  with refresh_body_upload [OF assms(2-4), of E h t0 ss] assms(7) obtain px' where
    "r = Err e" "st_world s' = snd (go_Munmap E (fr_addr f) (with_pixels f px' (st_world s)))"
    by auto
  then show ?thesis
    using mapped_munmap [OF assms(1), of "with_pixels f px' (st_world s)" "fr_addr f" px'] assms(5,6)
    by (simp add: released_def)
next
  case (Inr ds)
  let ?s = "s\<lparr>st_world := with_pixels f (copy_slice px ds) (st_world s)\<rparr>"
  have f: "refresh_finish E f h t0 (ss\<lparr>ss_chunks := []\<rparr>) ?s = (r, s')"
    using refresh_body_upload [OF assms(2-4), of E h t0 ss] assms(7) Inr by simp
  show ?thesis
    by (rule finish_released [OF assms(1) _ assms(4) assms(5) _ f, of "copy_slice px ds"])
      (simp_all add: assms(6))
qed

lemma FillSolid_pixels:
  "mem w (fr_addr f) = Some px \<Longrightarrow>
     FillSolid f argb w = (Ok (), with_pixels f (fill_bytes (di_color (fr_info f)) argb px) w)"
  by (simp add: FillSolid_def frame_update_def with_pixels_def)

section \<open>A concrete service\<close>

text \<open>A service on the display of the plain environment: 2 by 2 pixels in colour, 12 bytes.\<close>

definition demo_svc :: svc_state where
  "demo_svc = \<lparr>st_svc = \<lparr>ds_display = Some 0, ds_serverVersion = ''0.1.0'', ds_startedAt = 0,
       ds_rotateRequest = True, ds_lastError = []\<rparr>,
     st_cm = demo_cm, st_tasks = [], st_world = empty_world\<lparr>fd_of := (\<lambda>_. 3), ndisp := 1\<rparr>\<rparr>"

definition demo_header :: pb_RefreshHeader where
  "demo_header = \<lparr>prh_Mode = WAVEFORM_MODE_GC16, prh_Region = None, prh_TotalBytes = 3\<rparr>"

definition demo_stream :: refresh_stream where
  "demo_stream = \<lparr>ss_context = \<lparr>ctx_incoming = None\<rparr>,
     ss_chunks = [\<lparr>pck_Payload = Some (RefreshChunk_Header (Some demo_header))\<rparr>,
       \<lparr>pck_Payload = Some (RefreshChunk_Data [1, 2])\<rparr>, \<lparr>pck_Payload = Some (RefreshChunk_Data [3])\<rparr>],
     ss_end = ErrEOF, ss_send = None\<rparr>"

lemma demo_svc_sel:
  "ds_display (st_svc demo_svc) = Some 0" "fd_of (st_world demo_svc) d = 3"
  "hist (st_world demo_svc) = []"
  by (simp_all add: demo_svc_def empty_world_def)

lemma demo_acquire:
  "4096 \<notin> live_maps (hist w) \<Longrightarrow> fd_of w 0 = 3 \<Longrightarrow>
     \<exists>f w'. display_AcquireFrame demo_env 0 w = (Ok f, w') \<and> fr_len f = 12 \<and> fr_addr f = 4096 \<and>
       fd_of w' = fd_of w \<and> fr_display f = 0"
  by (simp add: display_AcquireFrame_def ioctl_get_buffer_def go_Mmap_def sys_mmap_def demo_env_def
      FrameByteCount_def info_of_buf_def newDisplayInfo_def demo_info_def wrap64_def Let_def)

section \<open>Refresh as a whole\<close>

lemma refresh_upload:
  assumes "ds_display (st_svc s) = Some d" and "ss_chunks ss = c # cs"
    and "pck_Payload c = Some (RefreshChunk_Header (Some h))"
    and "display_AcquireFrame E d (snd (time_now E (st_world s))) = (Ok f, w1)"
    and "frame_bytes f w1 = Some px"
    and "(res, s') = ds_Refresh E ss s"
  shows "case upload (fr_len f) h cs (ss_end ss) of
      Inl e \<Rightarrow> res = Err e \<and> sends (st_world s') = sends (st_world s)
    | Inr ds \<Rightarrow> \<exists>r. sends (st_world s') =
          EvSend (fd_of w1 (fr_display f))
            (commit_info f (translateMode (prh_Mode h)) (region_of_pb (prh_Region h)))
            (ds @ drop (length ds) px) r # sends (st_world s) \<and>
        (case r of
           None \<Rightarrow> (case ss_send ss of None \<Rightarrow> is_ok res | Some e \<Rightarrow> res = Err e)
         | Some n \<Rightarrow> \<exists>m. res = Err (ErrStatus Internal (''commit: '' @ m)))"
proof -
  let ?ss = "ss\<lparr>ss_chunks := cs\<rparr>" and ?s = "s\<lparr>st_world := w1\<rparr>"
  obtain t0 w0 where t: "time_now E (st_world s) = (t0, w0)" by (metis surj_pair)
  have a: "display_AcquireFrame E d w0 = (Ok f, w1)" using assms(4) t by simp
  have px: "mem w1 (fr_addr f) = Some px" "length px = fr_len f" "\<not> consumed f"
    using acquire_pixels [OF a] assms(5) by (auto simp: frame_bytes_def)
  have sw: "sends w1 = sends (st_world s)"
    using acquire_pixels(3) [OF a] sends_now [of E "st_world s"] t by simp
  have e: "ds_Refresh E ss s = refresh_body E f h t0 ?ss ?s"
    using assms(1-3) t a
    by (simp add: ds_Refresh_def stream_Recv_def RefreshChunk_GetPayload_def)
  have B: "case upload (fr_len f) h cs (ss_end ss) of
      Inr ds \<Rightarrow> refresh_body E f h t0 ?ss ?s =
        refresh_finish E f h t0 (?ss\<lparr>ss_chunks := []\<rparr>)
          (?s\<lparr>st_world := with_pixels f (copy_slice px ds) w1\<rparr>)
    | Inl e \<Rightarrow> (\<exists>px'. length px' = length px \<and> refresh_body E f h t0 ?ss ?s =
        (Err e, ?s\<lparr>st_world := snd (go_Munmap E (fr_addr f) (with_pixels f px' w1))\<rparr>))"
    using refresh_body_upload [of ?s f px E h t0 ?ss] px by (simp split: sum.splits)
  show ?thesis
  proof (cases "upload (fr_len f) h cs (ss_end ss)")
    case (Inl x)
    with B e assms(6) sw show ?thesis by auto
  next
    case (Inr ds)
    have "copy_slice px ds = ds @ drop (length ds) px"
      using upload_length [OF Inr] px(2) by (simp add: copy_slice_def)
    note cp = this
    let ?ss2 = "?ss\<lparr>ss_chunks := []\<rparr>" and ?w2 = "with_pixels f (copy_slice px ds) w1"
    let ?s2 = "?s\<lparr>st_world := ?w2\<rparr>"
    have eq: "refresh_finish E f h t0 ?ss2 ?s2 = (res, s')" using Inr B e assms(6) by simp
    have m: "mem (st_world ?s2) (fr_addr f) = Some (ds @ drop (length ds) px)"
      by (simp add: cp)
    have x: "ss_send ?ss2 = ss_send ss" "sends (st_world ?s2) = sends (st_world s)"
      "fd_of (st_world ?s2) = fd_of w1"
      by (simp_all add: sw)
    show ?thesis
      using refresh_finish_sends [OF m px(3), of E h t0 ?ss2] unfolding eq fst_conv snd_conv x Inr
      by simp
  qed
qed

section \<open>Properties\<close>

text \<open>
  C2. \<open>Refresh\<close> implements the upload protocol.  Once the header was accepted and a frame acquired:
  when the protocol rejects the chunks (a bad \<open>total_bytes\<close>, a chunk that is not data, an overflow,
  a short upload, a broken stream), the client gets exactly that error and the panel gets nothing;
  when it accepts them, exactly one buffer is sent, which holds the concatenated data followed by
  the untouched rest of the frame, with the translated mode and the requested window, and the RPC
  fails then only if the device or the answer does.
\<close>

theorem refresh_implements_upload:
  assumes "ds_display (st_svc s) = Some d" and "ss_chunks ss = c # cs"
    and "pck_Payload c = Some (RefreshChunk_Header (Some h))"
    and "display_AcquireFrame E d (snd (time_now E (st_world s))) = (Ok f, w1)"
    and "frame_bytes f w1 = Some px"
    and "(res, s') = ds_Refresh E ss s"
  shows "case upload (fr_len f) h cs (ss_end ss) of
      Inl e \<Rightarrow> res = Err e \<and> sends (st_world s') = sends (st_world s)
    | Inr ds \<Rightarrow> \<exists>r. sends (st_world s') =
          EvSend (fd_of w1 (fr_display f))
            (commit_info f (translateMode (prh_Mode h)) (region_of_pb (prh_Region h)))
            (ds @ drop (length ds) px) r # sends (st_world s) \<and>
        (case r of
           None \<Rightarrow> (case ss_send ss of None \<Rightarrow> is_ok res | Some e \<Rightarrow> res = Err e)
         | Some n \<Rightarrow> \<exists>m. res = Err (ErrStatus Internal (''commit: '' @ m)))"
  by (rule refresh_upload [OF assms])

lemma refresh_implements_upload_witness:
  "\<exists>f w1 s' r px. (is_ok (fst (ds_Refresh demo_env demo_stream demo_svc)) \<or> r \<noteq> None) \<and>
     s' = snd (ds_Refresh demo_env demo_stream demo_svc) \<and>
     sends (st_world s') =
       [EvSend 3 (commit_info f WaveformGC16 None) ([1, 2, 3] @ drop 3 px) r]"
proof -
  let ?w = "snd (time_now demo_env (st_world demo_svc))"
  have w: "4096 \<notin> live_maps (hist ?w)" "fd_of ?w 0 = 3"
    by (simp_all add: time_now_def demo_svc_sel Let_def)
  obtain f w1 where a: "display_AcquireFrame demo_env 0 ?w = (Ok f, w1)" and
    f: "fr_len f = 12" "fd_of w1 = fd_of ?w"
    using demo_acquire [OF w] by blast
  obtain px where px: "frame_bytes f w1 = Some px"
    using acquire_pixels [OF a] by (auto simp: frame_bytes_def)
  obtain res s' where R: "(res, s') = ds_Refresh demo_env demo_stream demo_svc"
    by (metis surj_pair)
  let ?cs = "tl (ss_chunks demo_stream)"
  have c: "ss_chunks demo_stream =
      \<lparr>pck_Payload = Some (RefreshChunk_Header (Some demo_header))\<rparr> # ?cs"
    by (simp add: demo_stream_def)
  have u: "upload (fr_len f) demo_header ?cs (ss_end demo_stream) = Inr [1, 2, 3]"
    by (simp add: upload_def demo_header_def demo_stream_def f)
  have x: "sends (st_world demo_svc) = []" "fd_of w1 = (\<lambda>_. 3)" "ss_send demo_stream = None"
    "translateMode (prh_Mode demo_header) = WaveformGC16" "region_of_pb (prh_Region demo_header) = None"
    by (simp_all add: sends_def demo_svc_sel f time_now_def Let_def demo_stream_def
        demo_header_def translateMode_def pb_mode_consts region_of_pb_def fun_eq_iff)
  have p: "pck_Payload \<lparr>pck_Payload = Some (RefreshChunk_Header (Some demo_header))\<rparr> =
      Some (RefreshChunk_Header (Some demo_header))" by simp
  from refresh_implements_upload [OF demo_svc_sel(1) c p a px R]
  obtain r where r: "sends (st_world s') =
      [EvSend 3 (commit_info f WaveformGC16 None) ([1, 2, 3] @ drop (length [1, 2, 3 :: byte]) px) r]"
    "case r of None \<Rightarrow> (case None of None \<Rightarrow> is_ok res | Some e \<Rightarrow> res = Err e)
       | Some n \<Rightarrow> \<exists>m. res = Err (ErrStatus Internal (''commit: '' @ m))"
    unfolding u x sum.case by (elim exE conjE)
  have "length [1, 2, 3 :: byte] = 3" by simp
  with r(1) have s: "sends (st_world s') =
      [EvSend 3 (commit_info f WaveformGC16 None) ([1, 2, 3] @ drop 3 px) r]" by (simp only:)
  have "is_ok res \<or> r \<noteq> None" using r(2) by (cases r) auto
  with R s show ?thesis by (metis fst_conv snd_conv)
qed

text \<open>The two drawing operations and the address space.\<close>

lemma drawing_released:
  assumes "mmap_fresh E" and "munmap_works E"
  shows "(case ds_Refresh E ss s of (r, s') \<Rightarrow> released (st_world s) r (st_world s')) \<and>
    (case ds_Fill E req s of (r, s') \<Rightarrow> released (st_world s) r (st_world s'))"
proof (cases "ds_display (st_svc s)")
  case None
  then show ?thesis by (simp add: ds_Refresh_def ds_Fill_def released_def)
next
  case (Some d)
  obtain t0 w0 where t: "time_now E (st_world s) = (t0, w0)" by (metis surj_pair)
  obtain q w1 where a: "display_AcquireFrame E d w0 = (q, w1)" by (metis surj_pair)
  have m0: "mapped w0 = mapped (st_world s)" using mapped_simps(2) [of E "st_world s"] t by simp
  note m1 = mapped_acquire [OF a assms(1)]
  show ?thesis
  proof (cases q)
    case (Ok f)
    obtain px where px: "mem w1 (fr_addr f) = Some px" "length px = fr_len f" "\<not> consumed f"
      using acquire_pixels [OF a [unfolded Ok]] by auto
    have fresh: "fr_addr f \<notin> mapped (st_world s)" "mapped w1 = insert (fr_addr f) (mapped (st_world s))"
      using m1 m0 Ok by simp_all
    have body: "released (st_world s) r (st_world s')"
      if "refresh_body E f h t0 ss1 (s\<lparr>st_world := w1\<rparr>) = (r, s')" for h ss1 r s'
      by (rule body_released [OF assms(2) _ px(2,3) fresh(1) _ that]) (simp_all add: px fresh)
    let ?px = "fill_bytes (di_color (fr_info f)) (pfr_Argb req) px"
    obtain c f' w3 where c: "frame_Commit E f (translateMode (pfr_Mode req)) None
        (with_pixels f ?px w1) = (c, f', w3)" by (metis prod_cases3)
    have "mem (with_pixels f ?px w1) (fr_addr f) = Some ?px" by simp
    note mc = mapped_commit [OF assms(2) this px(3) c]
    have "case ds_Fill E req s of (r, s') \<Rightarrow> released (st_world s) r (st_world s')"
      using Some t a Ok FillSolid_pixels [OF px(1), of "pfr_Argb req"] c mc fresh
      by (auto simp: ds_Fill_def released_def time_since_def time_now_def recordErr_def mapped_def
          Let_def)
    then show ?thesis
      using Some t a Ok body
      by (auto simp: ds_Refresh_def released_def m0 split: sum.splits prod.splits option.splits
          pb_payload.splits)
  next
    case (Err e)
    then show ?thesis
      using Some t a m1 m0
      by (auto simp: ds_Refresh_def ds_Fill_def released_def recordErr_def
          split: sum.splits prod.splits option.splits pb_payload.splits)
  next
    case (Panic p)
    with acquire_not_Ok(3) [OF a] show ?thesis by simp
  qed
qed

text \<open>
  Neither drawing RPC leaks or panics, except in one case.  With an \<open>mmap\<close> that gives fresh
  addresses and a working \<open>munmap\<close>, \<open>Fill\<close> and \<open>Refresh\<close> end, whatever the client, the device and
  the stream do, with as many mappings as before and without a panic; the exception is a commit
  that the device refuses, after which exactly one mapping of the frame stays behind.
\<close>

lemma drawing_releases_frames:
  assumes "mmap_fresh E" and "munmap_works E"
  shows "(case ds_Refresh E ss s of (r, s') \<Rightarrow> released (st_world s) r (st_world s')) \<and>
    (case ds_Fill E req s of (r, s') \<Rightarrow> released (st_world s) r (st_world s'))"
  by (rule drawing_released [OF assms])

lemma demo_munmap: "munmap_works demo_env"
  by (simp add: munmap_works_def demo_env_def)

lemma drawing_releases_frames_example:
  "mmap_fresh demo_env \<and> munmap_works demo_env \<and>
   (case ds_Refresh demo_env demo_stream demo_svc of
      (r, s') \<Rightarrow> released (st_world demo_svc) r (st_world s'))"
  using drawing_releases_frames [OF demo_mmap_fresh demo_munmap, of demo_svc demo_stream,
      THEN conjunct1] demo_mmap_fresh demo_munmap by (intro conjI)

text \<open>
  A refused commit leaks.  When the device refuses the buffer (\<open>EBC_SEND_BUFFER\<close> fails),
  \<open>Fill\<close> returns without cancelling the frame: the mapping it acquired is still there after the RPC, and
  the only handle on it is gone.
\<close>

lemma refused_commit_leaks:
  assumes "ds_display (st_svc s) = Some d" and "mmap_fresh E"
    and "display_AcquireFrame E d (snd (time_now E (st_world s))) = (Ok f, w1)"
    and "\<forall>h fd b. e_send E h fd b \<noteq> None"
  shows "fr_addr f \<notin> mapped (st_world s) \<and>
    mapped (st_world (snd (ds_Fill E req s))) = insert (fr_addr f) (mapped (st_world s)) \<and>
    \<not> is_ok (fst (ds_Fill E req s))"
proof -
  obtain t0 w0 where t: "time_now E (st_world s) = (t0, w0)" by (metis surj_pair)
  have a: "display_AcquireFrame E d w0 = (Ok f, w1)" using assms(3) t by simp
  obtain px where px: "mem w1 (fr_addr f) = Some px" "\<not> consumed f"
    using acquire_pixels [OF a] by auto
  have m: "fr_addr f \<notin> mapped (st_world s)" "mapped w1 = insert (fr_addr f) (mapped (st_world s))"
    using mapped_acquire [OF a assms(2)] mapped_simps(2) [of E "st_world s"] t by simp_all
  let ?w2 = "with_pixels f (fill_bytes (di_color (fr_info f)) (pfr_Argb req) px) w1"
  let ?b = "commit_info f (translateMode (pfr_Mode req)) None"
  obtain n where n: "e_send E (hist ?w2) (fd_of ?w2 (fr_display f)) ?b = Some n"
    using assms(4) by (metis not_None_eq)
  have c: "frame_Commit E f (translateMode (pfr_Mode req)) None ?w2 =
      (Err (ErrWrap ''EBC_SEND_BUFFER'' (Errno n)), f, snd (ioctl_send E (fd_of ?w2 (fr_display f)) ?b ?w2))"
    using px(2) n by (simp add: frame_Commit_def ioctl_send_def Let_def)
  have "ds_Fill E req s = (Err (ErrStatus Internal (''commit: '' @
        err_text E (ErrWrap ''EBC_SEND_BUFFER'' (Errno n)))),
      recordErr E (ErrWrap ''EBC_SEND_BUFFER'' (Errno n))
        (s\<lparr>st_world := snd (ioctl_send E (fd_of ?w2 (fr_display f)) ?b ?w2)\<rparr>))"
    unfolding ds_Fill_def assms(1) option.case t prod.case a outcome.case
      FillSolid_pixels [OF px(1)] c by (rule refl)
  with m mapped_simps(3) [of E "fd_of ?w2 (fr_display f)" ?b ?w2] show ?thesis by simp
qed

definition refusing_env :: env where
  "refusing_env = demo_env\<lparr>e_send := (\<lambda>h fd b. Some 5)\<rparr>"

lemma refused_commit_leaks_example:
  "\<exists>a. mapped (st_world (snd (ds_Fill refusing_env \<lparr>pfr_Argb = 0, pfr_Mode = 3\<rparr> demo_svc))) = {a}"
proof -
  let ?w = "snd (time_now refusing_env (st_world demo_svc))"
  obtain f w1 where a: "display_AcquireFrame refusing_env 0 ?w = (Ok f, w1)"
    by (simp add: refusing_env_def time_now_def demo_svc_sel display_AcquireFrame_def
        ioctl_get_buffer_def go_Mmap_def sys_mmap_def demo_env_def FrameByteCount_def
        info_of_buf_def newDisplayInfo_def demo_info_def wrap64_def Let_def)
  have e: "mmap_fresh refusing_env" "\<forall>h fd b. e_send refusing_env h fd b \<noteq> None"
    using demo_mmap_fresh by (simp_all add: refusing_env_def mmap_fresh_def)
  have "mapped (st_world demo_svc) = {}" by (simp add: mapped_def demo_svc_sel)
  with refused_commit_leaks [OF demo_svc_sel(1) e(1) a e(2)] show ?thesis by auto
qed

definition bare_name :: "string \<Rightarrow> string" where
  "bare_name s = map lower_byte (filter (\<lambda>c. c \<noteq> CHR ''_'') (trim_prefix s ''WAVEFORM_MODE_''))"

text \<open>
  Wire modes and kernel modes.  \<open>translateMode\<close> sends each of the sixteen known enum numbers to
  the kernel mode with the same name (up to case, the prefix \<open>WAVEFORM_MODE_\<close> and underscores),
  which is the number minus one, and \<open>UNSPECIFIED\<close> and every unknown number to \<open>Auto\<close>.
\<close>

lemma translateMode_by_name:
  "list_all (\<lambda>(m, name). bare_name name = map lower_byte (WaveformMode_String (translateMode m)))
     (tl WaveformMode_name) \<and>
   translateMode m = (if m \<in> fst ` set (tl WaveformMode_name) then m - 1 else WaveformAuto)"
proof
  show "list_all (\<lambda>(m, name). bare_name name = map lower_byte (WaveformMode_String (translateMode m)))
     (tl WaveformMode_name)"
    by code_simp
  show "translateMode m = (if m \<in> fst ` set (tl WaveformMode_name) then m - 1 else WaveformAuto)"
    by (simp add: translateMode_def WaveformMode_name_def pb_mode_consts waveform_consts)
qed

text \<open>
  Without a display, every RPC that needs one fails with \<open>FailedPrecondition\<close> and changes
  nothing at all, while \<open>Health\<close> answers and reports the missing device.
\<close>

lemma no_display_fails_precondition:
  "let s0 = s\<lparr>st_svc := (st_svc s)\<lparr>ds_display := None\<rparr>\<rparr>;
       e = ErrStatus FailedPrecondition ''display not opened''
   in ds_GetInfo E s0 = (Err e, s0) \<and> ds_Fill E fr s0 = (Err e, s0) \<and>
      ds_SetOverlay E so s0 = (Err e, s0) \<and> ds_Refresh E ss s0 = (Err e, s0) \<and>
      (case fst (ds_Health E s0) of
         Ok h \<Rightarrow> \<not> phr_DeviceOpen h \<and> phr_LastError h = ds_lastError (st_svc s)
       | _ \<Rightarrow> False)"
  by (simp add: ds_GetInfo_def ds_Fill_def ds_SetOverlay_def ds_Refresh_def ds_Health_def
      not_opened_def Let_def split: prod.split)

definition told :: "'a outcome \<Rightarrow> svc_state \<Rightarrow> svc_state \<Rightarrow> bool" where
  "told r s s' \<longleftrightarrow>
     (case r of
        Ok x \<Rightarrow> ds_lastError (st_svc s') = ds_lastError (st_svc s)
      | Err e \<Rightarrow> (e = not_opened \<and> s' = s) \<or>
          (\<exists>step. step \<in> {''display.info: '', ''acquireFrame: '', ''commit: '', ''setOverlay: ''} \<and>
             e = ErrStatus Internal (step @ ds_lastError (st_svc s')))
      | Panic p \<Rightarrow> False)"

lemma told_internal:
  "step \<in> {''display.info: '', ''acquireFrame: '', ''commit: '', ''setOverlay: ''} \<Longrightarrow>
     told (Err (ErrStatus Internal (step @ err_text E e))) s (recordErr E e s')"
  unfolding told_def recordErr_def by auto

lemma Fill_told: "case ds_Fill E req s of (r, s') \<Rightarrow> told r s s'"
proof (cases "ds_display (st_svc s)")
  case None
  then show ?thesis by (simp add: ds_Fill_def told_def)
next
  case (Some d)
  obtain t0 w0 where t: "time_now E (st_world s) = (t0, w0)" by (metis surj_pair)
  obtain q w1 where a: "display_AcquireFrame E d w0 = (q, w1)" by (metis surj_pair)
  show ?thesis
  proof (cases q)
    case (Ok f)
    obtain px where px: "mem w1 (fr_addr f) = Some px"
      using acquire_pixels [OF a [unfolded Ok]] by auto
    let ?w2 = "with_pixels f (fill_bytes (di_color (fr_info f)) (pfr_Argb req) px) w1"
    obtain c f' w3 where c: "frame_Commit E f (translateMode (pfr_Mode req)) None ?w2 = (c, f', w3)"
      by (metis prod_cases3)
    obtain el s4 where el: "time_since E t0 (s\<lparr>st_world := w3\<rparr>) = (el, s4)" by (metis surj_pair)
    then have "st_svc s4 = st_svc s" using time_since_sel(2) [of E t0 "s\<lparr>st_world := w3\<rparr>"] by simp
    then have ok: "told (Ok x) s s4" for x :: pb_RefreshResponse by (simp add: told_def)
    note bad = told_internal [of "''commit: ''"]
    show ?thesis
      using Some t a Ok FillSolid_pixels [OF px, of "pfr_Argb req"] c el ok bad commit_not_panic
      by (cases c) (simp_all add: ds_Fill_def)
  next
    case (Err e)
    with Some t a told_internal [of "''acquireFrame: ''"] show ?thesis by (simp add: ds_Fill_def)
  next
    case (Panic p)
    with acquire_not_Ok(3) [OF a] show ?thesis by simp
  qed
qed

text \<open>
  \<open>Health\<close> tells the last failure.  When \<open>GetInfo\<close>, \<open>Fill\<close> or \<open>SetOverlay\<close> fails on the device, the
  client gets \<open>Internal\<close> with the failed step and the cause, and the next \<open>Health\<close> reports exactly
  that cause; when they succeed, or fail for want of a display, the reported error is unchanged.
\<close>

lemma health_reports_last_error:
  "(case ds_GetInfo E s of (r, s') \<Rightarrow> told r s s') \<and>
   (case ds_Fill E req s of (r, s') \<Rightarrow> told r s s') \<and>
   (case ds_SetOverlay E so s of (r, s') \<Rightarrow> told r s s') \<and>
   (case fst (ds_Health E s) of Ok h \<Rightarrow> phr_LastError h = ds_lastError (st_svc s) | _ \<Rightarrow> False)"
proof (intro conjI)
  show "case ds_GetInfo E s of (r, s') \<Rightarrow> told r s s'"
    by (auto simp: ds_GetInfo_def told_def display_Info_def recordErr_def Let_def
        split: option.splits outcome.splits prod.splits sum.splits if_splits)
  show "case ds_SetOverlay E so s of (r, s') \<Rightarrow> told r s s'"
    by (auto simp: ds_SetOverlay_def told_def display_SetOverlay_def recordErr_def Let_def
        split: option.splits outcome.splits prod.splits sum.splits if_splits)
  show "case fst (ds_Health E s) of Ok h \<Rightarrow> phr_LastError h = ds_lastError (st_svc s) | _ \<Rightarrow> False"
    by (simp add: ds_Health_def Let_def split: prod.split)
  show "case ds_Fill E req s of (r, s') \<Rightarrow> told r s s'" by (rule Fill_told)
qed

end
