(* ===== verification/Grpc_Service.thy ===== *)
theory Grpc_Service
  imports Display_Service
begin

text \<open>
  \<open>einkproto/display_grpc.pb.go\<close>: the method names, the server interface with its unimplemented
  default, the handlers that the gRPC runtime calls, the service descriptor, and the client stub.
  The runtime itself is a parameter: \<open>dec\<close> decodes the request, an interceptor may wrap the call,
  the client's \<open>Invoke\<close> is a function of the method name and the request.
\<close>

section \<open>Method names\<close>

definition Display_GetInfo_FullMethodName :: string where
  "Display_GetInfo_FullMethodName = ''/io.gosicp.tableauxeink.v1.Display/GetInfo''"
definition Display_Refresh_FullMethodName :: string where
  "Display_Refresh_FullMethodName = ''/io.gosicp.tableauxeink.v1.Display/Refresh''"
definition Display_Fill_FullMethodName :: string where
  "Display_Fill_FullMethodName = ''/io.gosicp.tableauxeink.v1.Display/Fill''"
definition Display_SetOverlay_FullMethodName :: string where
  "Display_SetOverlay_FullMethodName = ''/io.gosicp.tableauxeink.v1.Display/SetOverlay''"
definition Display_Health_FullMethodName :: string where
  "Display_Health_FullMethodName = ''/io.gosicp.tableauxeink.v1.Display/Health''"
definition Display_Rotate_FullMethodName :: string where
  "Display_Rotate_FullMethodName = ''/io.gosicp.tableauxeink.v1.Display/Rotate''"
definition Display_ReissueClientCert_FullMethodName :: string where
  "Display_ReissueClientCert_FullMethodName =
     ''/io.gosicp.tableauxeink.v1.Display/ReissueClientCert''"
definition Display_GetMetrics_FullMethodName :: string where
  "Display_GetMetrics_FullMethodName = ''/io.gosicp.tableauxeink.v1.Display/GetMetrics''"

lemmas method_name_defs =
  Display_GetInfo_FullMethodName_def Display_Refresh_FullMethodName_def
  Display_Fill_FullMethodName_def Display_SetOverlay_FullMethodName_def
  Display_Health_FullMethodName_def Display_Rotate_FullMethodName_def
  Display_ReissueClientCert_FullMethodName_def Display_GetMetrics_FullMethodName_def

section \<open>The server interface\<close>

text \<open>\<open>DisplayServer\<close>: one field per method, acting on the state of the server.\<close>

record 's DisplayServer =
  dsv_GetInfo :: "'s \<Rightarrow> pb_DisplayInfo outcome \<times> 's"
  dsv_Refresh :: "refresh_stream \<Rightarrow> 's \<Rightarrow> pb_RefreshResponse outcome \<times> 's"
  dsv_Fill :: "pb_FillRequest \<Rightarrow> 's \<Rightarrow> pb_RefreshResponse outcome \<times> 's"
  dsv_SetOverlay :: "pb_SetOverlayRequest \<Rightarrow> 's \<Rightarrow> unit outcome \<times> 's"
  dsv_Health :: "'s \<Rightarrow> pb_HealthResponse outcome \<times> 's"
  dsv_Rotate :: "'s \<Rightarrow> pb_RotateResponse outcome \<times> 's"
  dsv_ReissueClientCert :: "'s \<Rightarrow> pb_ReissueClientCertResponse outcome \<times> 's"
  dsv_GetMetrics :: "'s \<Rightarrow> pb_GetMetricsResponse outcome \<times> 's"

definition unimplemented :: "string \<Rightarrow> 's \<Rightarrow> 'a outcome \<times> 's" where
  "unimplemented m s = (Err (ErrStatus Unimplemented (''method '' @ m @ '' not implemented'')), s)"

definition UnimplementedDisplayServer :: "'s DisplayServer" where
  "UnimplementedDisplayServer =
     \<lparr>dsv_GetInfo = unimplemented ''GetInfo'',
      dsv_Refresh = (\<lambda>ss. unimplemented ''Refresh''),
      dsv_Fill = (\<lambda>req. unimplemented ''Fill''),
      dsv_SetOverlay = (\<lambda>req. unimplemented ''SetOverlay''),
      dsv_Health = unimplemented ''Health'',
      dsv_Rotate = unimplemented ''Rotate'',
      dsv_ReissueClientCert = unimplemented ''ReissueClientCert'',
      dsv_GetMetrics = unimplemented ''GetMetrics''\<rparr>"

text \<open>
  \<open>var _ pb.DisplayServer = (*DisplayService)(nil)\<close>: the service overrides every method of the
  embedded default.
\<close>

definition service_server :: "env \<Rightarrow> string list \<Rightarrow> svc_state DisplayServer" where
  "service_server E order = UnimplementedDisplayServer
     \<lparr>dsv_GetInfo := ds_GetInfo E, dsv_Refresh := ds_Refresh E, dsv_Fill := ds_Fill E,
      dsv_SetOverlay := ds_SetOverlay E, dsv_Health := ds_Health E,
      dsv_Rotate := ds_Rotate E order, dsv_ReissueClientCert := ds_ReissueClientCert E,
      dsv_GetMetrics := ds_GetMetrics E\<rparr>"

section \<open>Handlers\<close>

text \<open>
  The message that \<open>new(T)\<close> allocates selects how the request is decoded, so \<open>dec\<close> takes it.  A
  handler closure asserts the type of its argument and panics on any other.
\<close>

type_synonym decoder = "msg \<Rightarrow> go_error + msg"
type_synonym 's interceptor = "'s unary_handler \<Rightarrow> 's unary_handler"

definition bad_type :: "'s \<Rightarrow> msg outcome \<times> 's" where
  "bad_type s = (Panic ''interface conversion'', s)"

fun map_outcome :: "('a \<Rightarrow> 'b) \<Rightarrow> 'a outcome \<Rightarrow> 'b outcome" where
  "map_outcome f (Ok x) = Ok (f x)"
| "map_outcome f (Err e) = Err e"
| "map_outcome f (Panic p) = Panic p"

definition box :: "('a \<Rightarrow> msg) \<Rightarrow> 'a outcome \<times> 's \<Rightarrow> msg outcome \<times> 's" where
  "box f r = (map_outcome f (fst r), snd r)"

text \<open>The shape of every generated unary handler.\<close>

definition unary_Handler ::
    "msg \<Rightarrow> 's unary_handler \<Rightarrow> context_t \<Rightarrow> decoder \<Rightarrow> 's interceptor option \<Rightarrow> 's
       \<Rightarrow> msg outcome \<times> 's" where
  "unary_Handler fresh call ctx dec interceptor s =
     (case dec fresh of
        Inl e \<Rightarrow> (Err e, s)
      | Inr inn \<Rightarrow>
          (case interceptor of
             None \<Rightarrow> call ctx inn s
           | Some i \<Rightarrow> i call ctx inn s))"

fun call_GetInfo :: "'s DisplayServer \<Rightarrow> 's unary_handler" where
  "call_GetInfo srv ctx MEmpty s = box MDisplayInfo (dsv_GetInfo srv s)"
| "call_GetInfo srv ctx _ s = bad_type s"

fun call_Fill :: "'s DisplayServer \<Rightarrow> 's unary_handler" where
  "call_Fill srv ctx (MFillRequest req) s = box MRefreshResponse (dsv_Fill srv req s)"
| "call_Fill srv ctx _ s = bad_type s"

fun call_SetOverlay :: "'s DisplayServer \<Rightarrow> 's unary_handler" where
  "call_SetOverlay srv ctx (MSetOverlayRequest req) s = box (\<lambda>_. MEmpty) (dsv_SetOverlay srv req s)"
| "call_SetOverlay srv ctx _ s = bad_type s"

fun call_Health :: "'s DisplayServer \<Rightarrow> 's unary_handler" where
  "call_Health srv ctx MEmpty s = box MHealthResponse (dsv_Health srv s)"
| "call_Health srv ctx _ s = bad_type s"

fun call_Rotate :: "'s DisplayServer \<Rightarrow> 's unary_handler" where
  "call_Rotate srv ctx MEmpty s = box MRotateResponse (dsv_Rotate srv s)"
| "call_Rotate srv ctx _ s = bad_type s"

fun call_ReissueClientCert :: "'s DisplayServer \<Rightarrow> 's unary_handler" where
  "call_ReissueClientCert srv ctx MEmpty s =
     box MReissueClientCertResponse (dsv_ReissueClientCert srv s)"
| "call_ReissueClientCert srv ctx _ s = bad_type s"

fun call_GetMetrics :: "'s DisplayServer \<Rightarrow> 's unary_handler" where
  "call_GetMetrics srv ctx MEmpty s = box MGetMetricsResponse (dsv_GetMetrics srv s)"
| "call_GetMetrics srv ctx _ s = bad_type s"

definition new_FillRequest :: msg where
  "new_FillRequest = MFillRequest \<lparr>pfr_Argb = 0, pfr_Mode = WAVEFORM_MODE_UNSPECIFIED\<rparr>"

definition new_SetOverlayRequest :: msg where
  "new_SetOverlayRequest = MSetOverlayRequest \<lparr>pso_Enabled = False\<rparr>"

definition Display_GetInfo_Handler where
  "Display_GetInfo_Handler srv = unary_Handler MEmpty (call_GetInfo srv)"
definition Display_Fill_Handler where
  "Display_Fill_Handler srv = unary_Handler new_FillRequest (call_Fill srv)"
definition Display_SetOverlay_Handler where
  "Display_SetOverlay_Handler srv = unary_Handler new_SetOverlayRequest (call_SetOverlay srv)"
definition Display_Health_Handler where
  "Display_Health_Handler srv = unary_Handler MEmpty (call_Health srv)"
definition Display_Rotate_Handler where
  "Display_Rotate_Handler srv = unary_Handler MEmpty (call_Rotate srv)"
definition Display_ReissueClientCert_Handler where
  "Display_ReissueClientCert_Handler srv = unary_Handler MEmpty (call_ReissueClientCert srv)"
definition Display_GetMetrics_Handler where
  "Display_GetMetrics_Handler srv = unary_Handler MEmpty (call_GetMetrics srv)"

definition Display_Refresh_Handler :: "'s DisplayServer \<Rightarrow> 's stream_handler" where
  "Display_Refresh_Handler srv ss s = dsv_Refresh srv ss s"

lemmas handler_defs =
  Display_GetInfo_Handler_def Display_Fill_Handler_def Display_SetOverlay_Handler_def
  Display_Health_Handler_def Display_Rotate_Handler_def
  Display_ReissueClientCert_Handler_def Display_GetMetrics_Handler_def

section \<open>The service descriptor\<close>

type_synonym 's method_handler =
  "'s DisplayServer \<Rightarrow> context_t \<Rightarrow> decoder \<Rightarrow> 's interceptor option \<Rightarrow> 's \<Rightarrow> msg outcome \<times> 's"

record 's ServiceDesc =
  sd_ServiceName :: string
  sd_Methods :: "(string \<times> 's method_handler) list"
  sd_Streams :: "(string \<times> ('s DisplayServer \<Rightarrow> 's stream_handler)) list"

definition Display_ServiceDesc :: "'s ServiceDesc" where
  "Display_ServiceDesc =
     \<lparr>sd_ServiceName = ''io.gosicp.tableauxeink.v1.Display'',
      sd_Methods =
        [(''GetInfo'', Display_GetInfo_Handler),
         (''Fill'', Display_Fill_Handler),
         (''SetOverlay'', Display_SetOverlay_Handler),
         (''Health'', Display_Health_Handler),
         (''Rotate'', Display_Rotate_Handler),
         (''ReissueClientCert'', Display_ReissueClientCert_Handler),
         (''GetMetrics'', Display_GetMetrics_Handler)],
      sd_Streams = [(''Refresh'', Display_Refresh_Handler)]\<rparr>"

section \<open>The client stub\<close>

text \<open>
  A client connection: \<open>Invoke\<close> sends a request to a method and fills in the reply, \<open>NewStream\<close> opens
  a stream on a method and gives a handle on it, on which chunks are sent until \<open>CloseAndRecv\<close>.  The
  outgoing context carries the metadata.
\<close>

record out_ctx =
  oc_md :: "(string \<times> string) list"

record ('n, 'st) ClientConn =
  cc_Invoke :: "out_ctx \<Rightarrow> string \<Rightarrow> msg \<Rightarrow> 'n \<Rightarrow> (go_error + msg) \<times> 'n"
  cc_NewStream :: "out_ctx \<Rightarrow> string \<Rightarrow> 'n \<Rightarrow> (go_error + 'st) \<times> 'n"
  cc_Send :: "'st \<Rightarrow> pb_RefreshChunk \<Rightarrow> 'n \<Rightarrow> go_error option \<times> 'n"
  cc_CloseAndRecv :: "'st \<Rightarrow> 'n \<Rightarrow> (go_error + pb_RefreshResponse) \<times> 'n"

text \<open>
  Each stub allocates its reply with \<open>new(T)\<close> and lets \<open>Invoke\<close> decode into it, so the reply has that
  type; a message of another type would leave the allocated zero message, given by \<open>typed\<close>.
\<close>

definition client_call ::
    "(msg \<Rightarrow> 'a option) \<Rightarrow> 'a \<Rightarrow> ('n, 'st) ClientConn \<Rightarrow> out_ctx \<Rightarrow> string \<Rightarrow> msg \<Rightarrow> 'n
       \<Rightarrow> 'a outcome \<times> 'n" where
  "client_call typed fresh cc ctx name inn n =
     (case cc_Invoke cc ctx name inn n of
        (Inl e, n1) \<Rightarrow> (Err e, n1)
      | (Inr out, n1) \<Rightarrow> (Ok (case typed out of None \<Rightarrow> fresh | Some x \<Rightarrow> x), n1))"

fun as_DisplayInfo :: "msg \<Rightarrow> pb_DisplayInfo option" where
  "as_DisplayInfo (MDisplayInfo x) = Some x" | "as_DisplayInfo _ = None"
fun as_RefreshResponse :: "msg \<Rightarrow> pb_RefreshResponse option" where
  "as_RefreshResponse (MRefreshResponse x) = Some x" | "as_RefreshResponse _ = None"
fun as_HealthResponse :: "msg \<Rightarrow> pb_HealthResponse option" where
  "as_HealthResponse (MHealthResponse x) = Some x" | "as_HealthResponse _ = None"
fun as_RotateResponse :: "msg \<Rightarrow> pb_RotateResponse option" where
  "as_RotateResponse (MRotateResponse x) = Some x" | "as_RotateResponse _ = None"
fun as_Reissue :: "msg \<Rightarrow> pb_ReissueClientCertResponse option" where
  "as_Reissue (MReissueClientCertResponse x) = Some x" | "as_Reissue _ = None"
fun as_GetMetricsResponse :: "msg \<Rightarrow> pb_GetMetricsResponse option" where
  "as_GetMetricsResponse (MGetMetricsResponse x) = Some x" | "as_GetMetricsResponse _ = None"
fun as_Empty :: "msg \<Rightarrow> unit option" where
  "as_Empty MEmpty = Some ()" | "as_Empty _ = None"

definition client_GetInfo ::
    "('n, 'st) ClientConn \<Rightarrow> out_ctx \<Rightarrow> 'n \<Rightarrow> pb_DisplayInfo outcome \<times> 'n" where
  "client_GetInfo cc ctx = client_call as_DisplayInfo
     \<lparr>pdi_Width = 0, pdi_Height = 0, pdi_VirtualWidth = 0, pdi_VirtualHeight = 0, pdi_Color = False,
      pdi_AppVersion = []\<rparr> cc ctx Display_GetInfo_FullMethodName MEmpty"

definition client_Fill ::
    "('n, 'st) ClientConn \<Rightarrow> out_ctx \<Rightarrow> pb_FillRequest \<Rightarrow> 'n \<Rightarrow> pb_RefreshResponse outcome \<times> 'n" where
  "client_Fill cc ctx req = client_call as_RefreshResponse \<lparr>prr_ElapsedMs = 0\<rparr> cc ctx
     Display_Fill_FullMethodName (MFillRequest req)"

definition client_SetOverlay ::
    "('n, 'st) ClientConn \<Rightarrow> out_ctx \<Rightarrow> pb_SetOverlayRequest \<Rightarrow> 'n \<Rightarrow> unit outcome \<times> 'n" where
  "client_SetOverlay cc ctx req = client_call as_Empty () cc ctx
     Display_SetOverlay_FullMethodName (MSetOverlayRequest req)"

definition client_Health ::
    "('n, 'st) ClientConn \<Rightarrow> out_ctx \<Rightarrow> 'n \<Rightarrow> pb_HealthResponse outcome \<times> 'n" where
  "client_Health cc ctx = client_call as_HealthResponse
     \<lparr>phr_DeviceOpen = False, phr_LastError = [], phr_ServerVersion = [], phr_UptimeSeconds = 0\<rparr>
     cc ctx Display_Health_FullMethodName MEmpty"

definition client_Rotate ::
    "('n, 'st) ClientConn \<Rightarrow> out_ctx \<Rightarrow> 'n \<Rightarrow> pb_RotateResponse outcome \<times> 'n" where
  "client_Rotate cc ctx = client_call as_RotateResponse \<lparr>pro_ScheduledAtMs = 0\<rparr>
     cc ctx Display_Rotate_FullMethodName MEmpty"

definition client_ReissueClientCert ::
    "('n, 'st) ClientConn \<Rightarrow> out_ctx \<Rightarrow> 'n \<Rightarrow> pb_ReissueClientCertResponse outcome \<times> 'n" where
  "client_ReissueClientCert cc ctx = client_call as_Reissue
     \<lparr>prc_ClientCertPem = [], prc_ClientKeyPem = [], prc_ClientCertFingerprint = [],
      prc_ServerRestartInMs = 0\<rparr> cc ctx Display_ReissueClientCert_FullMethodName MEmpty"

definition client_GetMetrics ::
    "('n, 'st) ClientConn \<Rightarrow> out_ctx \<Rightarrow> 'n \<Rightarrow> pb_GetMetricsResponse outcome \<times> 'n" where
  "client_GetMetrics cc ctx = client_call as_GetMetricsResponse \<lparr>pgm_PromText = []\<rparr>
     cc ctx Display_GetMetrics_FullMethodName MEmpty"

definition client_Refresh :: "('n, 'st) ClientConn \<Rightarrow> out_ctx \<Rightarrow> 'n \<Rightarrow> 'st outcome \<times> 'n" where
  "client_Refresh cc ctx n =
     (case cc_NewStream cc ctx Display_Refresh_FullMethodName n of
        (Inl e, n1) \<Rightarrow> (Err e, n1)
      | (Inr st, n1) \<Rightarrow> (Ok st, n1))"

lemmas client_defs =
  client_GetInfo_def client_Fill_def client_SetOverlay_def client_Health_def client_Rotate_def
  client_ReissueClientCert_def client_GetMetrics_def client_call_def client_Refresh_def

section \<open>Properties\<close>

text \<open>The full name of a method on the wire, \<open>/service/method\<close>.\<close>

definition full_name :: "string \<Rightarrow> string \<Rightarrow> string" where
  "full_name service m = ''/'' @ service @ ''/'' @ m"

text \<open>The configuration of the server: the token check of the current credentials.\<close>

definition auth :: "svc_state TokenAuth" where
  "auth = NewTokenAuth st_cm"

lemma unary_Handler_guarded:
  "check (st_cm s) ctx = Some e \<Longrightarrow>
     snd (unary_Handler fresh call ctx dec (Some (ta_Unary auth)) s) = s \<and>
     \<not> is_ok (fst (unary_Handler fresh call ctx dec (Some (ta_Unary auth)) s))"
  by (simp add: unary_Handler_def ta_Unary_def auth_def NewTokenAuth_def split: sum.split)

text \<open>
  No method escapes authentication.  With the interceptors that \<open>Start\<close> installs, a request
  whose context is rejected by the token check gets an error from every unary method and the
  stream method of the descriptor, whatever server, request or decoder is behind it, and the state
  (display, credentials, world, goroutines) is exactly what it was.
\<close>

lemma every_method_is_guarded:
  assumes "check (st_cm s) ctx = Some e"
  shows "list_all (\<lambda>(m, h).
        snd (h srv ctx dec (Some (ta_Unary auth)) s) = s \<and>
        \<not> is_ok (fst (h srv ctx dec (Some (ta_Unary auth)) s)))
      (sd_Methods Display_ServiceDesc) \<and>
    list_all (\<lambda>(m, h). ta_Stream auth (h srv) (ss\<lparr>ss_context := ctx\<rparr>) s = (Err e, s))
      (sd_Streams Display_ServiceDesc)"
  using unary_Handler_guarded [OF assms] assms
  by (simp add: Display_ServiceDesc_def handler_defs ta_Stream_def auth_def NewTokenAuth_def)

lemma every_method_is_guarded_example:
  "check (st_cm demo_svc) (bearer_ctx ''wrong'') \<noteq> None \<and>
   snd (Display_Rotate_Handler (service_server demo_env all_names) (bearer_ctx ''wrong'')
     (\<lambda>m. Inr m) (Some (ta_Unary auth)) demo_svc) = demo_svc"
proof -
  have c: "check (st_cm demo_svc) (bearer_ctx ''wrong'') =
      Some (ErrStatus Unauthenticated ''invalid token'')"
    by code_simp
  from every_method_is_guarded [OF c, of "service_server demo_env all_names" "\<lambda>m. Inr m"] c
  show ?thesis by (simp add: Display_ServiceDesc_def)
qed

text \<open>
  With accepted credentials each handler reaches its own method of the service: the reply, the
  error and the new state are exactly those of the corresponding \<open>DisplayService\<close> operation.
\<close>

lemma handlers_reach_the_service:
  assumes "check (st_cm s) ctx = None"
  shows "let srv = service_server E order; i = Some (ta_Unary auth) in
    Display_GetInfo_Handler srv ctx (\<lambda>m. Inr m) i s = box MDisplayInfo (ds_GetInfo E s) \<and>
    Display_Fill_Handler srv ctx (\<lambda>_. Inr (MFillRequest fr)) i s =
      box MRefreshResponse (ds_Fill E fr s) \<and>
    Display_SetOverlay_Handler srv ctx (\<lambda>_. Inr (MSetOverlayRequest so)) i s =
      box (\<lambda>_. MEmpty) (ds_SetOverlay E so s) \<and>
    Display_Health_Handler srv ctx (\<lambda>m. Inr m) i s = box MHealthResponse (ds_Health E s) \<and>
    Display_Rotate_Handler srv ctx (\<lambda>m. Inr m) i s = box MRotateResponse (ds_Rotate E order s) \<and>
    Display_ReissueClientCert_Handler srv ctx (\<lambda>m. Inr m) i s =
      box MReissueClientCertResponse (ds_ReissueClientCert E s) \<and>
    Display_GetMetrics_Handler srv ctx (\<lambda>m. Inr m) i s =
      box MGetMetricsResponse (ds_GetMetrics E s) \<and>
    ta_Stream auth (Display_Refresh_Handler srv) (ss\<lparr>ss_context := ctx\<rparr>) s =
      ds_Refresh E (ss\<lparr>ss_context := ctx\<rparr>) s"
  using assms
  by (simp add: handler_defs Display_Refresh_Handler_def unary_Handler_def ta_Unary_def
      ta_Stream_def auth_def NewTokenAuth_def service_server_def Let_def)

lemma handlers_reach_the_service_example:
  "check (st_cm demo_svc) (bearer_ctx ''operator-token-of-32-characters-'') = None \<and>
   Display_Health_Handler (service_server demo_env all_names)
     (bearer_ctx ''operator-token-of-32-characters-'') (\<lambda>m. Inr m) (Some (ta_Unary auth)) demo_svc
   = box MHealthResponse (ds_Health demo_env demo_svc)"
proof -
  have c: "check (st_cm demo_svc) (bearer_ctx ''operator-token-of-32-characters-'') = None"
    by code_simp
  from handlers_reach_the_service [OF c, of demo_env all_names] c show ?thesis
    by (simp only: Let_def)
qed

text \<open>
  Client and server agree on the names.  The full names of the registered methods are, in
  order, exactly the names the client stub invokes, and no two methods share a name; a server that
  only embeds the default answers every unary call with \<open>Unimplemented\<close> and changes nothing.
\<close>

lemma names_agree:
  "map (\<lambda>(m, h). full_name (sd_ServiceName Display_ServiceDesc) m) (sd_Methods Display_ServiceDesc) =
     [Display_GetInfo_FullMethodName, Display_Fill_FullMethodName,
      Display_SetOverlay_FullMethodName, Display_Health_FullMethodName,
      Display_Rotate_FullMethodName, Display_ReissueClientCert_FullMethodName,
      Display_GetMetrics_FullMethodName] \<and>
   map (\<lambda>(m, h). full_name (sd_ServiceName Display_ServiceDesc) m) (sd_Streams Display_ServiceDesc) =
     [Display_Refresh_FullMethodName] \<and>
   distinct (map fst (sd_Methods Display_ServiceDesc) @ map fst (sd_Streams Display_ServiceDesc)) \<and>
   dsv_Fill UnimplementedDisplayServer req s =
     (Err (ErrStatus Unimplemented ''method Fill not implemented''), s)"
  by (simp add: Display_ServiceDesc_def full_name_def method_name_defs
      UnimplementedDisplayServer_def unimplemented_def)

end
