(* ===== verification/Footprint.thy ===== *)
theory Footprint
  imports Cert_Manager
begin

text \<open>
  The footprint of the credential manager: whatever it does, it reads the clock, draws random
  numbers, generates keys and works on files.  It never touches a device, a mapping or the network.
\<close>

section \<open>Calls that stay inside\<close>

fun local_ev :: "event \<Rightarrow> bool" where
  "local_ev (EvNow t) = True"
| "local_ev (EvReadFile p) = True"
| "local_ev (EvWriteFile p c) = True"
| "local_ev (EvMkdir p) = True"
| "local_ev (EvRand n) = True"
| "local_ev (EvRandInt n) = True"
| "local_ev EvRsa = True"
| "local_ev (EvCreateCert t) = True"
| "local_ev ev = False"

text \<open>From \<open>w\<close> to \<open>w'\<close> only such calls happened.\<close>

definition offline :: "world \<Rightarrow> world \<Rightarrow> bool" where
  "offline w w' \<longleftrightarrow>
     (\<exists>evs. hist w' = evs @ hist w \<and> list_all local_ev evs) \<and>
     mem w' = mem w \<and> fd_of w' = fd_of w \<and> ndisp w' = ndisp w"

lemma offline_refl [simp]: "offline w w"
  by (simp add: offline_def)

lemma offline_trans: "offline u v \<Longrightarrow> offline v w \<Longrightarrow> offline u w"
proof -
  assume a: "offline u v" and b: "offline v w"
  obtain xs where x: "hist v = xs @ hist u" "list_all local_ev xs" using a by (auto simp: offline_def)
  obtain ys where y: "hist w = ys @ hist v" "list_all local_ev ys" using b by (auto simp: offline_def)
  have "hist w = (ys @ xs) @ hist u \<and> list_all local_ev (ys @ xs)" using x y by simp
  with a b show "offline u w" unfolding offline_def by auto
qed

lemma offline_step:
  "local_ev ev \<Longrightarrow> offline w (log_ev ev w)"
  "local_ev ev \<Longrightarrow> offline w (log_ev ev (w\<lparr>files := fs\<rparr>))"
  unfolding offline_def by (simp_all add: exI [of _ "[ev]"])

lemma local_evs:
  assumes "list_all local_ev evs"
  shows "open_fds (evs @ h) = open_fds h" and "live_maps (evs @ h) = live_maps h"
    and "open_listeners (evs @ h) = open_listeners h" and "adverts (evs @ h) = adverts h"
  using assms
proof (induction evs)
  case (Cons ev evs)
  { case 1 then show ?case using Cons by (cases ev) simp_all
  next case 2 then show ?case using Cons by (cases ev) simp_all
  next case 3 then show ?case using Cons by (cases ev) simp_all
  next case 4 then show ?case using Cons by (cases ev) simp_all }
qed simp_all

lemma offline_keeps:
  assumes "offline w w'"
  shows "open_fds (hist w') = open_fds (hist w)" and "live_maps (hist w') = live_maps (hist w)"
    and "open_listeners (hist w') = open_listeners (hist w)" and "adverts (hist w') = adverts (hist w)"
    and "mem w' = mem w" and "fd_of w' = fd_of w" and "ndisp w' = ndisp w"
  using assms by (auto simp: offline_def local_evs)

section \<open>Credentials\<close>

lemma time_offline [keeps]: "time_now E w = (t, w') \<Longrightarrow> offline w w'"
  by (auto simp: time_now_def Let_def intro: offline_step)

lemma read_offline [keeps]: "os_ReadFile E p w = (r, w') \<Longrightarrow> offline w w'"
  by (auto simp: os_ReadFile_def intro: offline_step)

lemma write_offline [keeps]: "os_WriteFile E p c w = (r, w') \<Longrightarrow> offline w w'"
  by (auto simp: os_WriteFile_def intro: offline_step split: option.splits prod.splits)

lemma mkdir_offline [keeps]: "os_MkdirAll E p w = (r, w') \<Longrightarrow> offline w w'"
  by (auto simp: os_MkdirAll_def intro: offline_step)

lemma rsa_offline [keeps]: "rsa_GenerateKey E w = (r, w') \<Longrightarrow> offline w w'"
  by (auto simp: rsa_GenerateKey_def intro: offline_step)

lemma rand_Int_offline [keeps]: "rand_Int E n w = (r, w') \<Longrightarrow> offline w w'"
  by (auto simp: rand_Int_def intro: offline_step)

lemma create_offline [keeps]: "x509_CreateCertificate E t k w = (r, w') \<Longrightarrow> offline w w'"
  by (auto simp: x509_CreateCertificate_def intro: offline_step)

lemma rand_offline [keeps]: "rand_Read E n w = (r, w') \<Longrightarrow> offline w w'"
  by (auto simp: rand_Read_def intro: offline_step)

lemma gen_offline [keeps]: "genSelfSigned E cn w = (r, w') \<Longrightarrow> offline w w'"
  by (auto simp: genSelfSigned_def Let_def split: sum.splits prod.splits
      dest!: rsa_offline rand_Int_offline create_offline time_offline)
    (meson offline_trans)+

lemma token_offline [keeps]: "randomToken E w = (r, w') \<Longrightarrow> offline w w'"
  by (auto simp: randomToken_def split: sum.splits prod.splits dest: rand_offline)

lemma write_loop_offline [keeps]: "write_loop E dir nds w = (r, w') \<Longrightarrow> offline w w'"
  by (induction E dir nds w rule: write_loop.induct)
    (auto split: prod.splits option.splits intro: offline_trans keeps)

lemma read_loop_offline [keeps]: "read_loop E names cm w = (m, cm', w') \<Longrightarrow> offline w w'"
  by (induction E names cm w rule: read_loop.induct)
    (auto split: prod.splits sum.splits intro: offline_trans keeps)

lemma regenerate_offline [keeps]:
  assumes "regenerateLocked E order cm w = (r, cm', w')"
  shows "offline w w'"
proof -
  obtain s w1 where s: "genSelfSigned E ''tableaux-eink server'' w = (s, w1)" by (metis surj_pair)
  obtain c w2 where c: "genSelfSigned E ''tableaux-eink client'' w1 = (c, w2)" by (metis surj_pair)
  obtain t w3 where t: "randomToken E w2 = (t, w3)" by (metis surj_pair)
  obtain a w4 where a: "randomToken E w3 = (a, w4)" by (metis surj_pair)
  note q = gen_offline [OF s] gen_offline [OF c] token_offline [OF t] token_offline [OF a]
  have q2: "offline w w2" and q3: "offline w w3" and q4: "offline w w4" using q by (blast intro: offline_trans)+
  from assms s c t a q(1) q2 q3 q4 show ?thesis
    by (auto simp: regenerateLocked_def Let_def split: sum.splits outcome.splits prod.splits
        dest!: write_loop_offline intro: offline_trans)
qed

lemma load_offline [keeps]:
  assumes "loadOrInit E ro wo cm w = (r, cm', w')"
  shows "offline w w'"
proof -
  obtain m cm1 w1 where l: "read_loop E ro cm w = (m, cm1, w1)" by (metis prod_cases3)
  obtain rt w2 where t: "os_ReadFile E (cm_tlsDir cm1 @ [''token.txt'']) w1 = (rt, w2)" by (metis surj_pair)
  let ?cm2 = "case rt of Inr b \<Rightarrow> cm1\<lparr>token := trim_space b\<rparr> | Inl e \<Rightarrow> cm1"
  obtain ra w3 where a: "os_ReadFile E (cm_tlsDir ?cm2 @ [''admin-token.txt'']) w2 = (ra, w3)"
    by (metis surj_pair)
  have q1: "offline w w1" by (rule read_loop_offline [OF l])
  have q3: "offline w w3" using q1 read_offline [OF t] read_offline [OF a] by (blast intro: offline_trans)
  show ?thesis
  proof (cases m)
    case True
    with assms l have "regenerateLocked E wo cm1 w1 = (r, cm', w')" by (simp add: loadOrInit_def)
    from offline_trans [OF q1 regenerate_offline [OF this]] show ?thesis .
  next
    case False
    with assms l t a q3 show ?thesis
      by (auto simp: loadOrInit_def Let_def split: if_splits dest!: regenerate_offline intro: offline_trans)
  qed
qed

lemma NewCertManager_offline [keeps]:
  assumes "NewCertManager E ro wo dir w = (r, w')"
  shows "offline w w'"
proof -
  let ?cm = "empty_CertManager dir"
  obtain e w1 where m: "os_MkdirAll E (cm_tlsDir ?cm) w = (e, w1)" by (metis surj_pair)
  obtain r1 cm1 w2 where l: "loadOrInit E ro wo ?cm w1 = (r1, cm1, w2)" by (metis prod_cases3)
  from mkdir_offline [OF m] load_offline [OF l] assms m l show ?thesis
    by (auto simp: NewCertManager_def Let_def split: option.splits outcome.splits intro: offline_trans)
qed

end
