(* ===== verification/Rpc_Runs.thy ===== *)
theory Rpc_Runs
  imports Grpc_Service Footprint
begin

text \<open>
  Whole sessions of a running server: any sequence of requests by any number of clients, each
  dispatched by its method name through the service descriptor of \<open>einkproto/display_grpc.pb.go\<close> with
  the interceptors that \<open>Start\<close> installs, as \<open>grpc.NewServer\<close> and \<open>RegisterDisplayServer\<close> arrange it.
\<close>

section \<open>Requests\<close>

text \<open>
  A unary request is a method, its context and its bytes (a decoder); an upload is a method and the
  stream of its chunks.
\<close>

datatype rpc = Call string context_t decoder | Upload string refresh_stream

fun rpc_ctx :: "rpc \<Rightarrow> context_t" where
  "rpc_ctx (Call m ctx dec) = ctx"
| "rpc_ctx (Upload m ss) = ss_context ss"

fun rpc_method :: "rpc \<Rightarrow> string" where
  "rpc_method (Call m ctx dec) = m"
| "rpc_method (Upload m ss) = m"

text \<open>
  Dispatch; a method the descriptor does not have reaches no code of the program.  The order is that
  of the map iteration in \<open>regenerateLocked\<close>, should the request come to it.
\<close>

fun arrive :: "env \<Rightarrow> string list \<times> rpc \<Rightarrow> svc_state \<Rightarrow> msg outcome option \<times> svc_state" where
  "arrive E (order, Call m ctx dec) s =
     (case map_of (sd_Methods Display_ServiceDesc) m of
        None \<Rightarrow> (None, s)
      | Some h \<Rightarrow>
          (case h (service_server E order) ctx dec (Some (ta_Unary auth)) s of (r, s') \<Rightarrow> (Some r, s')))"
| "arrive E (order, Upload m ss) s =
     (case map_of (sd_Streams Display_ServiceDesc) m of
        None \<Rightarrow> (None, s)
      | Some h \<Rightarrow>
          (case ta_Stream auth (h (service_server E order)) ss s of
             (r, s') \<Rightarrow> (Some (map_outcome MRefreshResponse r), s')))"

definition rpc_step :: "env \<Rightarrow> string list \<times> rpc \<Rightarrow> svc_state \<Rightarrow> svc_state" where
  "rpc_step E op s = snd (arrive E op s)"

definition authorised :: "svc_state \<Rightarrow> string list \<times> rpc \<Rightarrow> bool" where
  "authorised s op \<longleftrightarrow> check (st_cm s) (rpc_ctx (snd op)) = None"

text \<open>The requests of a session that pass the check when they arrive.\<close>

fun admitted :: "env \<Rightarrow> (string list \<times> rpc) list \<Rightarrow> svc_state \<Rightarrow> (string list \<times> rpc) list" where
  "admitted E [] s = []"
| "admitted E (op # ops) s =
     (if authorised s op then op # admitted E ops (rpc_step E op s)
      else admitted E ops (rpc_step E op s))"

text \<open>All answers of a session, and those that the admitted requests got.\<close>

fun replies :: "env \<Rightarrow> (string list \<times> rpc) list \<Rightarrow> svc_state \<Rightarrow> msg outcome option list" where
  "replies E [] s = []"
| "replies E (op # ops) s = fst (arrive E op s) # replies E ops (rpc_step E op s)"

fun served :: "env \<Rightarrow> (string list \<times> rpc) list \<Rightarrow> svc_state \<Rightarrow> msg outcome option list" where
  "served E [] s = []"
| "served E (op # ops) s =
     (if authorised s op then fst (arrive E op s) # served E ops (rpc_step E op s)
      else served E ops (rpc_step E op s))"

section \<open>Dispatch\<close>

lemma arrive_unauthorised:
  assumes "\<not> authorised s op"
  shows "snd (arrive E op s) = s \<and>
    (case fst (arrive E op s) of None \<Rightarrow> True | Some r \<Rightarrow> \<not> is_ok r)"
proof -
  obtain order q where op: "op = (order, q)" by (metis surj_pair)
  obtain e where c: "check (st_cm s) (rpc_ctx q) = Some e"
    using assms op by (auto simp: authorised_def)
  show ?thesis
  proof (cases q)
    case (Call m ctx dec)
    with c have "check (st_cm s) ctx = Some e" by simp
    note g = unary_Handler_guarded [OF this]
    show ?thesis
      unfolding op Call arrive.simps
      by (auto simp: Display_ServiceDesc_def handler_defs g case_prod_beta split: option.split)
  next
    case (Upload m ss)
    with c show ?thesis
      unfolding op Upload arrive.simps
      by (auto simp: ta_Stream_def auth_def NewTokenAuth_def split: option.split)
  qed
qed

text \<open>
  The codec decodes a request into the message it is given, so the result has its type; the handlers
  allocate three types of messages.
\<close>

fun same_type :: "msg \<Rightarrow> msg \<Rightarrow> bool" where
  "same_type MEmpty m = (m = MEmpty)"
| "same_type (MFillRequest x) m = (case m of MFillRequest y \<Rightarrow> True | _ \<Rightarrow> False)"
| "same_type (MSetOverlayRequest x) m = (case m of MSetOverlayRequest y \<Rightarrow> True | _ \<Rightarrow> False)"
| "same_type m m' = False"

fun typed :: "rpc \<Rightarrow> bool" where
  "typed (Call m ctx dec) =
     list_all (\<lambda>fresh. case dec fresh of Inl e \<Rightarrow> True | Inr x \<Rightarrow> same_type fresh x)
       [MEmpty, new_FillRequest, new_SetOverlayRequest]"
| "typed (Upload m ss) = True"

text \<open>Which operation of the service a dispatched request reaches, and what it answers.\<close>

datatype reached =
    Nothing "msg outcome option" | ReachedGetInfo | ReachedFill pb_FillRequest
  | ReachedSetOverlay pb_SetOverlayRequest | ReachedHealth | ReachedRotate | ReachedReissue
  | ReachedMetrics | ReachedRefresh refresh_stream

fun reach :: "env \<Rightarrow> string list \<Rightarrow> reached \<Rightarrow> svc_state \<Rightarrow> msg outcome option \<times> svc_state" where
  "reach E order (Nothing r) s = (r, s)"
| "reach E order ReachedGetInfo s = map_prod Some id (box MDisplayInfo (ds_GetInfo E s))"
| "reach E order (ReachedFill req) s = map_prod Some id (box MRefreshResponse (ds_Fill E req s))"
| "reach E order (ReachedSetOverlay req) s =
     map_prod Some id (box (\<lambda>_. MEmpty) (ds_SetOverlay E req s))"
| "reach E order ReachedHealth s = map_prod Some id (box MHealthResponse (ds_Health E s))"
| "reach E order ReachedRotate s = map_prod Some id (box MRotateResponse (ds_Rotate E order s))"
| "reach E order ReachedReissue s =
     map_prod Some id (box MReissueClientCertResponse (ds_ReissueClientCert E s))"
| "reach E order ReachedMetrics s = map_prod Some id (box MGetMetricsResponse (ds_GetMetrics E s))"
| "reach E order (ReachedRefresh ss) s = map_prod Some id (box MRefreshResponse (ds_Refresh E ss s))"

definition draws :: "string list \<times> rpc \<Rightarrow> bool" where
  "draws op \<longleftrightarrow> rpc_method (snd op) = ''Fill'' \<or> rpc_method (snd op) = ''Refresh''"

fun drawing :: "reached \<Rightarrow> bool" where
  "drawing (ReachedFill req) = True"
| "drawing (ReachedRefresh ss) = True"
| "drawing _ = False"

text \<open>
  A reached operation explains an arrival: it is the one with the name of the method, on the decoded
  request or the stream itself; nothing is reached only with an answer that is not \<open>Ok\<close>, which is no
  panic when the request has its type.
\<close>

fun reached_method :: "reached \<Rightarrow> string" where
  "reached_method (Nothing r) = []"
| "reached_method ReachedGetInfo = ''GetInfo''"
| "reached_method (ReachedFill req) = ''Fill''"
| "reached_method (ReachedSetOverlay req) = ''SetOverlay''"
| "reached_method ReachedHealth = ''Health''"
| "reached_method ReachedRotate = ''Rotate''"
| "reached_method ReachedReissue = ''ReissueClientCert''"
| "reached_method ReachedMetrics = ''GetMetrics''"
| "reached_method (ReachedRefresh ss) = ''Refresh''"

fun decoded :: "rpc \<Rightarrow> msg \<Rightarrow> msg \<Rightarrow> bool" where
  "decoded (Call m ctx dec) fresh x = (case dec fresh of Inl e \<Rightarrow> False | Inr y \<Rightarrow> y = x)"
| "decoded (Upload m ss) fresh x = False"

fun explains :: "reached \<Rightarrow> rpc \<Rightarrow> bool" where
  "explains (Nothing r) q =
     (case r of None \<Rightarrow> True | Some a \<Rightarrow> \<not> is_ok a \<and> (typed q \<longrightarrow> \<not> is_panic a))"
| "explains (ReachedRefresh ss) q = (q = Upload ''Refresh'' ss)"
| "explains (ReachedFill req) q =
     (rpc_method q = ''Fill'' \<and> decoded q new_FillRequest (MFillRequest req))"
| "explains x q = (rpc_method q = reached_method x)"

lemma explains_drawing: "explains x q \<Longrightarrow> drawing x \<Longrightarrow> draws (order, q)"
  by (cases x) (simp_all add: draws_def)

text \<open>With the interceptor of the server or, once that has let the request pass, without one.\<close>

abbreviation server_interceptors :: "svc_state interceptor option set" where
  "server_interceptors \<equiv> {None, Some (ta_Unary auth)}"

lemma unary_reaches:
  assumes "icp \<in> server_interceptors"
    and "\<And>inn. dec fresh = Inr inn \<Longrightarrow> \<exists>x. map_prod Some id (call ctx inn s) = reach E order x s \<and> explains x q"
  shows "\<exists>x. map_prod Some id (unary_Handler fresh call ctx dec icp s) = reach E order x s \<and> explains x q"
proof (cases "dec fresh")
  case (Inl e)
  then show ?thesis
    by (intro exI [of _ "Nothing (Some (Err e))"]) (simp add: unary_Handler_def)
next
  case (Inr inn)
  show ?thesis
  proof (cases "icp = None \<or> check (st_cm s) ctx = None")
    case True
    with assms Inr show ?thesis
      by (auto simp: unary_Handler_def ta_Unary_def auth_def NewTokenAuth_def)
  next
    case False
    then obtain e where "icp = Some (ta_Unary auth)" "check (st_cm s) ctx = Some e"
      using assms(1) by auto
    with Inr show ?thesis
      by (intro exI [of _ "Nothing (Some (Err e))"])
        (simp add: unary_Handler_def ta_Unary_def auth_def NewTokenAuth_def)
  qed
qed

lemma bad_type_reaches:
  "\<not> typed q \<Longrightarrow> \<exists>x. map_prod Some id (bad_type s) = reach E order x s \<and> explains x q"
  by (intro exI [of _ "Nothing (Some (Panic ''interface conversion''))"])
    (simp add: bad_type_def)

lemma map_prod_Some: "map_prod Some id p = (case p of (r, s') \<Rightarrow> (Some r, s'))"
  by (cases p) simp

lemma reaches_via:
  assumes "q = Call m ctx dec" and "icp \<in> server_interceptors" and "fresh \<in> {MEmpty, new_FillRequest, new_SetOverlayRequest}"
    and "\<And>inn. \<not> same_type fresh inn \<Longrightarrow> call ctx inn s = bad_type s"
    and "\<And>inn. dec fresh = Inr inn \<Longrightarrow> same_type fresh inn \<Longrightarrow>
      \<exists>x. map_prod Some id (call ctx inn s) = reach E order x s \<and> explains x q"
  shows "\<exists>x. map_prod Some id (unary_Handler fresh call ctx dec icp s) = reach E order x s \<and>
    explains x q"
proof (rule unary_reaches [OF assms(2)])
  fix inn assume d: "dec fresh = Inr inn"
  show "\<exists>x. map_prod Some id (call ctx inn s) = reach E order x s \<and> explains x q"
  proof (cases "same_type fresh inn")
    case False
    then have "\<not> typed q" using d assms(1,3) by auto
    from bad_type_reaches [OF this] False assms(4) show ?thesis by simp
  qed (rule assms(5) [OF d])
qed

lemma empty_reaches:
  assumes "q = Call m ctx dec" and "icp \<in> server_interceptors"
    and "\<And>inn. inn \<noteq> MEmpty \<Longrightarrow> call ctx inn s = bad_type s"
    and "map_prod Some id (call ctx MEmpty s) = reach E order x s" and "explains x q"
  shows "\<exists>x. map_prod Some id (unary_Handler MEmpty call ctx dec icp s) = reach E order x s \<and>
    explains x q"
  by (rule reaches_via [OF assms(1,2)]) (use assms(3-5) in auto)

lemma call_bad_type:
  "inn \<noteq> MEmpty \<Longrightarrow> call_GetInfo srv ctx inn s = bad_type s"
  "inn \<noteq> MEmpty \<Longrightarrow> call_Health srv ctx inn s = bad_type s"
  "inn \<noteq> MEmpty \<Longrightarrow> call_Rotate srv ctx inn s = bad_type s"
  "inn \<noteq> MEmpty \<Longrightarrow> call_ReissueClientCert srv ctx inn s = bad_type s"
  "inn \<noteq> MEmpty \<Longrightarrow> call_GetMetrics srv ctx inn s = bad_type s"
  "\<not> same_type new_FillRequest inn \<Longrightarrow> call_Fill srv ctx inn s = bad_type s"
  "\<not> same_type new_SetOverlayRequest inn \<Longrightarrow> call_SetOverlay srv ctx inn s = bad_type s"
  by (cases inn; simp add: new_FillRequest_def new_SetOverlayRequest_def)+

lemma unary_dispatch:
  assumes q: "q = Call m ctx dec" and icp: "icp \<in> server_interceptors" and h: "map_of (sd_Methods Display_ServiceDesc) m = Some h"
  shows "\<exists>x. map_prod Some id (h (service_server E order) ctx dec icp s) =
    reach E order x s \<and> explains x q"
proof -
  let ?srv = "service_server E order"
  have srv: "dsv_GetInfo ?srv = ds_GetInfo E" "dsv_Fill ?srv = ds_Fill E"
    "dsv_SetOverlay ?srv = ds_SetOverlay E" "dsv_Health ?srv = ds_Health E"
    "dsv_Rotate ?srv = ds_Rotate E order" "dsv_ReissueClientCert ?srv = ds_ReissueClientCert E"
    "dsv_GetMetrics ?srv = ds_GetMetrics E"
    by (simp_all add: service_server_def)
  consider "m = ''GetInfo''" "h = Display_GetInfo_Handler" | "m = ''Fill''" "h = Display_Fill_Handler"
    | "m = ''SetOverlay''" "h = Display_SetOverlay_Handler" | "m = ''Health''" "h = Display_Health_Handler"
    | "m = ''Rotate''" "h = Display_Rotate_Handler"
    | "m = ''ReissueClientCert''" "h = Display_ReissueClientCert_Handler"
    | "m = ''GetMetrics''" "h = Display_GetMetrics_Handler"
    using h by (simp add: Display_ServiceDesc_def split: if_split_asm)
  then show ?thesis
  proof cases
    case 1
    then show ?thesis unfolding 1(2) Display_GetInfo_Handler_def
      by (intro empty_reaches [OF q icp, where x = ReachedGetInfo])
        (simp_all add: call_bad_type srv q 1(1))
  next
    case 2
    show ?thesis unfolding 2(2) Display_Fill_Handler_def
    proof (rule reaches_via [OF q icp])
      fix inn assume d: "dec new_FillRequest = Inr inn" and "same_type new_FillRequest inn"
      then obtain req where "inn = MFillRequest req"
        by (auto simp: new_FillRequest_def split: msg.splits)
      then show "\<exists>x. map_prod Some id (call_Fill ?srv ctx inn s) = reach E order x s \<and> explains x q"
        using d by (intro exI [of _ "ReachedFill req"]) (simp add: srv q 2(1))
    qed (simp_all add: call_bad_type)
  next
    case 3
    show ?thesis unfolding 3(2) Display_SetOverlay_Handler_def
    proof (rule reaches_via [OF q icp])
      fix inn assume "same_type new_SetOverlayRequest inn"
      then obtain req where "inn = MSetOverlayRequest req"
        by (auto simp: new_SetOverlayRequest_def split: msg.splits)
      then show "\<exists>x. map_prod Some id (call_SetOverlay ?srv ctx inn s) = reach E order x s \<and> explains x q"
        by (intro exI [of _ "ReachedSetOverlay req"]) (simp add: srv q 3(1))
    qed (simp_all add: call_bad_type)
  next
    case 4
    show ?thesis unfolding 4(2) Display_Health_Handler_def
      by (intro empty_reaches [OF q icp, where x = ReachedHealth])
        (simp_all add: call_bad_type srv q 4(1))
  next
    case 5
    show ?thesis unfolding 5(2) Display_Rotate_Handler_def
      by (intro empty_reaches [OF q icp, where x = ReachedRotate])
        (simp_all add: call_bad_type srv q 5(1))
  next
    case 6
    show ?thesis unfolding 6(2) Display_ReissueClientCert_Handler_def
      by (intro empty_reaches [OF q icp, where x = ReachedReissue])
        (simp_all add: call_bad_type srv q 6(1))
  next
    case 7
    show ?thesis unfolding 7(2) Display_GetMetrics_Handler_def
      by (intro empty_reaches [OF q icp, where x = ReachedMetrics])
        (simp_all add: call_bad_type srv q 7(1))
  qed
qed

lemma arrive_reaches: "\<exists>x. arrive E (order, q) s = reach E order x s \<and> explains x q"
proof (cases q)
  case (Call m ctx dec)
  show ?thesis
  proof (cases "map_of (sd_Methods Display_ServiceDesc :: (string \<times> svc_state method_handler) list) m")
    case None
    then show ?thesis by (intro exI [of _ "Nothing None"]) (simp add: Call)
  next
    case (Some h)
    from unary_dispatch [OF Call _ Some, of "Some (ta_Unary auth)"] show ?thesis by (simp add: Call Some map_prod_Some)
  qed
next
  case (Upload m ss)
  show ?thesis
  proof (cases "m = ''Refresh''")
    case False
    then show ?thesis
      by (intro exI [of _ "Nothing None"]) (simp add: Upload Display_ServiceDesc_def)
  next
    case True
    then have m: "map_of (sd_Streams Display_ServiceDesc) m = Some Display_Refresh_Handler"
      by (simp add: Display_ServiceDesc_def)
    have srv: "dsv_Refresh (service_server E order) = ds_Refresh E" by (simp add: service_server_def)
    show ?thesis
    proof (cases "check (st_cm s) (ss_context ss)")
      case None
      then show ?thesis
        by (intro exI [of _ "ReachedRefresh ss"])
          (simp add: Upload m [unfolded True] ta_Stream_def auth_def NewTokenAuth_def Display_Refresh_Handler_def srv
            box_def True case_prod_beta prod_eq_iff)
    next
      case (Some e)
      then show ?thesis
        by (intro exI [of _ "Nothing (Some (Err e))"])
          (simp add: Upload m ta_Stream_def auth_def NewTokenAuth_def)
    qed
  qed
qed

section \<open>What one operation does to the device\<close>

text \<open>
  \<open>drew n w w'\<close>: from \<open>w\<close> to \<open>w'\<close> nothing was opened or closed, no listener or advertisement came or
  went, and the panel was sent at most \<open>n\<close> buffers.
\<close>

fun indoor_ev :: "event \<Rightarrow> bool" where
  "indoor_ev (EvGetInfo fd r) = True"
| "indoor_ev (EvGetBuffer fd r) = True"
| "indoor_ev (EvMmap fd n r) = True"
| "indoor_ev (EvSend fd b bs r) = True"
| "indoor_ev (EvOverlay fd on r) = True"
| "indoor_ev (EvMunmap a r) = True"
| "indoor_ev ev = local_ev ev"

definition drew :: "nat \<Rightarrow> world \<Rightarrow> world \<Rightarrow> bool" where
  "drew n w w' \<longleftrightarrow>
     (\<exists>evs. hist w' = evs @ hist w \<and> list_all indoor_ev evs \<and> length (filter is_send evs) \<le> n)"

lemma drew_same: "hist w' = hist w \<Longrightarrow> drew n w w'"
  by (simp add: drew_def)

lemma drew_event:
  "hist w' = ev # hist w \<Longrightarrow> indoor_ev ev \<Longrightarrow> (is_send ev \<Longrightarrow> 0 < n) \<Longrightarrow> drew n w w'"
  unfolding drew_def by (intro exI [of _ "[ev]"]) auto

lemma drew_trans:
  assumes "drew m u v" and "drew n v w"
  shows "drew (m + n) u w"
proof -
  obtain xs ys where x: "hist v = xs @ hist u" "list_all indoor_ev xs" "length (filter is_send xs) \<le> m"
    and y: "hist w = ys @ hist v" "list_all indoor_ev ys" "length (filter is_send ys) \<le> n"
    using assms by (auto simp: drew_def)
  then have "hist w = (ys @ xs) @ hist u \<and> list_all indoor_ev (ys @ xs) \<and>
      length (filter is_send (ys @ xs)) \<le> m + n" by simp
  then show ?thesis unfolding drew_def by blast
qed

lemma drew_mono: "drew m u v \<Longrightarrow> m \<le> n \<Longrightarrow> drew n u v"
  by (auto simp: drew_def)

lemma drew_before: "drew 0 u v \<Longrightarrow> drew n v w \<Longrightarrow> drew n u w"
  and drew_after: "drew n u v \<Longrightarrow> drew 0 v w \<Longrightarrow> drew n u w"
  using drew_trans [of 0 u v n w] drew_trans [of n u v 0 w] by simp_all

lemma drew_keeps:
  assumes "drew n w w'"
  shows "open_fds (hist w') = open_fds (hist w)" and "open_listeners (hist w') = open_listeners (hist w)"
    and "adverts (hist w') = adverts (hist w)"
    and "\<exists>new. sends w' = new @ sends w \<and> length new \<le> n"
proof -
  obtain evs where e: "hist w' = evs @ hist w" "list_all indoor_ev evs" "length (filter is_send evs) \<le> n"
    using assms by (auto simp: drew_def)
  have "open_fds (evs @ h) = open_fds h \<and> open_listeners (evs @ h) = open_listeners h \<and>
      adverts (evs @ h) = adverts h" for h
    using e(2)
  proof (induction evs)
    case (Cons ev evs)
    then show ?case by (cases ev) simp_all
  qed simp
  with e show "open_fds (hist w') = open_fds (hist w)" "open_listeners (hist w') = open_listeners (hist w)"
    "adverts (hist w') = adverts (hist w)" by simp_all
  show "\<exists>new. sends w' = new @ sends w \<and> length new \<le> n"
    using e by (intro exI [of _ "filter is_send evs"]) (simp add: sends_def)
qed

lemma offline_drew: "offline w w' \<Longrightarrow> drew n w w'"
proof -
  have "local_ev ev \<Longrightarrow> indoor_ev ev \<and> \<not> is_send ev" for ev by (cases ev) simp_all
  then have "list_all local_ev evs \<Longrightarrow> list_all indoor_ev evs \<and> filter is_send evs = []" for evs
    by (induction evs) simp_all
  then show "offline w w' \<Longrightarrow> drew n w w'" by (fastforce simp: offline_def drew_def)
qed

lemma offline_mapped: "offline w w' \<Longrightarrow> mapped w' = mapped w"
  by (simp add: mapped_def offline_keeps)

definition rand_works :: "env \<Rightarrow> bool" where
  "rand_works E \<longleftrightarrow> (\<forall>h n. \<not> isl (e_rand E h n))"

lemma token_not_panic: "rand_works E \<Longrightarrow> randomToken E w = (r, w') \<Longrightarrow> \<not> is_panic r"
  by (auto simp: randomToken_def rand_Read_def rand_works_def split: sum.splits prod.splits)
    (metis isl_def)+

lemma write_loop_not_panic: "write_loop E dir xs w = (r, w') \<Longrightarrow> \<not> is_panic r"
  by (induction E dir xs w rule: write_loop.induct) (auto split: prod.splits option.splits)

lemma regenerate_not_panic:
  "rand_works E \<Longrightarrow> regenerateLocked E order cm w = (r, cm', w') \<Longrightarrow> \<not> is_panic r"
  by (auto simp: regenerateLocked_def Let_def split: sum.splits outcome.splits prod.splits
      dest: write_loop_not_panic token_not_panic)

lemma reissue_offline:
  "cm_ReissueClientCert E cm w = (r, cm', w') \<Longrightarrow> offline w w' \<and> \<not> is_panic r"
  by (auto simp: cm_ReissueClientCert_def Let_def split: sum.splits prod.splits option.splits
      dest!: gen_offline write_offline intro: offline_trans)

lemma time_since_offline: "time_since E t0 s = (d, s') \<Longrightarrow> offline (st_world s) (st_world s')"
  by (auto simp: time_since_def split: prod.splits dest: time_offline)

text \<open>An operation that leaves the panel's buffers and the mappings alone.\<close>

definition gentle :: "svc_state \<Rightarrow> svc_state \<Rightarrow> bool" where
  "gentle s s' \<longleftrightarrow>
     drew 0 (st_world s) (st_world s') \<and> mapped (st_world s') = mapped (st_world s) \<and>
     mem (st_world s') = mem (st_world s)"

lemma offline_gentle: "offline (st_world s) (st_world s') \<Longrightarrow> gentle s s'"
  by (simp add: gentle_def offline_drew offline_mapped offline_keeps(5))

lemma GetInfo_gentle: "ds_GetInfo E s = (r, s') \<Longrightarrow> gentle s s' \<and> \<not> is_panic r"
  by (auto simp: ds_GetInfo_def display_Info_def ioctl_get_info_def gentle_def recordErr_def
      mapped_def Let_def drew_same split: option.splits if_splits sum.splits intro: drew_event)

lemma SetOverlay_gentle: "ds_SetOverlay E req s = (r, s') \<Longrightarrow> gentle s s' \<and> \<not> is_panic r"
  by (auto simp: ds_SetOverlay_def display_SetOverlay_def ioctl_overlay_def gentle_def recordErr_def
      mapped_def Let_def drew_same split: option.splits if_splits sum.splits intro: drew_event)

lemma Health_gentle: "ds_Health E s = (r, s') \<Longrightarrow> gentle s s' \<and> \<not> is_panic r"
  by (auto simp: ds_Health_def split: prod.splits dest: time_since_offline intro: offline_gentle)

lemma GetMetrics_gentle: "ds_GetMetrics E s = (r, s') \<Longrightarrow> gentle s s' \<and> \<not> is_panic r"
  by (auto simp: ds_GetMetrics_def split: prod.splits dest: time_since_offline intro: offline_gentle)

lemma Rotate_gentle:
  assumes "ds_Rotate E order s = (r, s')"
  shows "gentle s s' \<and> (rand_works E \<longrightarrow> \<not> is_panic r)"
proof -
  obtain q cm w where c: "cm_Rotate E order (st_cm s) (st_world s) = (q, cm, w)" by (metis prod_cases3)
  have o: "offline (st_world s) w" "rand_works E \<Longrightarrow> \<not> is_panic q"
    using c by (auto simp: cm_Rotate_def dest: regenerate_offline regenerate_not_panic)
  obtain t w1 where t: "time_now E w = (t, w1)" by (metis surj_pair)
  have "offline (st_world s) w1" using offline_trans [OF o(1) time_offline [OF t]] .
  with assms c t o show ?thesis
    by (cases q) (auto simp: ds_Rotate_def Let_def spawn_def intro!: offline_gentle)
qed

lemma Reissue_gentle:
  assumes "ds_ReissueClientCert E s = (r, s')"
  shows "gentle s s' \<and> \<not> is_panic r"
proof -
  obtain q cm w where c: "cm_ReissueClientCert E (st_cm s) (st_world s) = (q, cm, w)"
    by (metis prod_cases3)
  from reissue_offline [OF c] assms c show ?thesis
    by (cases q) (auto simp: ds_ReissueClientCert_def Let_def spawn_def intro!: offline_gentle)
qed

lemma reach_gentle:
  assumes "reach E order x s = (r, s')" and "\<not> drawing x"
  shows "gentle s s' \<and>
    (rand_works E \<longrightarrow> (case x of Nothing q \<Rightarrow> r = q | _ \<Rightarrow> (\<exists>q. r = Some q \<and> \<not> is_panic q)))"
proof -
  have m: "is_panic (map_outcome f q) = is_panic q" for f :: "'x \<Rightarrow> msg" and q by (cases q) simp_all
  have b: "map_prod Some id (box f p) = (r, s') \<Longrightarrow> \<exists>q. p = (q, s') \<and> r = Some (map_outcome f q)"
    for f :: "'x \<Rightarrow> msg" and p
    by (cases p) (simp add: box_def)
  show ?thesis
    using assms
    by (cases x) (auto simp: gentle_def drew_same m dest!: b GetInfo_gentle SetOverlay_gentle Health_gentle
        GetMetrics_gentle Rotate_gentle Reissue_gentle)
qed

text \<open>A drawing operation sends at most one buffer.\<close>

lemma munmap_drew: "drew 0 w (snd (go_Munmap E a w))"
  by (auto simp: go_Munmap_def sys_munmap_def drew_same split: option.split intro: drew_event)

lemma mmap_drew: "go_Mmap E fd n w = (r, w') \<Longrightarrow> drew 0 w w'"
  by (auto simp: go_Mmap_def sys_mmap_def drew_same split: if_splits sum.splits prod.splits intro!: drew_event)

lemma get_buffer_drew: "ioctl_get_buffer E fd w = (r, w') \<Longrightarrow> drew 0 w w'"
  by (auto simp: ioctl_get_buffer_def Let_def intro!: drew_event)

lemma acquire_drew: "display_AcquireFrame E d w = (r, w') \<Longrightarrow> drew 0 w w'"
  by (auto simp: display_AcquireFrame_def drew_same Let_def split: if_splits sum.splits prod.splits
      dest!: mmap_drew get_buffer_drew intro: drew_before)

lemma commit_drew:
  assumes "frame_Commit E f m rg w = (r, f', w')"
  shows "drew 1 w w'"
proof -
  obtain q w1 where s: "ioctl_send E (fd_of w (fr_display f)) (commit_info f m rg) w = (q, w1)"
    by (metis surj_pair)
  then have "drew 1 w w1" by (auto simp: ioctl_send_def Let_def intro!: drew_event)
  with assms s drew_after [OF this munmap_drew] show ?thesis
    by (auto simp: frame_Commit_def drew_same split: if_splits option.splits)
qed

lemma with_pixels_drew: "drew n u w \<Longrightarrow> drew n u (with_pixels f px w)" "drew n (with_pixels f px u) w \<Longrightarrow> drew n u w"
  by (simp_all add: drew_def)

lemma time_since_drew: "time_since E t0 s = (d, s') \<Longrightarrow> drew 0 (st_world s) (st_world s')"
  by (rule offline_drew [OF time_since_offline])

lemma Fill_drew:
  assumes "ds_Fill E req s = (r, s')"
  shows "drew 1 (st_world s) (st_world s')"
proof (cases "ds_display (st_svc s)")
  case None
  with assms show ?thesis by (simp add: ds_Fill_def drew_same)
next
  case (Some d)
  obtain t0 w0 where t: "time_now E (st_world s) = (t0, w0)" by (metis surj_pair)
  obtain q w1 where a: "display_AcquireFrame E d w0 = (q, w1)" by (metis surj_pair)
  have e: "drew 0 (st_world s) w1"
    by (rule drew_before [OF offline_drew [OF time_offline [OF t]] acquire_drew [OF a]])
  show ?thesis
  proof (cases q)
    case (Ok f)
    obtain px where px: "mem w1 (fr_addr f) = Some px" using acquire_pixels [OF a [unfolded Ok]] by auto
    let ?w2 = "with_pixels f (fill_bytes (di_color (fr_info f)) (pfr_Argb req) px) w1"
    obtain c f' w3 where c: "frame_Commit E f (translateMode (pfr_Mode req)) None ?w2 = (c, f', w3)"
      by (metis prod_cases3)
    have d: "drew 1 (st_world s) w3" by (rule drew_before [OF e with_pixels_drew(2) [OF commit_drew [OF c]]])
    obtain el s4 where el: "time_since E t0 (s\<lparr>st_world := w3\<rparr>) = (el, s4)" by (metis surj_pair)
    have "drew 1 (st_world s) (st_world s4)" using drew_after [OF d] time_since_drew [OF el] by simp
    with d show ?thesis
      using assms Some t a Ok FillSolid_pixels [OF px, of "pfr_Argb req"] c el
      by (cases c) (auto simp: ds_Fill_def)
  qed (use assms Some t a drew_mono [OF e, of 1] in \<open>auto simp: ds_Fill_def\<close>)
qed

lemma refresh_finish_drew:
  assumes "refresh_finish E f h t0 ss s = (r, s')"
  shows "drew 1 (st_world s) (st_world s')"
proof -
  obtain q f2 w2 where c: "frame_Commit E f (translateMode (prh_Mode h)) (region_of_pb (prh_Region h))
      (st_world s) = (q, f2, w2)" by (metis prod_cases3)
  obtain el s3 where el: "time_since E t0 (s\<lparr>st_world := w2\<rparr>) = (el, s3)" by (metis surj_pair)
  have "drew 1 (st_world s) (st_world s3)"
    using drew_after [OF commit_drew [OF c]] time_since_drew [OF el] by simp
  with commit_drew [OF c] assms c el show ?thesis
    by (auto simp: refresh_finish_def split: outcome.splits option.splits)
qed

lemma Refresh_drew:
  assumes "ds_Refresh E ss s = (r, s')"
  shows "drew 1 (st_world s) (st_world s')"
proof (cases "s' = s")
  case False
  then obtain d c ss1 h where d: "ds_display (st_svc s) = Some d" "stream_Recv ss = (Inr c, ss1)"
    "RefreshChunk_GetPayload (Some c) = Some (RefreshChunk_Header (Some h))"
    using assms
    by (auto simp: ds_Refresh_def split: option.splits sum.splits prod.splits pb_payload.splits)
  obtain t0 w0 where t: "time_now E (st_world s) = (t0, w0)" by (metis surj_pair)
  obtain q w1 where a: "display_AcquireFrame E d w0 = (q, w1)" by (metis surj_pair)
  have e: "drew 0 (st_world s) w1"
    by (rule drew_before [OF offline_drew [OF time_offline [OF t]] acquire_drew [OF a]])
  show ?thesis
  proof (cases q)
    case (Ok f)
    obtain px where px: "mem w1 (fr_addr f) = Some px" "length px = fr_len f" "\<not> consumed f"
      using acquire_pixels [OF a [unfolded Ok]] by auto
    let ?s = "s\<lparr>st_world := w1\<rparr>"
    have b: "refresh_body E f h t0 ss1 ?s = (r, s')" using assms d t a Ok by (simp add: ds_Refresh_def)
    have m: "mem (st_world ?s) (fr_addr f) = Some px" using px(1) by simp
    note U = refresh_body_upload [OF m px(2,3), of E h t0 ss1]
    show ?thesis
    proof (cases "upload (fr_len f) h (ss_chunks ss1) (ss_end ss1)")
      case (Inl x)
      with U b obtain px' where "st_world s' = snd (go_Munmap E (fr_addr f) (with_pixels f px' w1))"
        by auto
      with drew_mono [OF drew_before [OF with_pixels_drew(1) [OF e] munmap_drew], of 1] show ?thesis
        by simp
    next
      case (Inr ds)
      with U b have "refresh_finish E f h t0 (ss1\<lparr>ss_chunks := []\<rparr>)
          (?s\<lparr>st_world := with_pixels f (copy_slice px ds) w1\<rparr>) = (r, s')" by simp
      from drew_before [OF with_pixels_drew(1) [OF e] refresh_finish_drew [OF this, simplified]]
      show ?thesis by simp
    qed
  qed (use assms d t a drew_mono [OF e, of 1] in \<open>auto simp: ds_Refresh_def\<close>)
qed (simp add: drew_same)

lemma reach_drew:
  assumes "reach E order x s = (r, s')"
  shows "drew (if drawing x then 1 else 0) (st_world s) (st_world s')"
proof (cases "drawing x")
  case True
  then show ?thesis
    using assms by (cases x) (auto simp: box_def intro: Fill_drew [OF surjective_pairing, simplified]
        Refresh_drew [OF surjective_pairing, simplified])
next
  case False
  with reach_gentle [OF assms] show ?thesis by (simp add: gentle_def)
qed

lemma arrive_drew:
  "drew (if draws op then 1 else 0) (st_world s) (st_world (snd (arrive E op s)))"
proof -
  obtain order q where op: "op = (order, q)" by (metis surj_pair)
  obtain x where x: "arrive E (order, q) s = reach E order x s" "explains x q"
    using arrive_reaches by blast
  have "drawing x \<longrightarrow> draws op" using explains_drawing [OF x(2)] by (simp add: op)
  then show ?thesis
    unfolding op x(1) by (auto intro: drew_mono [OF reach_drew [OF surjective_pairing]])
qed

section \<open>Answers and leaks\<close>

fun commit_refused :: "msg outcome option \<Rightarrow> bool" where
  "commit_refused (Some (Err (ErrStatus Internal t))) = has_prefix t ''commit: ''"
| "commit_refused _ = False"

text \<open>Going from \<open>w\<close> to \<open>w'\<close>, at most \<open>n\<close> mappings were added and none removed.\<close>

definition leaked :: "nat \<Rightarrow> world \<Rightarrow> world \<Rightarrow> bool" where
  "leaked n w w' \<longleftrightarrow>
     (\<exists>L. finite L \<and> card L \<le> n \<and> L \<inter> mapped w = {} \<and> mapped w' = mapped w \<union> L)"

lemma leaked_none: "mapped w' = mapped w \<Longrightarrow> leaked n w w'"
  unfolding leaked_def by (intro exI [of _ "{}"]) simp

lemma leaked_one: "a \<notin> mapped w \<Longrightarrow> mapped w' = insert a (mapped w) \<Longrightarrow> leaked 1 w w'"
  unfolding leaked_def by (intro exI [of _ "{a}"]) simp

lemma leaked_trans:
  assumes "leaked m u v" and "leaked n v w"
  shows "leaked (m + n) u w"
proof -
  obtain K L where "finite K" "card K \<le> m" "K \<inter> mapped u = {}" "mapped v = mapped u \<union> K"
    "finite L" "card L \<le> n" "L \<inter> mapped v = {}" "mapped w = mapped v \<union> L"
    using assms by (auto simp: leaked_def)
  moreover from this have "card (K \<union> L) \<le> m + n"
    using card_Un_le [of K L] by linarith
  ultimately show ?thesis unfolding leaked_def by (intro exI [of _ "K \<union> L"]) auto
qed

lemma released_answer:
  assumes "released w q w'"
  shows "\<not> is_panic q \<and> leaked (if commit_refused (Some (map_outcome f q)) then 1 else 0) w w'"
proof -
  have "has_prefix (''commit: '' @ m) ''commit: ''" for m by (simp add: has_prefix_def)
  with assms show ?thesis
    by (auto simp: released_def intro: leaked_none leaked_one [simplified])
qed

lemma reach_answers:
  assumes "reach E order x s = (r, s')" and "mmap_fresh E" and "munmap_works E" and "rand_works E"
    and "explains x q" and "typed q"
  shows "(case r of None \<Rightarrow> True | Some y \<Rightarrow> \<not> is_panic y) \<and>
    leaked (if commit_refused r then 1 else 0) (st_world s) (st_world s')"
proof (cases "drawing x")
  case False
  with reach_gentle [OF assms(1)] assms(4-6) show ?thesis
    by (cases x) (auto simp: gentle_def intro: leaked_none split: option.splits)
next
  case True
  have m: "is_panic (map_outcome f q) = is_panic q" for f :: "'x \<Rightarrow> msg" and q by (cases q) simp_all
  obtain y where y: "r = Some (map_outcome MRefreshResponse y)" "released (st_world s) y (st_world s')"
    using True assms(1) drawing_released [OF assms(2,3), of s]
    by (cases x) (auto simp: box_def case_prod_beta)
  with released_answer [OF y(2), of MRefreshResponse] m show ?thesis by auto
qed

section \<open>Credentials\<close>

text \<open>The operations leave the credentials alone, except the two that belong to them.\<close>

lemma keeps_cm:
  "st_cm (snd (time_since E t0 s)) = st_cm s" "st_cm (recordErr E e s) = st_cm s"
  "st_cm (snd (ds_GetInfo E s)) = st_cm s" "st_cm (snd (ds_SetOverlay E so s)) = st_cm s"
  "st_cm (snd (ds_Health E s)) = st_cm s" "st_cm (snd (ds_GetMetrics E s)) = st_cm s"
  by (auto simp: time_since_def recordErr_def ds_GetInfo_def ds_SetOverlay_def ds_Health_def
      ds_GetMetrics_def Let_def split: option.split prod.split outcome.split)

lemma since_cm: "time_since E t0 s = (d, s') \<Longrightarrow> st_cm s' = st_cm s"
  using keeps_cm(1) [of E t0 s] by simp

lemma drawing_keeps_cm:
  "st_cm (snd (ds_Fill E req s)) = st_cm s" "st_cm (snd (refresh_finish E f h t0 ss s)) = st_cm s"
  "st_cm (snd (refresh_body E f h t0 ss s)) = st_cm s" "st_cm (snd (ds_Refresh E ss s)) = st_cm s"
proof -
  show "st_cm (snd (ds_Fill E req s)) = st_cm s"
    by (auto simp: ds_Fill_def keeps_cm split: option.split prod.split outcome.split dest!: since_cm)
  show f: "st_cm (snd (refresh_finish E f h t0 ss s)) = st_cm s" for f h t0 ss s
    by (auto simp: refresh_finish_def keeps_cm split: option.split prod.split outcome.split dest!: since_cm)
  show b: "st_cm (snd (refresh_body E f h t0 ss s)) = st_cm s" for f h t0 ss s
    by (auto simp: refresh_body_def f Let_def split: prod.split outcome.split)
  show "st_cm (snd (ds_Refresh E ss s)) = st_cm s"
    by (auto simp: ds_Refresh_def keeps_cm b
        split: option.split sum.split prod.split outcome.split pb_payload.split)
qed

lemma credential_ops_cm:
  "st_cm (snd (ds_Rotate E order s)) = fst (snd (cm_Rotate E order (st_cm s) (st_world s)))"
  "st_cm (snd (ds_ReissueClientCert E s)) = fst (snd (cm_ReissueClientCert E (st_cm s) (st_world s)))"
  by (auto simp: ds_Rotate_def ds_ReissueClientCert_def spawn_def Let_def split: prod.split outcome.split)

lemma tokens_ok_step:
  assumes "cm_tokens_ok (cm, w)"
  shows "cm_tokens_ok (fst (snd (cm_Rotate E order cm w)), v)"
    "cm_tokens_ok (fst (snd (cm_ReissueClientCert E cm w)), v)"
  using cm_ops.step_inv [OF assms, of E "OpRotate order"] cm_ops.step_inv [OF assms, of E OpReissue]
  by (simp_all add: cm_tokens_ok_def)

lemma reach_tokens:
  assumes "cm_tokens_ok (st_cm s, st_world s)"
  shows "cm_tokens_ok (st_cm (snd (reach E order x s)), v)"
proof -
  have same: "st_cm t = st_cm s \<Longrightarrow> cm_tokens_ok (st_cm t, v)" for t :: svc_state
    using assms by (simp add: cm_tokens_ok_def)
  show ?thesis
    using tokens_ok_step [OF assms]
    by (cases x) (auto simp: box_def keeps_cm drawing_keeps_cm credential_ops_cm intro: same)
qed

section \<open>Sessions\<close>

lemma unauthorised_step: "\<not> authorised s op \<Longrightarrow> rpc_step E op s = s"
  by (simp add: rpc_step_def arrive_unauthorised)

lemma admitted_run:
  "fold (rpc_step E) (admitted E ops s) s = fold (rpc_step E) ops s"
  "replies E (admitted E ops s) s = served E ops s"
  by (induction E ops s rule: admitted.induct) (simp_all add: unauthorised_step)

lemma admitted_draws:
  "drew (length (filter draws (admitted E ops s))) (st_world s) (st_world (fold (rpc_step E) ops s))"
proof (induction E ops s rule: admitted.induct)
  case (1 E s)
  then show ?case by (simp add: drew_same)
next
  case (2 E op ops s)
  show ?case
  proof (cases "authorised s op")
    case True
    from drew_trans [OF arrive_drew 2(1) [OF True, unfolded rpc_step_def]] True show ?thesis
      by (simp add: rpc_step_def split: if_splits)
  next
    case False
    with 2(2) show ?thesis by (simp add: unauthorised_step)
  qed
qed

lemma strangers_not_admitted:
  assumes "list_all (\<lambda>op. \<not> authorised s op) ops"
  shows "admitted E ops s = []"
  using assms by (induction ops) (simp_all add: unauthorised_step)

lemma step_answers:
  assumes "mmap_fresh E" and "munmap_works E" and "rand_works E" and "typed (snd op)"
  shows "(case fst (arrive E op s) of None \<Rightarrow> True | Some y \<Rightarrow> \<not> is_panic y) \<and>
    leaked (if commit_refused (fst (arrive E op s)) then 1 else 0) (st_world s) (st_world (rpc_step E op s))"
proof -
  obtain order q where op: "op = (order, q)" by (metis surj_pair)
  obtain x where x: "arrive E (order, q) s = reach E order x s" "explains x q"
    using arrive_reaches by blast
  have "typed q" using assms(4) op by simp
  from reach_answers [OF surjective_pairing assms(1-3) x(2) this, of order s] show ?thesis
    by (simp add: op x(1) rpc_step_def)
qed

interpretation sessions: credential_store "rpc_step E" "\<lambda>s. cm_tokens_ok (st_cm s, st_world s)"
    "\<lambda>s. [cm_Token (st_cm s), cm_AdminToken (st_cm s)]" for E
proof unfold_locales
  fix s :: svc_state and op :: "string list \<times> rpc"
  assume ok: "cm_tokens_ok (st_cm s, st_world s)"
  obtain order q where op: "op = (order, q)" by (metis surj_pair)
  obtain x where x: "arrive E (order, q) s = reach E order x s" using arrive_reaches by blast
  show "cm_tokens_ok (st_cm (rpc_step E op s), st_world (rpc_step E op s))"
    unfolding rpc_step_def op x by (rule reach_tokens [OF ok])
qed (auto simp: cm_tokens_ok_def cm_Token_def cm_AdminToken_def)

section \<open>Properties\<close>

text \<open>
  C4. Only authorised requests count.  In a session of any requests by any clients, the final state
  (display, credentials, files, goroutines) and the answers to the admitted requests are exactly
  those of the session without the rejected requests; the panel gets at most one buffer for each
  admitted \<open>Fill\<close> or \<open>Refresh\<close>; and when nobody presents a current token, nothing changes at all.
\<close>

theorem rejected_requests_are_invisible:
  "fold (rpc_step E) ops s = fold (rpc_step E) (admitted E ops s) s \<and>
   served E ops s = replies E (admitted E ops s) s \<and>
   (\<exists>new. sends (st_world (fold (rpc_step E) ops s)) = new @ sends (st_world s) \<and>
      length new \<le> length (filter draws (admitted E ops s))) \<and>
   (list_all (\<lambda>op. case presented (rpc_ctx (snd op)) of
        None \<Rightarrow> True
      | Some t \<Rightarrow> t \<noteq> cm_Token (st_cm s) \<and> t \<noteq> cm_AdminToken (st_cm s)) ops \<longrightarrow>
    fold (rpc_step E) ops s = s)"
proof (intro conjI impI)
  show "fold (rpc_step E) ops s = fold (rpc_step E) (admitted E ops s) s"
    by (simp add: admitted_run)
  show "served E ops s = replies E (admitted E ops s) s" by (simp add: admitted_run)
  show "\<exists>new. sends (st_world (fold (rpc_step E) ops s)) = new @ sends (st_world s) \<and>
      length new \<le> length (filter draws (admitted E ops s))"
    by (rule drew_keeps(4) [OF admitted_draws])
  assume a: "list_all (\<lambda>op. case presented (rpc_ctx (snd op)) of
        None \<Rightarrow> True
      | Some t \<Rightarrow> t \<noteq> cm_Token (st_cm s) \<and> t \<noteq> cm_AdminToken (st_cm s)) ops"
  have "\<not> authorised s op" if "case presented (rpc_ctx (snd op)) of None \<Rightarrow> True
      | Some t \<Rightarrow> t \<noteq> cm_Token (st_cm s) \<and> t \<noteq> cm_AdminToken (st_cm s)" for op
    using that check_cases [of "st_cm s" "rpc_ctx (snd op)"] check_None [of "rpc_ctx (snd op)" "st_cm s"]
    by (auto simp: authorised_def valid_token_def split: option.splits)
  then have "list_all (\<lambda>op. \<not> authorised s op) ops" using a by (auto simp: list_all_iff)
  from strangers_not_admitted [OF this] admitted_run(1) [of E ops s]
  show "fold (rpc_step E) ops s = s" by simp
qed

text \<open>A session of two guesses at a token: a fill and an attempt to rotate the credentials.\<close>

definition guesses :: "(string list \<times> rpc) list" where
  "guesses =
     [(all_names, Call ''Fill'' (bearer_ctx ''guess'') (\<lambda>m. Inr m)),
      (all_names, Call ''Rotate'' \<lparr>ctx_incoming = None\<rparr> (\<lambda>m. Inr m))]"

lemma rejected_requests_are_invisible_witness:
  "guesses \<noteq> [] \<and> fold (rpc_step demo_env) guesses demo_svc = demo_svc"
proof -
  have "list_all (\<lambda>op. case presented (rpc_ctx (snd op)) of
        None \<Rightarrow> True
      | Some t \<Rightarrow> t \<noteq> cm_Token (st_cm demo_svc) \<and> t \<noteq> cm_AdminToken (st_cm demo_svc)) guesses"
    by code_simp
  from mp [OF conjunct2 [OF conjunct2 [OF conjunct2
        [OF rejected_requests_are_invisible [of demo_env guesses demo_svc]]]] this]
  show ?thesis by (simp add: guesses_def del: fold_simps)
qed

text \<open>The type each client stub expects, by its accessor of \<open>display_grpc.pb.go\<close>.\<close>

definition stub_reads :: "string \<Rightarrow> msg \<Rightarrow> bool" where
  "stub_reads m x =
     (if m = ''GetInfo'' then as_DisplayInfo x \<noteq> None
      else if m = ''Fill'' \<or> m = ''Refresh'' then as_RefreshResponse x \<noteq> None
      else if m = ''SetOverlay'' then as_Empty x \<noteq> None
      else if m = ''Health'' then as_HealthResponse x \<noteq> None
      else if m = ''Rotate'' then as_RotateResponse x \<noteq> None
      else if m = ''ReissueClientCert'' then as_Reissue x \<noteq> None
      else m = ''GetMetrics'' \<and> as_GetMetricsResponse x \<noteq> None)"

text \<open>The names that the descriptor has for the kind of a request.\<close>

fun methods_of :: "rpc \<Rightarrow> string set" where
  "methods_of (Call m ctx dec) =
     fst ` set (sd_Methods Display_ServiceDesc :: (string \<times> svc_state method_handler) list)"
| "methods_of (Upload m ss) =
     fst ` set (sd_Streams Display_ServiceDesc :: (string \<times> (svc_state DisplayServer \<Rightarrow> svc_state stream_handler)) list)"

lemma box_Ok: "map_prod Some id (box f p) = (Some (Ok x), s') \<Longrightarrow> \<exists>y. x = f y"
  by (cases "fst p") (auto simp: box_def map_prod_def split: prod.splits)

lemma reach_typed:
  assumes "reach E order x s = (Some (Ok y), s')" and "explains x q"
  shows "stub_reads (rpc_method q) y"
  using assms by (cases x) (auto simp: stub_reads_def dest!: box_Ok)

text \<open>
  C7. Answers have the type of their method.  Whatever bytes a client sends to whatever method, an
  \<open>Ok\<close> answer is a message of the very type that the client stub of that method decodes, so the stub
  never falls back to an empty reply, and it is only given to an authorised request; no answer is given
  exactly when the descriptor has no method of that name and kind.
\<close>

theorem rpc_answers_typed:
  "(case fst (arrive E (order, q) s) of
      None \<Rightarrow> rpc_method q \<notin> methods_of q
    | Some r \<Rightarrow> rpc_method q \<in> methods_of q \<and>
        (case r of Ok x \<Rightarrow> stub_reads (rpc_method q) x \<and> authorised s (order, q) | _ \<Rightarrow> True))"
proof -
  obtain x where x: "arrive E (order, q) s = reach E order x s" "explains x q"
    using arrive_reaches by blast
  have "fst (arrive E (order, q) s) = None \<longleftrightarrow> rpc_method q \<notin> methods_of q"
    by (cases q) (simp_all add: map_of_eq_None_iff [symmetric] case_prod_beta split: option.split)
  moreover have "stub_reads (rpc_method q) y" if "fst (arrive E (order, q) s) = Some (Ok y)" for y
    using reach_typed [OF _ x(2), of E order s y] that by (simp add: x(1) prod_eq_iff)
  moreover have "authorised s (order, q)" if "fst (arrive E (order, q) s) = Some (Ok y)" for y
    using arrive_unauthorised [of s "(order, q)" E] that by auto
  ultimately show ?thesis by (auto split: option.splits outcome.splits)
qed

text \<open>
  C10. No session crashes the server or loses memory.  With an \<open>mmap\<close> that gives fresh addresses, a
  working \<open>munmap\<close> and a working random source, and a codec that keeps types, no request of any session
  panics, and the mappings left behind are at most as many as answers that report a refused
  commit: without those the process maps exactly what it mapped before.
\<close>

theorem sessions_never_panic:
  assumes "mmap_fresh E" and "munmap_works E" and "rand_works E"
    and "list_all (\<lambda>op. typed (snd op)) ops"
  shows "list_all (\<lambda>r. case r of None \<Rightarrow> True | Some y \<Rightarrow> \<not> is_panic y) (replies E ops s) \<and>
    (\<exists>L. finite L \<and> card L \<le> length (filter commit_refused (replies E ops s)) \<and>
       L \<inter> mapped (st_world s) = {} \<and>
       mapped (st_world (fold (rpc_step E) ops s)) = mapped (st_world s) \<union> L)"
  using assms(4)
proof (induction ops arbitrary: s)
  case Nil
  show ?case by (simp add: exI [of _ "{}"])
next
  case (Cons op ops)
  let ?s = "rpc_step E op s"
  have "typed (snd op)" using Cons.prems by simp
  note A = step_answers [OF assms(1-3) this, of s]
  have IH: "list_all (\<lambda>r. case r of None \<Rightarrow> True | Some y \<Rightarrow> \<not> is_panic y) (replies E ops ?s)"
    "leaked (length (filter commit_refused (replies E ops ?s))) (st_world ?s)
       (st_world (fold (rpc_step E) ops ?s))"
    using Cons.IH [of ?s] Cons.prems by (simp_all add: leaked_def)
  have "leaked (length (filter commit_refused (replies E (op # ops) s))) (st_world s)
      (st_world (fold (rpc_step E) (op # ops) s))"
    using leaked_trans [OF conjunct2 [OF A] IH(2)] by (simp split: if_splits)
  with A IH(1) show ?case by (simp add: leaked_def)
qed

lemma sessions_never_panic_witness:
  "list_all (\<lambda>r. case r of None \<Rightarrow> True | Some y \<Rightarrow> \<not> is_panic y) (replies demo_env
     [(all_names, Upload ''Refresh'' (demo_stream\<lparr>ss_context :=
          bearer_ctx ''operator-token-of-32-characters-''\<rparr>)),
      (all_names, Call ''Rotate'' (bearer_ctx ''admin-token-with--32-characters-'') (\<lambda>m. Inr m))]
     demo_svc)"
proof (rule conjunct1 [OF sessions_never_panic [OF demo_mmap_fresh demo_munmap]])
  show "rand_works demo_env" by (simp add: rand_works_def demo_env_def)
qed code_simp

text \<open>
  C12. Issued credentials survive every session.  A server that starts with well-formed tokens has
  well-formed tokens after any session, whatever was rotated, reissued, drawn or refused in it, and a
  client that then sends the current operator or admin token as its bearer token is admitted, by
  every method.
\<close>

theorem credentials_survive_sessions:
  assumes "token_ok (cm_Token (st_cm s))" and "token_ok (cm_AdminToken (st_cm s))"
    and "s' = fold (rpc_step E) ops s"
    and "t = cm_Token (st_cm s') \<or> t = cm_AdminToken (st_cm s')"
  shows "token_ok t \<and> authorised s' (order, Call m (bearer_ctx t) dec) \<and>
    authorised s' (order, Upload m (ss\<lparr>ss_context := bearer_ctx t\<rparr>))"
proof -
  have g: "cm_tokens_ok (st_cm s, st_world s)"
    using assms(1,2) by (simp add: cm_tokens_ok_def cm_Token_def cm_AdminToken_def)
  have "presented (bearer_ctx t) = Some t" "t \<noteq> []"
    using sessions.presents_later [OF g, of t E ops] assms(3,4) by auto
  with assms(4) check_cases [of "st_cm s'" "bearer_ctx t"] have "check (st_cm s') (bearer_ctx t) = None"
    by (simp add: valid_token_def)
  moreover have "token_ok t"
    using sessions.run_inv [OF g, of E ops] assms(3,4)
    by (auto simp: cm_tokens_ok_def cm_Token_def cm_AdminToken_def)
  ultimately show ?thesis by (simp add: authorised_def)
qed

lemma credentials_survive_sessions_witness:
  "\<exists>s'. s' = fold (rpc_step demo_env)
      [(all_names, Call ''Rotate'' (bearer_ctx ''admin-token-with--32-characters-'') (\<lambda>m. Inr m))] demo_svc \<and>
     authorised s' ([], Call ''GetInfo'' (bearer_ctx (cm_Token (st_cm s'))) (\<lambda>m. Inr m))"
proof -
  define s' where "s' = fold (rpc_step demo_env)
      [(all_names, Call ''Rotate'' (bearer_ctx ''admin-token-with--32-characters-'') (\<lambda>m. Inr m))] demo_svc"
  have t: "token_ok (cm_Token (st_cm demo_svc))" "token_ok (cm_AdminToken (st_cm demo_svc))"
    using demo_cm_tokens by (simp_all add: demo_svc_def)
  have c: "cm_Token (st_cm s') = cm_Token (st_cm s') \<or> cm_Token (st_cm s') = cm_AdminToken (st_cm s')"
    by blast
  from credentials_survive_sessions [OF t s'_def c] show ?thesis using s'_def by blast
qed

end
