(* ===== verification/Panel.thy ===== *)
theory Panel
  imports Rpc_Runs
begin

text \<open>
  What a session shows.  The buffers that reached the panel are compared with the requests that asked
  for them: one event of the device log for each admitted \<open>Fill\<close> or \<open>Refresh\<close> that got that far.
\<close>

section \<open>Pictures\<close>

text \<open>
  The window of a buffer: the region of the request, or the whole virtual panel.
\<close>

definition shows_window :: "pb_Region option \<Rightarrow> ebc_buf_info \<Rightarrow> bool" where
  "shows_window rg b \<longleftrightarrow>
     NewRegion (bi_win_x1 b) (bi_win_y1 b) (bi_win_x2 b) (bi_win_y2 b) =
       (case region_of_pb rg of None \<Rightarrow> NewRegion 0 0 (bi_vir_width b) (bi_vir_height b) | Some r \<Rightarrow> r)"

text \<open>
  The bytes are one colour when filling them with it changes nothing; an upload shows when the bytes
  begin with what the stream carries.
\<close>

fun pictures :: "event \<Rightarrow> rpc \<Rightarrow> bool" where
  "pictures (EvSend fd b bs r) (Call m ctx dec) \<longleftrightarrow>
     m = ''Fill'' \<and>
     (case dec new_FillRequest of
        Inr (MFillRequest req) \<Rightarrow>
          bi_epd_mode b = translateMode (pfr_Mode req) \<and> shows_window None b \<and>
          fill_bytes (bi_panel_color b = 1) (pfr_Argb req) bs = bs
      | _ \<Rightarrow> False)"
| "pictures (EvSend fd b bs r) (Upload m ss) \<longleftrightarrow>
     m = ''Refresh'' \<and>
     (case ss_chunks ss of
        [] \<Rightarrow> False
      | c # cs \<Rightarrow>
          (case pck_Payload c of
             Some (RefreshChunk_Header (Some h)) \<Rightarrow>
               bi_epd_mode b = translateMode (prh_Mode h) \<and> shows_window (prh_Region h) b \<and>
               (case upload (length bs) h cs (ss_end ss) of
                  Inl e \<Rightarrow> False
                | Inr ds \<Rightarrow> take (length ds) bs = ds)
           | _ \<Rightarrow> False))"
| "pictures ev q \<longleftrightarrow> False"

fun send_error :: "rpc \<Rightarrow> go_error option" where
  "send_error (Call m ctx dec) = None"
| "send_error (Upload m ss) = ss_send ss"

text \<open>
  What one answered request may add to the log of the panel: nothing, and then no drawing succeeded,
  or one picture of the request, which the answer says the device took or refused.
\<close>

fun contributes :: "event list \<Rightarrow> (string list \<times> rpc) \<times> msg outcome option \<Rightarrow> bool" where
  "contributes [] (op, a) \<longleftrightarrow>
     (draws op \<longrightarrow> (case a of None \<Rightarrow> True | Some r \<Rightarrow> \<not> is_ok r))"
| "contributes [ev] (op, a) \<longleftrightarrow>
     pictures ev (snd op) \<and>
     (case ev of
        EvSend fd b bs (Some n) \<Rightarrow> commit_refused a
      | _ \<Rightarrow>
          (case send_error (snd op) of
             None \<Rightarrow> (case a of None \<Rightarrow> False | Some r \<Rightarrow> is_ok r)
           | Some e \<Rightarrow> a = Some (Err e)))"
| "contributes _ _ \<longleftrightarrow> False"

section \<open>The two drawing operations\<close>

lemma fill_rgb_idem: "fill_rgb r g b 0 (fill_rgb r g b 0 px) = fill_rgb r g b 0 px"
  by (simp add: fill_rgb_eq)

lemma fill_idem: "fill_bytes color argb (fill_bytes color argb px) = fill_bytes color argb px"
  by (simp add: fill_bytes_def Let_def fill_rgb_idem fill_pair_eq)

lemma commit_info_shows:
  "bi_epd_mode (commit_info f m rg) = m"
  "bi_panel_color (commit_info f m rg) = 1 \<longleftrightarrow> di_color (fr_info f)"
  "shows_window rg' (commit_info f m (region_of_pb rg'))"
  by (simp_all add: commit_info_def shows_window_def NewRegion_def Let_def split: option.split)

lemma commit_sends:
  assumes "mem w (fr_addr f) = Some px" and "\<not> consumed f" and "frame_Commit E f m rg w = (c, f', w')"
  shows "\<exists>r. sends w' = EvSend (fd_of w (fr_display f)) (commit_info f m rg) px r # sends w \<and>
    (case r of None \<Rightarrow> c = Ok () | Some n \<Rightarrow> (\<exists>e. c = Err e))"
  using assms
  by (auto simp: frame_Commit_def ioctl_send_def Let_def commit_info_def split: option.splits)

lemma since_sends: "time_since E t0 s = (el, s') \<Longrightarrow> sends (st_world s') = sends (st_world s)"
  by (auto simp: time_since_def time_now_def Let_def)

lemma Fill_sends:
  assumes "ds_display (st_svc s) = Some d"
    and "display_AcquireFrame E d (snd (time_now E (st_world s))) = (Ok f, w1)"
    and "frame_bytes f w1 = Some px"
    and "ds_Fill E req s = (res, s')"
  shows "\<exists>r. sends (st_world s') =
      EvSend (fd_of w1 (fr_display f)) (commit_info f (translateMode (pfr_Mode req)) None)
        (fill_bytes (di_color (fr_info f)) (pfr_Argb req) px) r # sends (st_world s) \<and>
    (case r of None \<Rightarrow> is_ok res | Some n \<Rightarrow> \<exists>m. res = Err (ErrStatus Internal (''commit: '' @ m)))"
proof -
  obtain t0 w0 where t: "time_now E (st_world s) = (t0, w0)" by (metis surj_pair)
  have a: "display_AcquireFrame E d w0 = (Ok f, w1)" using assms(2) t by simp
  have px: "mem w1 (fr_addr f) = Some px" "\<not> consumed f"
    using acquire_pixels(2) [OF a] assms(3) by (simp_all add: frame_bytes_def)
  have sw: "sends w1 = sends (st_world s)"
    using acquire_pixels(3) [OF a] sends_now [of E "st_world s"] t by simp
  let ?px = "fill_bytes (di_color (fr_info f)) (pfr_Argb req) px"
  let ?w2 = "with_pixels f ?px w1"
  obtain c f' w3 where c: "frame_Commit E f (translateMode (pfr_Mode req)) None ?w2 = (c, f', w3)"
    by (metis prod_cases3)
  obtain el s4 where el: "time_since E t0 (s\<lparr>st_world := w3\<rparr>) = (el, s4)" by (metis surj_pair)
  have "mem ?w2 (fr_addr f) = Some ?px" by simp
  from commit_sends [OF this px(2) c] obtain r where r: "sends w3 =
      EvSend (fd_of w1 (fr_display f)) (commit_info f (translateMode (pfr_Mode req)) None) ?px r # sends w1"
    "case r of None \<Rightarrow> c = Ok () | Some n \<Rightarrow> (\<exists>e. c = Err e)" by auto
  have F: "(res, s') = (case c of Ok u \<Rightarrow> (Ok \<lparr>prr_ElapsedMs = milliseconds el\<rparr>, s4)
      | Err e \<Rightarrow> (Err (ErrStatus Internal (''commit: '' @ err_text E e)), recordErr E e (s\<lparr>st_world := w3\<rparr>))
      | Panic p \<Rightarrow> (Panic p, s\<lparr>st_world := w3\<rparr>))"
    using assms(1,4) t a c el FillSolid_pixels [OF px(1), of "pfr_Argb req"]
    by (simp add: ds_Fill_def split: outcome.splits)
  show ?thesis
    using r F sw since_sends [OF el] by (intro exI [of _ r]) (auto split: option.splits)
qed

lemma drew_none_sends: "drew 0 w w' \<Longrightarrow> sends w' = sends w"
  using drew_keeps(4) [of 0 w w'] by auto

lemma acquire_fails_sends:
  assumes "display_AcquireFrame E d (snd (time_now E w)) = (q, w')" and "\<not> is_ok q"
  shows "sends w' = sends w"
  using drew_none_sends [OF acquire_drew [OF assms(1)]] by simp

lemma is_ok_map [simp]: "is_ok (map_outcome f r) = is_ok r"
  by (cases r) simp_all

lemma commit_message: "commit_refused (Some (Err (ErrStatus Internal (''commit: '' @ m))))"
  by (simp add: has_prefix_def)

text \<open>What one operation adds to the log of the panel.\<close>

definition adds :: "event list \<Rightarrow> svc_state \<Rightarrow> svc_state \<Rightarrow> bool" where
  "adds evs s s' \<longleftrightarrow> sends (st_world s') = evs @ sends (st_world s)"

lemma one_picture:
  assumes "adds [EvSend fd b bs r] s s'" and "pictures (EvSend fd b bs r) q"
    and "case r of
        None \<Rightarrow> (case send_error q of None \<Rightarrow> is_ok res | Some e \<Rightarrow> res = Err e)
      | Some n \<Rightarrow> \<exists>m. res = Err (ErrStatus Internal (''commit: '' @ m))"
  shows "\<exists>evs. adds evs s s' \<and> contributes evs ((order, q), Some (map_outcome f res))"
proof -
  have "contributes [EvSend fd b bs r] ((order, q), Some (map_outcome f res))"
  proof (cases r)
    case None
    with assms(2,3) show ?thesis by (auto split: option.splits)
  next
    case (Some n)
    with assms(3) obtain m where "res = Err (ErrStatus Internal (''commit: '' @ m))" by auto
    with Some assms(2) commit_message [of m] show ?thesis
      by (simp del: commit_refused.simps append_Cons)
  qed
  with assms(1) show ?thesis by blast
qed

lemma Fill_contributes:
  assumes "ds_Fill E req s = (res, s')" and "dec new_FillRequest = Inr (MFillRequest req)"
  shows "\<exists>evs. adds evs s s' \<and>
    contributes evs ((order, Call ''Fill'' ctx dec), Some (map_outcome MRefreshResponse res))"
proof (cases "ds_display (st_svc s)")
  case None
  with assms(1) show ?thesis
    by (intro exI [of _ "[]"]) (auto simp: ds_Fill_def adds_def)
next
  case (Some d)
  obtain q w1 where a: "display_AcquireFrame E d (snd (time_now E (st_world s))) = (q, w1)"
    by (metis surj_pair)
  show ?thesis
  proof (cases "is_ok q")
    case True
    then obtain f where f: "q = Ok f" by (cases q) simp_all
    obtain px where px: "frame_bytes f w1 = Some px"
      using acquire_pixels [OF a [unfolded f]] by (auto simp: frame_bytes_def)
    from Fill_sends [OF Some a [unfolded f] px assms(1)] obtain r where r:
      "adds [EvSend (fd_of w1 (fr_display f)) (commit_info f (translateMode (pfr_Mode req)) None)
        (fill_bytes (di_color (fr_info f)) (pfr_Argb req) px) r] s s'"
      "case r of None \<Rightarrow> is_ok res | Some n \<Rightarrow> \<exists>m. res = Err (ErrStatus Internal (''commit: '' @ m))"
      by (auto simp: adds_def)
    have "shows_window None (commit_info f (translateMode (pfr_Mode req)) None)"
      using commit_info_shows(3) [of None f] by (simp add: region_of_pb_def)
    with assms(2) have "pictures (EvSend (fd_of w1 (fr_display f))
        (commit_info f (translateMode (pfr_Mode req)) None)
        (fill_bytes (di_color (fr_info f)) (pfr_Argb req) px) r) (Call ''Fill'' ctx dec)"
      by (simp add: commit_info_shows fill_idem)
    then show ?thesis by (rule one_picture [OF r(1)]) (simp only: send_error.simps option.case r(2))
  next
    case False
    with Some a assms(1) acquire_fails_sends [OF a] show ?thesis
      by (intro exI [of _ "[]"])
        (auto simp: ds_Fill_def adds_def recordErr_def split: outcome.splits prod.splits)
  qed
qed

lemma Refresh_contributes:
  assumes "ds_Refresh E ss s = (res, s')"
  shows "\<exists>evs. adds evs s s' \<and>
    contributes evs ((order, Upload ''Refresh'' ss), Some (map_outcome MRefreshResponse res))"
proof (cases "ds_display (st_svc s)")
  case None
  with assms show ?thesis
    by (intro exI [of _ "[]"]) (auto simp: ds_Refresh_def adds_def)
next
  case (Some d)
  show ?thesis
  proof (cases "\<exists>c cs h. ss_chunks ss = c # cs \<and> pck_Payload c = Some (RefreshChunk_Header (Some h))")
    case False
    with Some assms show ?thesis
      by (intro exI [of _ "[]"])
        (auto simp: ds_Refresh_def adds_def stream_Recv_def RefreshChunk_GetPayload_def
          split: list.splits option.splits pb_payload.splits)
  next
    case True
    then obtain c cs h where c: "ss_chunks ss = c # cs"
      "pck_Payload c = Some (RefreshChunk_Header (Some h))" by blast
    obtain q w1 where a: "display_AcquireFrame E d (snd (time_now E (st_world s))) = (q, w1)"
      by (metis surj_pair)
    show ?thesis
    proof (cases "is_ok q")
      case True
      then obtain f where f: "q = Ok f" by (cases q) simp_all
      obtain px where px: "frame_bytes f w1 = Some px" "length px = fr_len f"
        using acquire_pixels [OF a [unfolded f]] by (auto simp: frame_bytes_def)
      note U = refresh_upload [OF Some c a [unfolded f] px(1) assms [symmetric]]
      show ?thesis
      proof (cases "upload (fr_len f) h cs (ss_end ss)")
        case (Inl e)
        with U show ?thesis by (intro exI [of _ "[]"]) (simp add: adds_def)
      next
        case (Inr ds)
        have len: "length (ds @ drop (length ds) px) = fr_len f"
          using upload_length [OF Inr] px(2) by simp
        from U Inr obtain r where r:
          "adds [EvSend (fd_of w1 (fr_display f))
            (commit_info f (translateMode (prh_Mode h)) (region_of_pb (prh_Region h)))
            (ds @ drop (length ds) px) r] s s'"
          "case r of
             None \<Rightarrow> (case ss_send ss of None \<Rightarrow> is_ok res | Some e \<Rightarrow> res = Err e)
           | Some n \<Rightarrow> \<exists>m. res = Err (ErrStatus Internal (''commit: '' @ m))"
          by (auto simp: adds_def)
        have "pictures (EvSend (fd_of w1 (fr_display f))
            (commit_info f (translateMode (prh_Mode h)) (region_of_pb (prh_Region h)))
            (ds @ drop (length ds) px) r) (Upload ''Refresh'' ss)"
          using c Inr by (simp only: pictures.simps len) (simp add: commit_info_shows)
        then show ?thesis by (rule one_picture [OF r(1)]) (simp only: send_error.simps option.case r(2))
      qed
    next
      case False
      with Some a assms c acquire_fails_sends [OF a] show ?thesis
        by (intro exI [of _ "[]"])
          (auto simp: ds_Refresh_def adds_def recordErr_def stream_Recv_def RefreshChunk_GetPayload_def
            split: outcome.splits prod.splits)
    qed
  qed
qed

section \<open>Sessions\<close>

lemma box_run: "map_prod Some id (box f p) = (a, s') \<Longrightarrow> \<exists>r. p = (r, s') \<and> a = Some (map_outcome f r)"
  by (cases p) (simp add: box_def)

lemma step_contributes:
  "\<exists>evs. adds evs s (rpc_step E op s) \<and> contributes evs (op, fst (arrive E op s))"
proof -
  obtain order q where op: "op = (order, q)" by (metis surj_pair)
  obtain x where x: "arrive E (order, q) s = reach E order x s" "explains x q"
    using arrive_reaches by blast
  obtain a s' where r: "reach E order x s = (a, s')" by (metis surj_pair)
  have "\<exists>evs. adds evs s s' \<and> contributes evs ((order, q), a)"
  proof (cases "drawing x")
    case False
    with reach_gentle [OF r] have "adds [] s s'"
      by (simp add: gentle_def adds_def drew_none_sends)
    moreover have "contributes [] ((order, q), a)"
      using x(2) False r by (cases x) (auto simp: draws_def split: option.splits)
    ultimately show ?thesis by blast
  next
    case True
    then consider req where "x = ReachedFill req" | ss where "x = ReachedRefresh ss"
      by (cases x) simp_all
    then show ?thesis
    proof cases
      case 1
      then obtain ctx dec where q: "q = Call ''Fill'' ctx dec" "dec new_FillRequest = Inr (MFillRequest req)"
        using x(2) by (cases q) (auto split: sum.splits)
      obtain res where F: "ds_Fill E req s = (res, s')" "a = Some (map_outcome MRefreshResponse res)"
        using box_run [of MRefreshResponse "ds_Fill E req s"] r 1 by auto
      from Fill_contributes [where dec = dec, OF F(1) q(2)] show ?thesis by (simp add: q(1) F(2))
    next
      case 2
      then have q: "q = Upload ''Refresh'' ss" using x(2) by simp
      obtain res where F: "ds_Refresh E ss s = (res, s')" "a = Some (map_outcome MRefreshResponse res)"
        using box_run [of MRefreshResponse "ds_Refresh E ss s"] r 2 by auto
      from Refresh_contributes [OF F(1)] show ?thesis by (simp add: q F(2))
    qed
  qed
  then show ?thesis by (simp add: op rpc_step_def x(1) r)
qed

text \<open>A red fill is pictured by red bytes and by no others, and an upload by the bytes it carries.\<close>

lemma pictures_example:
  "(let b = commit_info demo_frame WaveformFull None; e = (\<lambda>bs. EvSend 3 b bs None);
        q = Call ''Fill'' \<lparr>ctx_incoming = None\<rparr>
          (\<lambda>_. Inr (MFillRequest \<lparr>pfr_Argb = 0xFFFF0000, pfr_Mode = WAVEFORM_MODE_FULL\<rparr>));
        u = (\<lambda>m. Upload m demo_stream);
        g = EvSend 3 (commit_info demo_frame WaveformGC16 None)
    in pictures (e [255, 0, 0, 255, 0, 0]) q \<and> \<not> pictures (e [255, 0, 0, 255, 0, 1]) q \<and>
       pictures (g [1, 2, 3, 9] None) (u ''Refresh'') \<and> \<not> pictures (g [1, 2, 4, 9] None) (u ''Refresh'') \<and>
       \<not> pictures (e [1, 2, 3, 9]) (u ''Refresh''))"
  by code_simp

text \<open>
  C1. The panel shows what was asked for, and nothing else.  After any session, the buffers sent to
  the device split, in order, into one share for each admitted request: a \<open>Fill\<close> or \<open>Refresh\<close> adds at
  most one buffer, which is in the requested mode and window and is all of the requested colour, or
  begins with exactly the uploaded bytes; it adds none only when it fails; its answer says whether the
  device took the buffer; every other request, and every rejected one, adds nothing.
\<close>

theorem panel_log_refines_requests:
  "\<exists>shares. list_all2 contributes shares (zip (admitted E ops s) (served E ops s)) \<and>
     sends (st_world (fold (rpc_step E) ops s)) = concat (rev shares) @ sends (st_world s)"
proof (induction E ops s rule: admitted.induct)
  case (1 E s)
  show ?case by simp
next
  case (2 E op ops s)
  show ?case
  proof (cases "authorised s op")
    case True
    obtain evs where e: "adds evs s (rpc_step E op s)" "contributes evs (op, fst (arrive E op s))"
      using step_contributes by blast
    obtain shares where
      "list_all2 contributes shares (zip (admitted E ops (rpc_step E op s)) (served E ops (rpc_step E op s)))"
      "sends (st_world (fold (rpc_step E) ops (rpc_step E op s))) =
         concat (rev shares) @ sends (st_world (rpc_step E op s))"
      using 2(1) [OF True] by blast
    with e True show ?thesis
      by (intro exI [of _ "evs # shares"]) (simp add: adds_def)
  next
    case False
    with 2(2) show ?thesis by (simp add: unauthorised_step)
  qed
qed

end
