(* ===== verification/Draw_Conc.thy ===== *)
theory Draw_Conc
  imports Panel Interleave
begin

text \<open>
  Concurrent drawing.  The gRPC runtime runs every RPC in a goroutine of its own, and nothing in
  \<open>einkgrpc/displayservice.go\<close> keeps \<open>Fill\<close> and \<open>Refresh\<close> apart: only the single calls of the display
  hold its mutex.  The two handlers are cut here where another goroutine can come in between: after
  the acquisition of the frame, after each write to its pixels and after the commit.
\<close>

section \<open>Steps\<close>

datatype job = JobFill pb_FillRequest | JobRefresh refresh_stream

text \<open>Where a handler is, with its local variables.\<close>

datatype draw_pc =
    Waiting job
  | Filling int frame pb_FillRequest
  | Receiving int frame pb_RefreshHeader int refresh_stream
  | Committing int frame waveform_mode "Region option" "go_error option"
  | Answered "pb_RefreshResponse outcome"

text \<open>
  \<open>AcquireFrame\<close> maps every frame with \<open>MAP_SHARED\<close> at offset 0 of the device.  Whether two such mappings
  are the same memory is a matter of the driver: \<open>sh a b\<close> says that a write at \<open>a\<close> is seen at \<open>b\<close>.
\<close>

type_synonym sharing = "i64 \<Rightarrow> i64 \<Rightarrow> bool"

definition unshared :: sharing where "unshared a b = False"

definition spread :: "sharing \<Rightarrow> frame \<Rightarrow> world \<Rightarrow> world" where
  "spread sh f w = w\<lparr>mem := (\<lambda>a. case mem w a of
     None \<Rightarrow> None
   | Some bs \<Rightarrow> (if sh (fr_addr f) a then mem w (fr_addr f) else Some bs))\<rparr>"

definition acquired ::
    "env \<Rightarrow> dref \<Rightarrow> (int \<Rightarrow> frame \<Rightarrow> svc_state \<Rightarrow> draw_pc \<times> svc_state) \<Rightarrow> svc_state
       \<Rightarrow> draw_pc \<times> svc_state" where
  "acquired E d k s =
     (case time_now E (st_world s) of (t0, w0) \<Rightarrow>
     (case display_AcquireFrame E d w0 of
        (Err e, w1) \<Rightarrow>
          (Answered (Err (ErrStatus Internal (''acquireFrame: '' @ err_text E e))),
           recordErr E e (s\<lparr>st_world := w1\<rparr>))
      | (Panic p, w1) \<Rightarrow> (Answered (Panic p), s\<lparr>st_world := w1\<rparr>)
      | (Ok f, w1) \<Rightarrow> k t0 f (s\<lparr>st_world := w1\<rparr>)))"

definition cancelled :: "env \<Rightarrow> frame \<Rightarrow> go_error \<Rightarrow> svc_state \<Rightarrow> draw_pc \<times> svc_state" where
  "cancelled E f e s =
     (Answered (Err e), s\<lparr>st_world := snd (snd (frame_Cancel E f (st_world s)))\<rparr>)"

fun draw_step :: "env \<Rightarrow> sharing \<Rightarrow> draw_pc \<Rightarrow> svc_state \<Rightarrow> draw_pc \<times> svc_state" where
  "draw_step E sh (Waiting (JobFill req)) s =
     (case ds_display (st_svc s) of
        None \<Rightarrow> (Answered (Err not_opened), s)
      | Some d \<Rightarrow> acquired E d (\<lambda>t0 f s1. (Filling t0 f req, s1)) s)"
| "draw_step E sh (Waiting (JobRefresh ss)) s =
     (case ds_display (st_svc s) of
        None \<Rightarrow> (Answered (Err not_opened), s)
      | Some d \<Rightarrow>
     (case stream_Recv ss of
        (Inl e, ss1) \<Rightarrow> (Answered (Err e), s)
      | (Inr first, ss1) \<Rightarrow>
     (case RefreshChunk_GetPayload (Some first) of
        Some (RefreshChunk_Header (Some h)) \<Rightarrow>
          acquired E d (\<lambda>t0 f s1.
            if prh_TotalBytes h < 0 \<or> prh_TotalBytes h > int (fr_len f)
            then cancelled E f (invalid (''total_bytes '' @ show_int (prh_TotalBytes h) @ '' out of range'')) s1
            else (Receiving t0 f h 0 ss1, s1)) s
      | _ \<Rightarrow> (Answered (Err (invalid ''first chunk must be RefreshHeader'')), s))))"
| "draw_step E sh (Filling t0 f req) s =
     (case FillSolid f (pfr_Argb req) (st_world s) of
        (Err e, w) \<Rightarrow> (Answered (Err e), s\<lparr>st_world := w\<rparr>)
      | (Panic p, w) \<Rightarrow> (Answered (Panic p), s\<lparr>st_world := w\<rparr>)
      | (Ok _, w) \<Rightarrow>
          (Committing t0 f (translateMode (pfr_Mode req)) None None, s\<lparr>st_world := spread sh f w\<rparr>))"
| "draw_step E sh (Receiving t0 f h written ss) s =
     (case stream_Recv ss of
        (Inl e, ss1) \<Rightarrow>
          (if \<not> is_EOF e then cancelled E f e s
           else if written \<noteq> prh_TotalBytes h
           then cancelled E f (invalid (''got '' @ show_int written @ '' bytes, want ''
                  @ show_int (prh_TotalBytes h))) s
           else (Committing t0 f (translateMode (prh_Mode h)) (region_of_pb (prh_Region h)) (ss_send ss1), s))
      | (Inr chunk, ss1) \<Rightarrow>
          (case RefreshChunk_GetPayload (Some chunk) of
             Some (RefreshChunk_Data data) \<Rightarrow>
               (let hi = written + int (length data)
                in if hi > prh_TotalBytes h then cancelled E f (invalid ''chunk overflows total_bytes'') s
                   else case copy_pixels f written hi data (st_world s) of
                       (Ok _, w1) \<Rightarrow> (Receiving t0 f h hi ss1, s\<lparr>st_world := spread sh f w1\<rparr>)
                     | (Err e, w1) \<Rightarrow> (Answered (Err e), s\<lparr>st_world := w1\<rparr>)
                     | (Panic p, w1) \<Rightarrow> (Answered (Panic p), s\<lparr>st_world := w1\<rparr>))
           | _ \<Rightarrow> cancelled E f (invalid ''expected data chunk after header'') s))"
| "draw_step E sh (Committing t0 f m rg send) s =
     (case frame_Commit E f m rg (st_world s) of
        (Err e, f', w) \<Rightarrow>
          (Answered (Err (ErrStatus Internal (''commit: '' @ err_text E e))),
           recordErr E e (s\<lparr>st_world := w\<rparr>))
      | (Panic p, f', w) \<Rightarrow> (Answered (Panic p), s\<lparr>st_world := w\<rparr>)
      | (Ok _, f', w) \<Rightarrow>
     (case time_since E t0 (s\<lparr>st_world := w\<rparr>) of (el, s1) \<Rightarrow>
          (Answered (case send of None \<Rightarrow> Ok \<lparr>prr_ElapsedMs = milliseconds el\<rparr> | Some e \<Rightarrow> Err e), s1)))"
| "draw_step E sh (Answered r) s = (Answered r, s)"

text \<open>A schedule says which goroutine makes the next step.\<close>

type_synonym draws = "draw_pc list \<times> svc_state"

abbreviation sched_step :: "env \<Rightarrow> sharing \<Rightarrow> nat \<Rightarrow> draws \<Rightarrow> draws" where
  "sched_step E sh \<equiv> interleave (draw_step E sh)"

definition draw_run :: "env \<Rightarrow> sharing \<Rightarrow> nat list \<Rightarrow> job list \<Rightarrow> svc_state \<Rightarrow> draws" where
  "draw_run E sh sched jobs s = fold (sched_step E sh) sched (map Waiting jobs, s)"

section \<open>One goroutine alone is the handler\<close>

definition serve :: "env \<Rightarrow> job \<Rightarrow> svc_state \<Rightarrow> pb_RefreshResponse outcome \<times> svc_state" where
  "serve E j s = (case j of JobFill req \<Rightarrow> ds_Fill E req s | JobRefresh ss \<Rightarrow> ds_Refresh E ss s)"

text \<open>\<open>runs_to E p s r s'\<close>: undisturbed, with memory of its own, the handler at \<open>p\<close> answers \<open>r\<close>.\<close>

definition runs_to ::
    "env \<Rightarrow> draw_pc \<Rightarrow> svc_state \<Rightarrow> pb_RefreshResponse outcome \<times> svc_state \<Rightarrow> bool" where
  "runs_to E p s rs \<longleftrightarrow> alone_to (draw_step E unshared) p s (Answered (fst rs)) (snd rs)"

lemma spread_unshared [simp]: "spread unshared f w = w"
  by (rule world.equality) (auto simp: spread_def unshared_def fun_eq_iff split: option.split)

lemma runs_to_answered: "rs = (r, s) \<Longrightarrow> runs_to E (Answered r) s rs"
  by (simp add: runs_to_def alone_here)

lemma runs_to_step: "draw_step E unshared p s = (p1, s1) \<Longrightarrow> runs_to E p1 s1 rs \<Longrightarrow> runs_to E p s rs"
  unfolding runs_to_def by (rule alone_step)

lemma runs_to_answer: "draw_step E unshared p s = (Answered r, s1) \<Longrightarrow> rs = (r, s1) \<Longrightarrow> runs_to E p s rs"
  by (rule runs_to_step [OF _ runs_to_answered])

text \<open>The rest of \<open>Refresh\<close> from the receive loop on.\<close>

definition receive_rest ::
    "env \<Rightarrow> int \<Rightarrow> frame \<Rightarrow> pb_RefreshHeader \<Rightarrow> int \<Rightarrow> refresh_stream \<Rightarrow> svc_state
       \<Rightarrow> pb_RefreshResponse outcome \<times> svc_state" where
  "receive_rest E t0 f h n ss s =
     (case refresh_loop E f (prh_TotalBytes h) n ss (st_world s) of
        (Err e, ss1, f1, w1) \<Rightarrow> (Err e, s\<lparr>st_world := w1\<rparr>)
      | (Panic p, ss1, f1, w1) \<Rightarrow> (Panic p, s\<lparr>st_world := w1\<rparr>)
      | (Ok written, ss1, f1, w1) \<Rightarrow>
          (if written \<noteq> prh_TotalBytes h
           then (Err (invalid (''got '' @ show_int written @ '' bytes, want '' @ show_int (prh_TotalBytes h))),
                 s\<lparr>st_world := snd (snd (frame_Cancel E f1 w1))\<rparr>)
           else refresh_finish E f1 h t0 ss1 (s\<lparr>st_world := w1\<rparr>)))"

lemma runs_to_cancelled:
  "runs_to E p s (Err e, s\<lparr>st_world := snd (snd (frame_Cancel E f (st_world s)))\<rparr>)"
  if "draw_step E unshared p s = cancelled E f e s"
  using that by (intro runs_to_step [OF _ runs_to_answered]) (simp_all add: cancelled_def)

lemma runs_to_Committing:
  "runs_to E (Committing t0 f (translateMode (prh_Mode h)) (region_of_pb (prh_Region h)) (ss_send ss)) s
     (refresh_finish E f h t0 ss s)"
proof (rule runs_to_step [OF _ runs_to_answered])
  show "draw_step E unshared
      (Committing t0 f (translateMode (prh_Mode h)) (region_of_pb (prh_Region h)) (ss_send ss)) s =
      (Answered (fst (refresh_finish E f h t0 ss s)), snd (refresh_finish E f h t0 ss s))"
    by (simp add: refresh_finish_def split: prod.split outcome.split option.split)
qed simp

lemma runs_to_Receiving: "runs_to E (Receiving t0 f h n ss) s (receive_rest E t0 f h n ss s)"
proof (induction "ss_chunks ss" arbitrary: ss n s)
  case Nil
  then have r: "stream_Recv ss = (Inl (ss_end ss), ss)" by (simp add: stream_Recv_def)
  let ?want = "prh_TotalBytes h"
  consider "\<not> is_EOF (ss_end ss)" | "is_EOF (ss_end ss)" "n \<noteq> ?want" | "is_EOF (ss_end ss)" "n = ?want"
    by blast
  then show ?case
  proof cases
    case 1
    then have "receive_rest E t0 f h n ss s =
        (Err (ss_end ss), s\<lparr>st_world := snd (snd (frame_Cancel E f (st_world s)))\<rparr>)"
      by (simp add: receive_rest_def refresh_loop.simps [of E f ?want n ss] r split: prod.split)
    with 1 r show ?thesis by (simp add: runs_to_cancelled)
  next
    case 2
    then have "receive_rest E t0 f h n ss s =
        (Err (invalid (''got '' @ show_int n @ '' bytes, want '' @ show_int ?want)),
         s\<lparr>st_world := snd (snd (frame_Cancel E f (st_world s)))\<rparr>)"
      by (simp add: receive_rest_def refresh_loop.simps [of E f ?want n ss] r)
    with 2 r show ?thesis by (simp add: runs_to_cancelled)
  next
    case 3
    from 3(1) have "refresh_loop E f ?want n ss (st_world s) = (Ok n, ss, f, st_world s)"
      by (simp add: refresh_loop.simps [of E f ?want n ss] r)
    then have "receive_rest E t0 f h n ss s = refresh_finish E f h t0 ss s"
      using 3(2) by (simp add: receive_rest_def)
    then show ?thesis
      using 3 r runs_to_step [OF _ runs_to_Committing, of E "Receiving t0 f h n ss" s t0 f h ss s] by simp
  qed
next
  case (Cons c cs)
  let ?want = "prh_TotalBytes h" and ?ss = "ss\<lparr>ss_chunks := cs\<rparr>"
  have r: "stream_Recv ss = (Inr c, ?ss)" using Cons.hyps(2) [symmetric] by (simp add: stream_Recv_def)
  note L = refresh_loop.simps [of E f ?want n ss "st_world s"]
  show ?case
  proof (cases "\<exists>d. RefreshChunk_GetPayload (Some c) = Some (RefreshChunk_Data d) \<and> n + int (length d) \<le> ?want")
    case False
    then obtain e where e: "draw_step E unshared (Receiving t0 f h n ss) s = cancelled E f e s"
      "refresh_loop E f ?want n ss (st_world s) = (Err e, ?ss, snd (frame_Cancel E f (st_world s)))"
      using r L by (auto split: option.splits pb_payload.splits simp: Let_def)
    have "receive_rest E t0 f h n ss s =
        (Err e, s\<lparr>st_world := snd (snd (frame_Cancel E f (st_world s)))\<rparr>)"
      unfolding receive_rest_def e(2) by (simp add: case_prod_beta)
    with runs_to_cancelled [OF e(1)] show ?thesis by simp
  next
    case True
    then obtain d where d: "RefreshChunk_GetPayload (Some c) = Some (RefreshChunk_Data d)"
      "n + int (length d) \<le> ?want" by blast
    obtain q w1 where w: "copy_pixels f n (n + int (length d)) d (st_world s) = (q, w1)"
      by (metis surj_pair)
    show ?thesis
    proof (cases q)
      case (Ok u)
      have st: "draw_step E unshared (Receiving t0 f h n ss) s =
          (Receiving t0 f h (n + int (length d)) ?ss, s\<lparr>st_world := w1\<rparr>)"
        using r d w Ok by (simp add: Let_def)
      have "refresh_loop E f ?want n ss (st_world s) =
          refresh_loop E f ?want (n + int (length d)) ?ss w1"
        unfolding L using r d w Ok by (simp add: Let_def)
      then have rr: "receive_rest E t0 f h n ss s =
          receive_rest E t0 f h (n + int (length d)) ?ss (s\<lparr>st_world := w1\<rparr>)"
        by (simp add: receive_rest_def split: prod.split outcome.split)
      show ?thesis unfolding rr by (rule runs_to_step [OF st Cons.hyps(1)]) simp
    qed (use L r d w in \<open>auto simp: receive_rest_def Let_def intro!: runs_to_answer\<close>)
  qed
qed

text \<open>Undisturbed, each goroutine computes what the handler of the sequential model does.\<close>

lemma acquired_alone:
  assumes "draw_step E unshared q s = acquired E d k s"
    and "\<And>t0 f s1. runs_to E (fst (k t0 f s1)) (snd (k t0 f s1)) (g t0 f s1)"
  shows "runs_to E q s (case time_now E (st_world s) of (t0, w0) \<Rightarrow>
     (case display_AcquireFrame E d w0 of
        (Err e, w1) \<Rightarrow>
          (Err (ErrStatus Internal (''acquireFrame: '' @ err_text E e)), recordErr E e (s\<lparr>st_world := w1\<rparr>))
      | (Panic p, w1) \<Rightarrow> (Panic p, s\<lparr>st_world := w1\<rparr>)
      | (Ok f, w1) \<Rightarrow> g t0 f (s\<lparr>st_world := w1\<rparr>)))"
proof -
  obtain t0 w0 where t: "time_now E (st_world s) = (t0, w0)" by (metis surj_pair)
  obtain r w1 where a: "display_AcquireFrame E d w0 = (r, w1)" by (metis surj_pair)
  note step = assms(1) [unfolded acquired_def t prod.case a]
  show ?thesis
  proof (cases r)
    case (Ok f)
    have "draw_step E unshared q s = (fst (k t0 f (s\<lparr>st_world := w1\<rparr>)), snd (k t0 f (s\<lparr>st_world := w1\<rparr>)))"
      using step Ok by simp
    from runs_to_step [OF this assms(2)] show ?thesis by (simp add: t a Ok)
  qed (use step t a in \<open>auto intro!: runs_to_answer\<close>)
qed

text \<open>The rest of \<open>Fill\<close> from the frame on.\<close>

definition fill_rest ::
    "env \<Rightarrow> int \<Rightarrow> frame \<Rightarrow> pb_FillRequest \<Rightarrow> svc_state \<Rightarrow> pb_RefreshResponse outcome \<times> svc_state" where
  "fill_rest E t0 f req s =
     (case FillSolid f (pfr_Argb req) (st_world s) of
        (Err e, w2) \<Rightarrow> (Err e, s\<lparr>st_world := w2\<rparr>)
      | (Panic p, w2) \<Rightarrow> (Panic p, s\<lparr>st_world := w2\<rparr>)
      | (Ok _, w2) \<Rightarrow>
     (case frame_Commit E f (translateMode (pfr_Mode req)) None w2 of
        (Err e, f', w3) \<Rightarrow>
          (Err (ErrStatus Internal (''commit: '' @ err_text E e)), recordErr E e (s\<lparr>st_world := w3\<rparr>))
      | (Panic p, f', w3) \<Rightarrow> (Panic p, s\<lparr>st_world := w3\<rparr>)
      | (Ok _, f', w3) \<Rightarrow>
     (case time_since E t0 (s\<lparr>st_world := w3\<rparr>) of (el, s4) \<Rightarrow>
          (Ok \<lparr>prr_ElapsedMs = milliseconds el\<rparr>, s4))))"

lemma runs_to_Filling: "runs_to E (Filling t0 f req) s (fill_rest E t0 f req s)"
proof -
  obtain q w where w: "FillSolid f (pfr_Argb req) (st_world s) = (q, w)" by (metis surj_pair)
  show ?thesis
  proof (cases q)
    case (Ok u)
    let ?p = "Committing t0 f (translateMode (pfr_Mode req)) None None"
    have "draw_step E unshared (Filling t0 f req) s = (?p, s\<lparr>st_world := w\<rparr>)" using w Ok by simp
    moreover have "draw_step E unshared ?p (s\<lparr>st_world := w\<rparr>) =
        (Answered (fst (fill_rest E t0 f req s)), snd (fill_rest E t0 f req s))"
      using w Ok by (simp add: fill_rest_def split: prod.split outcome.split)
    ultimately show ?thesis by (intro runs_to_step [OF _ runs_to_answer]) auto
  qed (use w in \<open>auto simp: fill_rest_def intro!: runs_to_answer\<close>)
qed

lemma alone: "runs_to E (Waiting j) s (serve E j s)"
proof (cases "ds_display (st_svc s)")
  case None
  then show ?thesis
    by (cases j) (auto simp: serve_def ds_Fill_def ds_Refresh_def intro!: runs_to_answer)
next
  case (Some d)
  show ?thesis
  proof (cases j)
    case (JobFill req)
    have step: "draw_step E unshared (Waiting j) s = acquired E d (\<lambda>t0 f s1. (Filling t0 f req, s1)) s"
      using Some JobFill by simp
    have "runs_to E (Waiting j) s (case time_now E (st_world s) of (t0, w0) \<Rightarrow>
       (case display_AcquireFrame E d w0 of
          (Err e, w1) \<Rightarrow>
            (Err (ErrStatus Internal (''acquireFrame: '' @ err_text E e)), recordErr E e (s\<lparr>st_world := w1\<rparr>))
        | (Panic p, w1) \<Rightarrow> (Panic p, s\<lparr>st_world := w1\<rparr>)
        | (Ok f, w1) \<Rightarrow> fill_rest E t0 f req (s\<lparr>st_world := w1\<rparr>)))"
      by (rule acquired_alone [OF step]) (simp add: runs_to_Filling)
    moreover have "serve E j s = (case time_now E (st_world s) of (t0, w0) \<Rightarrow>
       (case display_AcquireFrame E d w0 of
          (Err e, w1) \<Rightarrow>
            (Err (ErrStatus Internal (''acquireFrame: '' @ err_text E e)), recordErr E e (s\<lparr>st_world := w1\<rparr>))
        | (Panic p, w1) \<Rightarrow> (Panic p, s\<lparr>st_world := w1\<rparr>)
        | (Ok f, w1) \<Rightarrow> fill_rest E t0 f req (s\<lparr>st_world := w1\<rparr>)))"
      by (simp add: serve_def JobFill ds_Fill_def Some fill_rest_def split: prod.split outcome.split)
    ultimately show ?thesis by simp
  next
    case (JobRefresh ss)
    show ?thesis
    proof (cases "\<exists>c ss1 h. stream_Recv ss = (Inr c, ss1) \<and>
        RefreshChunk_GetPayload (Some c) = Some (RefreshChunk_Header (Some h))")
      case False
      with Some JobRefresh show ?thesis
        by (auto simp: serve_def ds_Refresh_def intro!: runs_to_answer
            split: sum.splits prod.splits option.splits pb_payload.splits)
    next
      case True
      then obtain c ss1 h where c: "stream_Recv ss = (Inr c, ss1)"
        "RefreshChunk_GetPayload (Some c) = Some (RefreshChunk_Header (Some h))" by blast
      let ?bad = "\<lambda>f. prh_TotalBytes h < 0 \<or> prh_TotalBytes h > int (fr_len f)"
      let ?e = "invalid (''total_bytes '' @ show_int (prh_TotalBytes h) @ '' out of range'')"
      let ?k = "\<lambda>t0 f s1. if ?bad f then cancelled E f ?e s1 else (Receiving t0 f h 0 ss1, s1)"
      have step: "draw_step E unshared (Waiting j) s = acquired E d ?k s"
        using Some JobRefresh c by simp
      have k: "runs_to E (fst (?k t0 f s1)) (snd (?k t0 f s1)) (refresh_body E f h t0 ss1 s1)" for t0 f s1
      proof (cases "?bad f")
        case True
        then show ?thesis by (auto simp: cancelled_def refresh_body_def Let_def intro!: runs_to_answered)
      next
        case False
        then have "refresh_body E f h t0 ss1 s1 = receive_rest E t0 f h 0 ss1 s1"
          by (simp add: refresh_body_def receive_rest_def Let_def)
        with False show ?thesis by (simp add: runs_to_Receiving)
      qed
      from acquired_alone [OF step k] show ?thesis
        by (simp add: serve_def JobRefresh ds_Refresh_def Some c)
    qed
  qed
qed

section \<open>What a step leaves alone\<close>

text \<open>
  From \<open>w\<close> to \<open>w'\<close> every mapping outside \<open>A\<close> stays mapped and keeps its bytes.
\<close>

definition others_kept :: "i64 set \<Rightarrow> world \<Rightarrow> world \<Rightarrow> bool" where
  "others_kept A w w' \<longleftrightarrow>
     (\<forall>a \<in> mapped w - A. mem w' a = mem w a \<and> a \<in> mapped w')"

lemma kept_same: "mem w' = mem w \<Longrightarrow> mapped w' = mapped w \<Longrightarrow> others_kept A w w'"
  by (simp add: others_kept_def)

lemma kept_trans: "others_kept A u v \<Longrightarrow> others_kept A v w \<Longrightarrow> others_kept A u w"
  by (simp add: others_kept_def)

lemma kept_mono: "others_kept A u v \<Longrightarrow> A \<subseteq> B \<Longrightarrow> others_kept B u v"
  by (auto simp: others_kept_def)

lemma kept_fresh:
  "others_kept A u v \<Longrightarrow> others_kept {a} v w \<Longrightarrow> a \<in> A \<or> a \<notin> mapped u \<Longrightarrow> others_kept A u w"
  unfolding others_kept_def by (metis Diff_iff singletonD)

lemma kept_now: "time_now E w = (t, w') \<Longrightarrow> others_kept A w w'"
  using mapped_simps(2) [of E w] by (auto simp: time_now_def Let_def intro!: kept_same)

lemma kept_since: "time_since E t0 s = (d, s') \<Longrightarrow> others_kept A (st_world s) (st_world s')"
  by (auto simp: time_since_def split: prod.splits dest: kept_now)

lemma kept_pixels: "others_kept {fr_addr f} w (with_pixels f px w)"
  by (simp add: others_kept_def)

lemma kept_munmap: "others_kept {a} w (snd (go_Munmap E a w))"
  by (auto simp: others_kept_def go_Munmap_def sys_munmap_def mapped_def split: option.split)

lemma kept_cancel: "others_kept {fr_addr f} w (snd (snd (frame_Cancel E f w)))"
  using kept_munmap [of "fr_addr f" w E] by (auto simp: frame_Cancel_def kept_same split: prod.split)

lemma kept_commit:
  assumes "frame_Commit E f m rg w = (r, f', w')"
  shows "others_kept {fr_addr f} w w'"
proof -
  obtain q w1 where s: "ioctl_send E (fd_of w (fr_display f)) (commit_info f m rg) w = (q, w1)"
    by (metis surj_pair)
  have k: "others_kept {fr_addr f} w w1"
    using ioctl_send_sel(1) [of E "fd_of w (fr_display f)" "commit_info f m rg" w]
      mapped_simps(3) [of E "fd_of w (fr_display f)" "commit_info f m rg" w] s
    by (intro kept_same) simp_all
  with assms s kept_trans [OF k kept_munmap] show ?thesis
    by (auto simp: frame_Commit_def kept_same split: if_splits option.splits)
qed

text \<open>A frame that its goroutine may write to.\<close>

definition live :: "frame \<Rightarrow> world \<Rightarrow> bool" where
  "live f w \<longleftrightarrow> \<not> consumed f \<and> fr_addr f \<in> mapped w \<and>
     (\<exists>px. mem w (fr_addr f) = Some px \<and> length px = fr_len f)"

lemma acquired_facts:
  assumes "display_AcquireFrame E d (snd (time_now E w)) = (q, w1)" and "mmap_fresh E"
  shows "others_kept {} w w1 \<and> sends w1 = sends w \<and> \<not> is_panic q \<and>
    (\<forall>f. q = Ok f \<longrightarrow> live f w1 \<and> fr_addr f \<notin> mapped w)"
proof -
  let ?w = "snd (time_now E w)"
  have w: "mem ?w = mem w" "mapped ?w = mapped w" by (simp_all add: time_now_def Let_def mapped_def)
  note m = mapped_acquire [OF assms]
  show ?thesis
  proof (cases q)
    case (Ok f)
    have "mem w1 a = mem ?w a" if "a \<noteq> fr_addr f" for a
      using acquire_Ok [OF assms(1) [unfolded Ok]] that by (metis fun_upd_other)
    then have "mem w1 a = mem w a" if "a \<in> mapped w" for a
      using m Ok w that by (metis (no_types, lifting) outcome.case(1))
    with Ok m w acquire_pixels [OF assms(1) [unfolded Ok]] show ?thesis
      by (auto simp: others_kept_def live_def)
  next
    case (Err e)
    then have "\<not> is_ok q" by simp
    from acquire_not_Ok [OF assms(1) this] acquire_fails_sends [OF assms(1) this] Err m w
    show ?thesis by (simp add: kept_same)
  next
    case (Panic p)
    with acquire_not_Ok(3) [OF assms(1)] show ?thesis by simp
  qed
qed

lemma live_kept: "live f w \<Longrightarrow> others_kept A w w' \<Longrightarrow> fr_addr f \<notin> A \<Longrightarrow> live f w'"
  by (auto simp: live_def others_kept_def)

section \<open>The invariant of a goroutine\<close>

fun pc_addrs :: "draw_pc \<Rightarrow> i64 set" where
  "pc_addrs (Filling t0 f req) = {fr_addr f}"
| "pc_addrs (Receiving t0 f h n ss) = {fr_addr f}"
| "pc_addrs (Committing t0 f m rg e) = {fr_addr f}"
| "pc_addrs _ = {}"

fun is_answered :: "draw_pc \<Rightarrow> bool" where
  "is_answered (Answered r) = True"
| "is_answered _ = False"

fun panicked :: "draw_pc \<Rightarrow> bool" where
  "panicked (Answered r) = is_panic r"
| "panicked _ = False"

fun answered_Ok :: "draw_pc \<Rightarrow> bool" where
  "answered_Ok (Answered r) = is_ok r"
| "answered_Ok _ = False"

fun job_rpc :: "job \<Rightarrow> rpc" where
  "job_rpc (JobFill req) = Call ''Fill'' \<lparr>ctx_incoming = None\<rparr> (\<lambda>m. Inr (MFillRequest req))"
| "job_rpc (JobRefresh ss) = Upload ''Refresh'' ss"

text \<open>The stream of an upload begins with the header \<open>h\<close>, and then come the chunks \<open>cs\<close>.\<close>

definition opens_with :: "refresh_stream \<Rightarrow> pb_RefreshHeader \<Rightarrow> pb_RefreshChunk list \<Rightarrow> bool" where
  "opens_with ss h cs \<longleftrightarrow>
     (\<exists>c. ss_chunks ss = c # cs \<and> pck_Payload c = Some (RefreshChunk_Header (Some h)))"

text \<open>Receiving is on its way: the frame begins with the first \<open>n\<close> bytes of the upload.\<close>

definition received ::
    "refresh_stream \<Rightarrow> frame \<Rightarrow> pb_RefreshHeader \<Rightarrow> int \<Rightarrow> refresh_stream \<Rightarrow> byte list \<Rightarrow> bool" where
  "received ss0 f h n ss px \<longleftrightarrow>
     0 \<le> n \<and> n \<le> prh_TotalBytes h \<and> prh_TotalBytes h \<le> int (fr_len f) \<and>
     (\<exists>cs. opens_with ss0 h cs \<and>
       receive (prh_TotalBytes h) 0 cs (ss_end ss0) =
         (case receive (prh_TotalBytes h) n (ss_chunks ss) (ss_end ss) of
            Inl e \<Rightarrow> Inl e
          | Inr ds \<Rightarrow> Inr (take (nat n) px @ ds)))"

fun pc_ok :: "job \<Rightarrow> draw_pc \<Rightarrow> world \<Rightarrow> bool" where
  "pc_ok j (Waiting j') w \<longleftrightarrow> j' = j"
| "pc_ok j (Filling t0 f req) w \<longleftrightarrow> j = JobFill req \<and> live f w"
| "pc_ok j (Receiving t0 f h n ss) w \<longleftrightarrow>
     live f w \<and> (\<exists>ss0. j = JobRefresh ss0 \<and> received ss0 f h n ss (the (mem w (fr_addr f))))"
| "pc_ok j (Committing t0 f m rg e) w \<longleftrightarrow>
     live f w \<and> (\<forall>fd r. pictures (EvSend fd (commit_info f m rg) (the (mem w (fr_addr f))) r) (job_rpc j))"
| "pc_ok j (Answered r) w \<longleftrightarrow> \<not> is_panic r"

lemma pc_ok_kept:
  assumes "pc_ok j p w" and "others_kept A w w'" and "pc_addrs p \<inter> A = {}"
  shows "pc_ok j p w'"
proof -
  have "mem w' a = mem w a" if "a \<in> mapped w" "a \<notin> A" for a
    using assms(2) that by (simp add: others_kept_def)
  with assms live_kept [OF _ assms(2)] show ?thesis
    by (cases p) (auto simp: live_def)
qed

text \<open>What one step does, seen from the other goroutines and from the panel.\<close>

definition good ::
    "job \<Rightarrow> draw_pc \<Rightarrow> world \<Rightarrow> draw_pc \<times> svc_state \<Rightarrow> bool" where
  "good j p w r \<longleftrightarrow>
     (let w' = st_world (snd r); p' = fst r in
      pc_ok j p' w' \<and> others_kept (pc_addrs p) w w' \<and> pc_addrs p' \<subseteq> pc_addrs p \<union> - mapped w \<and>
      (sends w' = sends w \<and> (answered_Ok p' \<longrightarrow> p = p') \<or>
       (\<exists>ev. sends w' = ev # sends w \<and> pictures ev (job_rpc j) \<and> \<not> is_answered p \<and> is_answered p')))"

lemma good_answer:
  "others_kept (pc_addrs p) w (st_world s') \<Longrightarrow> sends (st_world s') = sends w \<Longrightarrow>
     good j p w (Answered (Err e), s')"
  by (auto simp: good_def)

lemma good_quiet:
  "pc_ok j p' (st_world s') \<Longrightarrow> others_kept (pc_addrs p) w (st_world s') \<Longrightarrow>
     sends (st_world s') = sends w \<Longrightarrow> pc_addrs p' \<subseteq> pc_addrs p \<union> - mapped w \<Longrightarrow> \<not> is_answered p' \<Longrightarrow>
     good j p w (p', s')"
  by (cases p') (auto simp: good_def)

lemma sends_cancel: "sends (snd (snd (frame_Cancel E f w))) = sends w"
  by (simp add: frame_Cancel_def case_prod_beta)

lemma good_cancelled:
  assumes "others_kept (pc_addrs p) w (st_world s)" and "sends (st_world s) = sends w"
    and "fr_addr f \<in> pc_addrs p \<or> fr_addr f \<notin> mapped w"
  shows "good j p w (cancelled E f e s)"
  unfolding cancelled_def
  using assms kept_fresh [OF assms(1) kept_cancel assms(3)] by (intro good_answer) (simp_all add: sends_cancel)

lemma acquired_good:
  assumes "mmap_fresh E" and "pc_addrs p = {}"
    and "\<And>t0 f s1. others_kept {} (st_world s) (st_world s1) \<Longrightarrow> sends (st_world s1) = sends (st_world s) \<Longrightarrow>
      live f (st_world s1) \<Longrightarrow> fr_addr f \<notin> mapped (st_world s) \<Longrightarrow> good j p (st_world s) (k t0 f s1)"
  shows "good j p (st_world s) (acquired E d k s)"
proof -
  obtain t0 w0 where t: "time_now E (st_world s) = (t0, w0)" by (metis surj_pair)
  obtain q w1 where a: "display_AcquireFrame E d w0 = (q, w1)" by (metis surj_pair)
  have f: "others_kept {} (st_world s) w1 \<and> sends w1 = sends (st_world s) \<and> \<not> is_panic q \<and>
      (\<forall>f. q = Ok f \<longrightarrow> live f w1 \<and> fr_addr f \<notin> mapped (st_world s))"
    by (rule acquired_facts [OF _ assms(1), of d]) (simp add: t a)
  show ?thesis
    unfolding acquired_def t prod.case a
    using f assms(2) by (cases q) (auto intro!: good_answer assms(3))
qed

lemma good_Committing:
  assumes "pc_ok j (Committing t0 f m rg e) (st_world s)"
  shows "good j (Committing t0 f m rg e) (st_world s) (draw_step E sh (Committing t0 f m rg e) s)"
proof -
  let ?w = "st_world s" and ?p = "Committing t0 f m rg e"
  obtain px where px: "mem ?w (fr_addr f) = Some px" "\<not> consumed f"
    using assms by (auto simp: live_def)
  obtain c f' w' where c: "frame_Commit E f m rg ?w = (c, f', w')" by (metis prod_cases3)
  obtain r where r: "sends w' = EvSend (fd_of ?w (fr_display f)) (commit_info f m rg) px r # sends ?w"
    "case r of None \<Rightarrow> c = Ok () | Some n \<Rightarrow> (\<exists>e. c = Err e)"
    using commit_sends [OF px c] by blast
  have pic: "pictures (EvSend (fd_of ?w (fr_display f)) (commit_info f m rg) px r) (job_rpc j)"
    using assms px by simp
  note k = kept_commit [OF c]
  have ans: "good j ?p ?w (Answered q, s')" if "st_world s' = w''" "others_kept {fr_addr f} ?w w''"
    "sends w'' = sends w'" "\<not> is_panic q" for q s' w''
    using that r(1) pic by (auto simp: good_def)
  show ?thesis
  proof (cases c)
    case (Ok u)
    obtain el s1 where t: "time_since E t0 (s\<lparr>st_world := w'\<rparr>) = (el, s1)" by (metis surj_pair)
    have "others_kept {fr_addr f} ?w (st_world s1)"
      using kept_trans [OF k kept_since [OF t, simplified]] .
    with ans [of s1 "st_world s1"] since_sends [OF t] c Ok t show ?thesis by (simp split: option.split)
  next
    case (Err x)
    with c k show ?thesis by (simp add: ans)
  next
    case (Panic x)
    with commit_not_panic [of E f m rg ?w] c show ?thesis by metis
  qed
qed

lemma good_Filling:
  assumes "pc_ok j (Filling t0 f req) (st_world s)"
  shows "good j (Filling t0 f req) (st_world s) (draw_step E unshared (Filling t0 f req) s)"
proof -
  let ?w = "st_world s"
  obtain px where px: "mem ?w (fr_addr f) = Some px" "length px = fr_len f" "j = JobFill req"
    using assms by (auto simp: live_def)
  let ?px = "fill_bytes (di_color (fr_info f)) (pfr_Argb req) px"
  have "live f (with_pixels f ?px ?w)"
    using assms px by (simp add: live_def fill.length_paint)
  moreover have "shows_window None (commit_info f (translateMode (pfr_Mode req)) None)"
    using commit_info_shows(3) [of None f] by (simp add: region_of_pb_def)
  ultimately show ?thesis
    using FillSolid_pixels [OF px(1), of "pfr_Argb req"] px(3)
    by (auto intro!: good_quiet kept_pixels simp: commit_info_shows fill_idem)
qed

lemma good_Receiving:
  assumes "pc_ok j (Receiving t0 f h n ss) (st_world s)"
  shows "good j (Receiving t0 f h n ss) (st_world s) (draw_step E unshared (Receiving t0 f h n ss) s)"
proof -
  let ?w = "st_world s" and ?want = "prh_TotalBytes h" and ?p = "Receiving t0 f h n ss"
  obtain px ss0 where px: "mem ?w (fr_addr f) = Some px" "length px = fr_len f" and l: "live f ?w"
    and j: "j = JobRefresh ss0" and rc: "received ss0 f h n ss px"
    using assms by (auto simp: live_def)
  obtain cs where b: "0 \<le> n" "n \<le> ?want" "?want \<le> int (fr_len f)" and o: "opens_with ss0 h cs"
    and rec: "receive ?want 0 cs (ss_end ss0) = (case receive ?want n (ss_chunks ss) (ss_end ss) of
        Inl e \<Rightarrow> Inl e | Inr ds \<Rightarrow> Inr (take (nat n) px @ ds))"
    using rc by (auto simp: received_def)
  have can: "good j ?p ?w (cancelled E f e s)" for e
    by (rule good_cancelled) (simp_all add: kept_same)
  show ?thesis
  proof (cases "ss_chunks ss")
    case Nil
    then have r: "stream_Recv ss = (Inl (ss_end ss), ss)" by (simp add: stream_Recv_def)
    show ?thesis
    proof (cases "is_EOF (ss_end ss) \<and> n = ?want")
      case False
      then show ?thesis by (auto simp: r can)
    next
      case True
      then have "upload (length px) h cs (ss_end ss0) = Inr (take (nat n) px)"
        using rec Nil b px(2) by (simp add: upload_def Let_def)
      then have pic: "pictures (EvSend fd (commit_info f (translateMode (prh_Mode h))
          (region_of_pb (prh_Region h))) px r) (job_rpc j)" for fd r
        using o px(2) b by (auto simp: opens_with_def j commit_info_shows min_absorb2)
      show ?thesis using True l pic px(1) by (auto simp: r intro!: good_quiet kept_same)
    qed
  next
    case (Cons c cs')
    let ?ss = "ss\<lparr>ss_chunks := cs'\<rparr>"
    have r: "stream_Recv ss = (Inr c, ?ss)" using Cons by (simp add: stream_Recv_def)
    show ?thesis
    proof (cases "\<exists>d. pck_Payload c = Some (RefreshChunk_Data d) \<and> n + int (length d) \<le> ?want")
      case False
      then show ?thesis
        by (auto simp: r can RefreshChunk_GetPayload_def Let_def split: option.split pb_payload.split)
    next
      case True
      then obtain d where d: "pck_Payload c = Some (RefreshChunk_Data d)" "n + int (length d) \<le> ?want"
        by blast
      let ?n = "n + int (length d)" and ?px = "splice px (nat n) d"
      have c: "copy_pixels f n ?n d ?w = (Ok (), with_pixels f ?px ?w)"
        using px(1) b d(2) by (intro copy_pixels_ok) auto
      have len: "nat n + length d \<le> length px" using b d(2) px(2) by linarith
      have t: "take (nat ?n) ?px = take (nat n) px @ d" using len b(1) by (simp add: splice_def nat_add_distrib)
      have lx: "length ?px = fr_len f" using len px(2) by (simp add: splice_def)
      have "receive ?want n (ss_chunks ss) (ss_end ss) = (case receive ?want ?n cs' (ss_end ss) of
          Inl e \<Rightarrow> Inl e | Inr ds \<Rightarrow> Inr (d @ ds))"
        using d by (simp add: Cons)
      then have "received ss0 f h ?n ?ss ?px"
        unfolding received_def using b d(2) o rec t by (auto split: sum.splits)
      then show ?thesis
        using l lx c d r j
        by (auto simp: RefreshChunk_GetPayload_def Let_def live_def intro!: good_quiet kept_pixels)
    qed
  qed
qed

lemma good_Waiting:
  assumes "mmap_fresh E"
  shows "good j (Waiting j) (st_world s) (draw_step E unshared (Waiting j) s)"
proof (cases "ds_display (st_svc s)")
  case None
  then show ?thesis by (cases j) (auto intro!: good_answer kept_same)
next
  case (Some d)
  show ?thesis
  proof (cases j)
    case (JobFill req)
    with Some show ?thesis
      by (auto intro!: acquired_good [OF assms] good_quiet)
  next
    case (JobRefresh ss)
    show ?thesis
    proof (cases "\<exists>c cs h. ss_chunks ss = c # cs \<and> pck_Payload c = Some (RefreshChunk_Header (Some h))")
      case False
      with Some JobRefresh show ?thesis
        by (auto simp: stream_Recv_def RefreshChunk_GetPayload_def intro!: good_answer kept_same
            split: list.splits option.splits pb_payload.splits)
    next
      case True
      then obtain c cs h where c: "ss_chunks ss = c # cs" "pck_Payload c = Some (RefreshChunk_Header (Some h))"
        by blast
      have r: "received ss f h 0 (ss\<lparr>ss_chunks := cs\<rparr>) px"
        if "0 \<le> prh_TotalBytes h" "prh_TotalBytes h \<le> int (fr_len f)" for f px
        using that c unfolding received_def opens_with_def
        by (intro conjI exI [of _ cs]) (auto split: sum.split)
      show ?thesis
        using Some JobRefresh c r
        by (auto simp: stream_Recv_def RefreshChunk_GetPayload_def
            intro!: acquired_good [OF assms] good_quiet good_cancelled)
    qed
  qed
qed

lemma good_step:
  assumes "mmap_fresh E" and "pc_ok j p (st_world s)"
  shows "good j p (st_world s) (draw_step E unshared p s)"
proof (cases p)
  case (Waiting j')
  with assms good_Waiting show ?thesis by simp
next
  case (Answered r)
  with assms(2) show ?thesis by (simp add: good_def kept_same)
qed (use assms good_Filling good_Receiving good_Committing in \<open>simp_all only:\<close>)

section \<open>All goroutines together\<close>

text \<open>
  Each buffer that was sent has an owner, a goroutine that has answered and whose request the buffer
  pictures; no goroutine owns two, and each that answered \<open>Ok\<close> owns one.
\<close>

definition owned :: "job list \<Rightarrow> draw_pc list \<Rightarrow> event list \<Rightarrow> nat list \<Rightarrow> bool" where
  "owned = owned_by (\<lambda>ev j. pictures ev (job_rpc j)) is_answered answered_Ok"

definition memories_apart :: "draw_pc \<Rightarrow> draw_pc \<Rightarrow> bool" where
  "memories_apart p q \<longleftrightarrow> pc_addrs p \<inter> pc_addrs q = {}"

lemma pc_addrs_mapped: "pc_ok j p w \<Longrightarrow> pc_addrs p \<subseteq> mapped w"
  by (cases p) (auto simp: live_def)

lemma good_others:
  assumes "good j p (st_world s) (p', s')" and "pc_ok k q (st_world s)" and "pc_addrs p \<inter> pc_addrs q = {}"
  shows "pc_ok k q (st_world s') \<and> pc_addrs p' \<inter> pc_addrs q = {}"
proof -
  have "others_kept (pc_addrs p) (st_world s) (st_world s')"
    and "pc_addrs p' \<subseteq> pc_addrs p \<union> - mapped (st_world s)"
    using assms(1) by (simp_all add: good_def Let_def)
  with pc_ok_kept [OF assms(2)] pc_addrs_mapped [OF assms(2)] assms(3) show ?thesis by blast
qed

interpretation draws: logging_team "draw_step E unshared" "\<lambda>s. mmap_fresh E" "\<lambda>j p s. pc_ok j p (st_world s)"
  memories_apart "\<lambda>s. sends (st_world s)" "\<lambda>ev j. pictures ev (job_rpc j)" is_answered answered_Ok
  for E
proof unfold_locales
  show "memories_apart q p" if "memories_apart p q" for p q
    using that by (simp add: memories_apart_def Int_commute)
  show "draw_step E unshared p s = (p, s)" if "is_answered p" for p s
    using that by (cases p) simp_all
  fix s j p p' s'
  assume E: "mmap_fresh E" and p: "pc_ok j p (st_world s)" and "draw_step E unshared p s = (p', s')"
  then have g: "good j p (st_world s) (p', s')" using good_step [OF E p] by simp
  then show "mmap_fresh E \<and> pc_ok j p' (st_world s')" using E by (simp add: good_def Let_def)
  show "sends (st_world s') = sends (st_world s) \<and> (answered_Ok p' \<longrightarrow> p = p') \<or>
      (\<exists>e. sends (st_world s') = e # sends (st_world s) \<and> pictures e (job_rpc j) \<and> \<not> is_answered p \<and> is_answered p')"
    using g by (simp add: good_def Let_def)
  show "pc_ok k q (st_world s') \<and> memories_apart p' q" if "pc_ok k q (st_world s)" "memories_apart p q" for k q
    using good_others [OF g that(1)] that(2) by (simp add: memories_apart_def)
qed

lemma draws_hold:
  assumes "mmap_fresh E" and "(ps, s') = draw_run E unshared sched jobs s"
  shows "team_inv (\<lambda>s. mmap_fresh E) (\<lambda>j p s. pc_ok j p (st_world s)) memories_apart jobs (ps, s')"
    and "\<exists>evs owners. sends (st_world s') = evs @ sends (st_world s) \<and> owned jobs ps evs owners"
proof -
  have start: "team_inv (\<lambda>s. mmap_fresh E) (\<lambda>j p s. pc_ok j p (st_world s)) memories_apart jobs (map Waiting jobs, s)"
    using assms(1) by (simp add: team_inv_def memories_apart_def)
  from draws.team_run [OF this, of sched] assms(2)
  show "team_inv (\<lambda>s. mmap_fresh E) (\<lambda>j p s. pc_ok j p (st_world s)) memories_apart jobs (ps, s')"
    by (simp add: draw_run_def)
  show "\<exists>evs owners. sends (st_world s') = evs @ sends (st_world s) \<and> owned jobs ps evs owners"
    using draws.owned_run [OF start, of sched ps s'] assms(2) by (simp add: draw_run_def owned_def)
qed

section \<open>Every goroutine ends\<close>

text \<open>The steps a goroutine still has to make.\<close>

fun todo :: "draw_pc \<Rightarrow> nat" where
  "todo (Waiting (JobFill req)) = 3"
| "todo (Waiting (JobRefresh ss)) = length (ss_chunks ss) + 2"
| "todo (Filling t0 f req) = 2"
| "todo (Receiving t0 f h n ss) = length (ss_chunks ss) + 2"
| "todo (Committing t0 f m rg e) = 1"
| "todo (Answered r) = 0"

lemma todo_acquired:
  "(\<And>t0 f s1. todo (fst (k t0 f s1)) \<le> n) \<Longrightarrow> todo (fst (acquired E d k s)) \<le> n"
  by (auto simp: acquired_def split: prod.split outcome.split)

lemma todo_cancelled [simp]: "todo (fst (cancelled E f e s)) = 0"
  by (simp add: cancelled_def)

lemma todo_Waiting: "todo (fst (draw_step E sh (Waiting j) s)) < todo (Waiting j)"
proof (cases j)
  case (JobFill req)
  have "todo (fst (acquired E d (\<lambda>t0 f s1. (Filling t0 f req, s1)) s)) \<le> 2" for d
    by (rule todo_acquired) simp
  with JobFill show ?thesis by (auto simp: less_Suc_eq_le numeral_3_eq_3 numeral_2_eq_2 split: option.split)
next
  case (JobRefresh ss)
  show ?thesis
  proof (cases "ss_chunks ss")
    case Nil
    with JobRefresh show ?thesis by (simp add: stream_Recv_def split: option.split)
  next
    case (Cons c cs)
    have "todo (fst (acquired E d (\<lambda>t0 f s1.
          if prh_TotalBytes h < 0 \<or> prh_TotalBytes h > int (fr_len f)
          then cancelled E f (invalid (''total_bytes '' @ show_int (prh_TotalBytes h) @ '' out of range'')) s1
          else (Receiving t0 f h 0 (ss\<lparr>ss_chunks := cs\<rparr>), s1)) s)) \<le> length cs + 2" for d h
      by (rule todo_acquired) simp
    with JobRefresh Cons show ?thesis
      by (auto simp: stream_Recv_def less_Suc_eq_le split: option.split pb_payload.split)
  qed
qed

lemma todo_step: "todo (fst (draw_step E sh p s)) \<le> todo p - 1"
proof (cases p)
  case (Waiting j)
  with todo_Waiting [of E sh j s] show ?thesis by simp
next
  case (Receiving t0 f h n ss)
  then show ?thesis
    by (auto simp: stream_Recv_def Let_def split: list.split option.split pb_payload.split prod.split outcome.split)
qed (auto split: prod.split outcome.split)

lemma todo_0: "todo p = 0 \<longleftrightarrow> is_answered p"
proof (cases p)
  case (Waiting j)
  then show ?thesis by (cases j) simp_all
qed simp_all

lemma todo_run:
  "i < length jobs \<Longrightarrow>
     todo (fst (draw_run E sh sched jobs s) ! i) \<le> todo (Waiting (jobs ! i)) - count_list sched i"
  using counted_run [of todo "draw_step E sh" i "(map Waiting jobs, s)" sched] todo_step
  by (simp add: draw_run_def)

section \<open>Examples\<close>

definition two_env :: env where
  "two_env = demo_env\<lparr>e_mmap := (\<lambda>h fd n. if 4096 \<notin> live_maps h then Inr (4096, \<lambda>i. 7)
     else if 8192 \<notin> live_maps h then Inr (8192, \<lambda>i. 7) else Inl 12)\<rparr>"

definition demo_jobs :: "job list" where
  "demo_jobs = [JobRefresh demo_stream, JobFill \<lparr>pfr_Argb = 0xFFFF0000, pfr_Mode = WAVEFORM_MODE_FULL\<rparr>]"

lemma two_fresh: "mmap_fresh two_env"
  by (auto simp: mmap_fresh_def two_env_def split: if_splits)

lemma demo_fill:
  "fill_bytes True 0xFFFF0000 [1, 2, 3, 7, 7, 7, 7, 7, 7, 7, 7, 7] = [255, 0, 0, 255, 0, 0, 255, 0, 0, 255, 0, 0]"
  by code_simp

lemmas shared_eval = draw_run_def demo_jobs_def two_env_def demo_env_def demo_svc_def empty_world_def
  demo_stream_def demo_header_def acquired_def time_now_def Let_def stream_Recv_def RefreshChunk_GetPayload_def
  display_AcquireFrame_def ioctl_get_buffer_def go_Mmap_def sys_mmap_def FrameByteCount_def info_of_buf_def
  newDisplayInfo_def demo_info_def wrap64_def
  log_ev_def copy_pixels_def frame_update_def splice_def FillSolid_def frame_Commit_def ioctl_send_def
  go_Munmap_def sys_munmap_def time_since_def spread_def translateMode_def pb_mode_consts region_of_pb_def upt_rec

section \<open>Properties\<close>

text \<open>
  Concurrent drawings do not mix.  However the goroutines of any number of \<open>Fill\<close> and \<open>Refresh\<close> RPCs
  interleave, as long as the kernel gives each mapping memory of its own: none panics, the buffers
  sent to the panel correspond one to one to RPCs that have answered, each buffer is exactly the
  picture its RPC asked for, and every RPC that answered \<open>Ok\<close> has one.
\<close>

lemma concurrent_drawings_do_not_mix:
  assumes "mmap_fresh E" and "(ps, s') = draw_run E unshared sched jobs s"
  shows "list_all (\<lambda>p. \<not> panicked p) ps \<and>
    (\<exists>evs owners. sends (st_world s') = evs @ sends (st_world s) \<and> owned jobs ps evs owners)"
proof -
  note inv = draws_hold [OF assms]
  have "\<not> panicked p" if "pc_ok j p w" for j p w using that by (cases p) simp_all
  with inv(1) have "\<not> panicked (ps ! i)" if "i < length ps" for i
    using that unfolding team_inv_def by auto
  with inv(2) show ?thesis by (simp add: list_all_length)
qed

lemma concurrent_drawings_do_not_mix_example:
  "\<exists>ps s' evs owners. (ps, s') = draw_run two_env unshared [0, 1, 0, 0, 0, 1, 0, 1] demo_jobs demo_svc \<and>
     sends (st_world s') = evs \<and> owned demo_jobs ps evs owners"
proof -
  obtain ps s' where r: "(ps, s') = draw_run two_env unshared [0, 1, 0, 0, 0, 1, 0, 1] demo_jobs demo_svc"
    by (metis surj_pair)
  have "sends (st_world demo_svc) = []" by (simp add: sends_def demo_svc_sel)
  with concurrent_drawings_do_not_mix [OF two_fresh r] r show ?thesis by auto
qed

text \<open>
  Every drawing ends.  A goroutine answers after at most as many of its own steps as its request
  has chunks, and two or three more, whatever the others do in between and whether or not mappings
  share memory.
\<close>

lemma each_drawing_ends:
  assumes "i < length jobs" and "todo (Waiting (jobs ! i)) \<le> count_list sched i"
  shows "is_answered (fst (draw_run E sh sched jobs s) ! i)"
proof -
  have "todo (fst (draw_run E sh sched jobs s) ! i) \<le> todo (Waiting (jobs ! i)) - count_list sched i"
    by (rule todo_run [OF assms(1)])
  with assms(2) show ?thesis by (simp add: todo_0)
qed

lemma each_drawing_ends_example:
  "is_answered (fst (draw_run demo_env unshared [0, 1, 0, 1, 0, 1, 0, 0] demo_jobs demo_svc) ! 1)"
  by (rule each_drawing_ends) (simp_all add: demo_jobs_def)

text \<open>
  A drawing that nobody disturbs is the handler: for some number of steps, the goroutine of one
  \<open>Fill\<close> or \<open>Refresh\<close> alone ends with exactly the answer and the state of the function that the other
  theories use.
\<close>

lemma undisturbed_drawing:
  "\<exists>n. draw_run E unshared (replicate n 0) [j] s = ([Answered (fst (serve E j s))], snd (serve E j s))"
  using alone [of E j s] by (simp add: runs_to_def alone_to_def draw_run_def)


end
