(* ===== verification/Rpc_Conc.thy ===== *)
theory Rpc_Conc
  imports Draw_Conc
begin

text \<open>
  All RPCs of a running server at once.  Every request has a goroutine of its own, which first lets the
  interceptor check its token and then runs the handler; the host may close the display meanwhile.
  Handlers that draw are cut as in \<open>Draw_Conc\<close>.  The others call the display or the credential
  manager once, which hold their mutexes, and are one step after the check: a rotation may come
  between the check and the handler.
\<close>

section \<open>Steps\<close>

datatype actor = Client "string list" rpc | HostClose dref

datatype rpc_pc =
    Arriving "string list" rpc
  | Rejected "msg outcome option"
  | Admitted "string list" rpc
  | Drawing draw_pc
  | HostClosing dref
  | Replied "msg outcome option"

fun enter :: "actor \<Rightarrow> rpc_pc" where
  "enter (Client order q) = Arriving order q"
| "enter (HostClose d) = HostClosing d"

text \<open>
  What remains of a request that the interceptor has let pass: the generated code then calls the
  method as it does without an interceptor.
\<close>

fun handle_admitted :: "env \<Rightarrow> string list \<Rightarrow> rpc \<Rightarrow> svc_state \<Rightarrow> msg outcome option \<times> svc_state" where
  "handle_admitted E order (Call m ctx dec) s =
     (case map_of (sd_Methods Display_ServiceDesc) m of
        None \<Rightarrow> (None, s)
      | Some h \<Rightarrow> (case h (service_server E order) ctx dec None s of (r, s') \<Rightarrow> (Some r, s')))"
| "handle_admitted E order (Upload m ss) s =
     (case map_of (sd_Streams Display_ServiceDesc) m of
        None \<Rightarrow> (None, s)
      | Some h \<Rightarrow>
          (case h (service_server E order) ss s of (r, s') \<Rightarrow> (Some (map_outcome MRefreshResponse r), s')))"

text \<open>The requests whose handler draws.\<close>

fun draw_job :: "rpc \<Rightarrow> job option" where
  "draw_job (Call m ctx dec) =
     (if m = ''Fill''
      then (case dec new_FillRequest of
              Inr x \<Rightarrow> (case x of MFillRequest req \<Rightarrow> Some (JobFill req) | _ \<Rightarrow> None)
            | Inl e \<Rightarrow> None)
      else None)"
| "draw_job (Upload m ss) = (if m = ''Refresh'' then Some (JobRefresh ss) else None)"

definition drawn :: "draw_pc \<times> svc_state \<Rightarrow> rpc_pc \<times> svc_state" where
  "drawn r =
     (case r of
        (Answered a, s) \<Rightarrow> (Replied (Some (map_outcome MRefreshResponse a)), s)
      | (p, s) \<Rightarrow> (Drawing p, s))"

fun rpc_conc_step :: "env \<Rightarrow> rpc_pc \<Rightarrow> svc_state \<Rightarrow> rpc_pc \<times> svc_state" where
  "rpc_conc_step E (Arriving order q) s =
     (if authorised s (order, q) then (Admitted order q, s)
      else (case arrive E (order, q) s of (a, s') \<Rightarrow> (Rejected a, s')))"
| "rpc_conc_step E (Admitted order q) s =
     (case draw_job q of
        Some j \<Rightarrow> (Drawing (Waiting j), s)
      | None \<Rightarrow> (case handle_admitted E order q s of (a, s') \<Rightarrow> (Replied a, s')))"
| "rpc_conc_step E (Drawing p) s = drawn (draw_step E unshared p s)"
| "rpc_conc_step E (HostClosing d) s =
     (Replied None, s\<lparr>st_world := snd (display_Close E d (st_world s))\<rparr>)"
| "rpc_conc_step E (Rejected a) s = (Rejected a, s)"
| "rpc_conc_step E (Replied a) s = (Replied a, s)"

definition rpc_run :: "env \<Rightarrow> nat list \<Rightarrow> actor list \<Rightarrow> svc_state \<Rightarrow> rpc_pc list \<times> svc_state" where
  "rpc_run E sched actors s = fold (interleave (rpc_conc_step E)) sched (map enter actors, s)"

section \<open>One request alone\<close>

lemma admitted_is_arrival:
  assumes "authorised s (order, q)"
  shows "handle_admitted E order q s = arrive E (order, q) s"
proof -
  have "check (st_cm s) (rpc_ctx q) = None" using assms by (simp add: authorised_def)
  then show ?thesis
    by (cases q)
      (auto simp: Display_ServiceDesc_def handler_defs unary_Handler_def ta_Unary_def ta_Stream_def
        auth_def NewTokenAuth_def split: sum.split)
qed

lemma draw_job_serves:
  assumes "draw_job q = Some j"
  shows "handle_admitted E order q s = (case serve E j s of (r, s') \<Rightarrow> (Some (map_outcome MRefreshResponse r), s'))"
  using assms
  by (cases q)
    (auto simp: Display_ServiceDesc_def handler_defs Display_Refresh_Handler_def unary_Handler_def serve_def
      service_server_def box_def split: if_splits sum.splits msg.splits prod.splits)

lemma answered_rests: "fold (interleave (draw_step E sh)) (replicate n 0) ([Answered r], s) = ([Answered r], s)"
  by (induction n) simp_all

lemma drawn_going: "\<not> is_answered p \<Longrightarrow> drawn (p, s) = (Drawing p, s)"
  by (cases p) (simp_all add: drawn_def)

lemma drawn_alone:
  assumes "alone_to (draw_step E unshared) p s (Answered r) s'" and "\<not> is_answered p"
  shows "alone_to (rpc_conc_step E) (Drawing p) s (Replied (Some (map_outcome MRefreshResponse r))) s'"
proof -
  obtain n where "fold (interleave (draw_step E unshared)) (replicate n 0) ([p], s) = ([Answered r], s')"
    using assms(1) by (auto simp: alone_to_def)
  then show ?thesis
    using assms(2)
  proof (induction n arbitrary: p s)
    case (Suc n)
    obtain p1 s1 where st: "draw_step E unshared p s = (p1, s1)" by (metis surj_pair)
    with Suc.prems(1) have run: "fold (interleave (draw_step E unshared)) (replicate n 0) ([p1], s1) = ([Answered r], s')"
      by simp
    show ?case
    proof (cases "is_answered p1")
      case True
      then obtain a where a: "p1 = Answered a" by (cases p1) simp_all
      have "([Answered a], s1) = ([Answered r], s')" using run unfolding a answered_rests .
      then have "a = r" "s1 = s'" by simp_all
      with st a have "rpc_conc_step E (Drawing p) s = (Replied (Some (map_outcome MRefreshResponse r)), s')"
        by (simp add: drawn_def)
      then show ?thesis by (rule alone_step [OF _ alone_here])
    next
      case False
      with st have "rpc_conc_step E (Drawing p) s = (Drawing p1, s1)" by (simp add: drawn_going)
      then show ?thesis by (rule alone_step [OF _ Suc.IH [OF run False]])
    qed
  qed auto
qed

fun outcome_pc :: "bool \<Rightarrow> msg outcome option \<Rightarrow> rpc_pc" where
  "outcome_pc passed a = (if passed then Replied a else Rejected a)"

lemma request_alone:
  "alone_to (rpc_conc_step E) (Arriving order q) s
     (outcome_pc (authorised s (order, q)) (fst (arrive E (order, q) s))) (snd (arrive E (order, q) s))"
proof (cases "authorised s (order, q)")
  case False
  then have "rpc_conc_step E (Arriving order q) s =
      (Rejected (fst (arrive E (order, q) s)), snd (arrive E (order, q) s))"
    by (simp add: case_prod_beta)
  with False show ?thesis by (simp add: alone_step [OF _ alone_here])
next
  case True
  note h = admitted_is_arrival [OF True, of E]
  have "alone_to (rpc_conc_step E) (Admitted order q) s
      (Replied (fst (arrive E (order, q) s))) (snd (arrive E (order, q) s))"
  proof (cases "draw_job q")
    case None
    then have "rpc_conc_step E (Admitted order q) s =
        (Replied (fst (arrive E (order, q) s)), snd (arrive E (order, q) s))"
      using h by (simp add: case_prod_beta)
    then show ?thesis by (rule alone_step [OF _ alone_here])
  next
    case (Some j)
    have "alone_to (rpc_conc_step E) (Drawing (Waiting j)) s
        (Replied (Some (map_outcome MRefreshResponse (fst (serve E j s))))) (snd (serve E j s))"
      using alone [of E j s] by (intro drawn_alone) (simp_all add: runs_to_def)
    moreover have "rpc_conc_step E (Admitted order q) s = (Drawing (Waiting j), s)" using Some by simp
    ultimately show ?thesis
      using draw_job_serves [OF Some, of E order s] h by (auto simp: case_prod_beta intro: alone_step)
  qed
  with True show ?thesis by (simp add: alone_step)
qed

section \<open>What one step does\<close>

fun rpc_addrs :: "rpc_pc \<Rightarrow> i64 set" where
  "rpc_addrs (Drawing p) = pc_addrs p"
| "rpc_addrs _ = {}"

definition rpcs_apart :: "rpc_pc \<Rightarrow> rpc_pc \<Rightarrow> bool" where
  "rpcs_apart p q \<longleftrightarrow> rpc_addrs p \<inter> rpc_addrs q = {}"

fun is_replied :: "rpc_pc \<Rightarrow> bool" where
  "is_replied (Replied a) = True"
| "is_replied _ = False"

text \<open>An \<open>Ok\<close> answer of a drawing RPC.\<close>

fun drew_Ok :: "rpc_pc \<Rightarrow> bool" where
  "drew_Ok (Replied (Some (Ok (MRefreshResponse r)))) = True"
| "drew_Ok _ = False"

fun no_panic :: "rpc \<Rightarrow> msg outcome option \<Rightarrow> bool" where
  "no_panic q None = True"
| "no_panic q (Some a) = (typed q \<longrightarrow> \<not> is_panic a)"

fun actor_ok :: "actor \<Rightarrow> rpc_pc \<Rightarrow> world \<Rightarrow> bool" where
  "actor_ok (Client order q) (Arriving order' q') w \<longleftrightarrow> order' = order \<and> q' = q"
| "actor_ok (Client order q) (Rejected a) w \<longleftrightarrow> no_panic q a"
| "actor_ok (Client order q) (Admitted order' q') w \<longleftrightarrow> order' = order \<and> q' = q"
| "actor_ok (Client order q) (Drawing p) w \<longleftrightarrow>
     \<not> is_answered p \<and> (\<exists>j. draw_job q = Some j \<and> pc_ok j p w)"
| "actor_ok (Client order q) (Replied a) w \<longleftrightarrow> no_panic q a"
| "actor_ok (HostClose d) p w \<longleftrightarrow> p = HostClosing d \<or> p = Replied None"
| "actor_ok x p w \<longleftrightarrow> False"

fun asked_for :: "event \<Rightarrow> actor \<Rightarrow> bool" where
  "asked_for ev (Client order q) = pictures ev q"
| "asked_for ev (HostClose d) = False"

text \<open>As \<open>good\<close> in \<open>Draw_Conc\<close>.\<close>

definition fair :: "actor \<Rightarrow> rpc_pc \<Rightarrow> world \<Rightarrow> rpc_pc \<times> svc_state \<Rightarrow> bool" where
  "fair x p w r \<longleftrightarrow>
     (let w' = st_world (snd r); p' = fst r in
      actor_ok x p' w' \<and> others_kept (rpc_addrs p) w w' \<and> rpc_addrs p' \<subseteq> rpc_addrs p \<union> - mapped w \<and>
      (sends w' = sends w \<and> (drew_Ok p' \<longrightarrow> p = p') \<or>
       (\<exists>ev. sends w' = ev # sends w \<and> asked_for ev x \<and> \<not> is_replied p \<and> is_replied p')))"

lemma fair_quiet:
  "actor_ok x p' (st_world s') \<Longrightarrow> mem (st_world s') = mem w \<Longrightarrow> mapped (st_world s') = mapped w \<Longrightarrow>
     sends (st_world s') = sends w \<Longrightarrow> rpc_addrs p' = {} \<Longrightarrow> \<not> drew_Ok p' \<Longrightarrow> fair x p w (p', s')"
  by (simp add: fair_def kept_same)

lemma pictures_job:
  assumes "draw_job q = Some j" and "pictures ev (job_rpc j)"
  shows "pictures ev q"
proof (cases q)
  case (Upload m ss)
  with assms(1) have "job_rpc j = q" by (auto split: if_splits)
  with assms(2) show ?thesis by simp
next
  case (Call m ctx dec)
  then obtain req where "m = ''Fill''" "dec new_FillRequest = Inr (MFillRequest req)" "j = JobFill req"
    using assms(1) by (auto split: if_splits sum.splits msg.splits)
  with assms(2) Call show ?thesis by (cases ev) simp_all
qed

lemma drawing_explained: "explains x q \<Longrightarrow> drawing x \<Longrightarrow> draw_job q \<noteq> None"
  by (cases x; cases q) (auto split: sum.splits)

lemma handled_reaches: "\<exists>x. handle_admitted E order q s = reach E order x s \<and> explains x q"
proof (cases q)
  case (Call m ctx dec)
  show ?thesis
  proof (cases "map_of (sd_Methods Display_ServiceDesc :: (string \<times> svc_state method_handler) list) m")
    case None
    then show ?thesis by (intro exI [of _ "Nothing None"]) (simp add: Call)
  next
    case (Some h)
    from unary_dispatch [OF Call _ Some, of None] show ?thesis by (simp add: Call Some map_prod_Some)
  qed
next
  case (Upload m ss)
  show ?thesis
  proof (cases "m = ''Refresh''")
    case False
    then show ?thesis
      by (intro exI [of _ "Nothing None"]) (simp add: Upload Display_ServiceDesc_def)
  next
    case True
    then show ?thesis
      by (intro exI [of _ "ReachedRefresh ss"])
        (simp add: Upload Display_ServiceDesc_def Display_Refresh_Handler_def service_server_def
          box_def case_prod_beta prod_eq_iff)
  qed
qed

lemma other_message: "(\<And>x y. f x \<noteq> MRefreshResponse y) \<Longrightarrow> \<not> drew_Ok (Replied (Some (map_outcome f r)))"
proof (cases r)
  case (Ok x)
  assume "\<And>x y. f x \<noteq> MRefreshResponse y"
  with Ok show ?thesis by (cases "f x") simp_all
qed simp_all

lemma plain_reply:
  assumes "\<not> drawing x" and "explains x q" and "reach E order x s = (a, s')"
  shows "\<not> drew_Ok (Replied a)"
proof (cases x)
  case (Nothing b)
  show ?thesis
  proof (cases a)
    case (Some y)
    with assms Nothing show ?thesis by (cases y) simp_all
  qed simp
qed (use assms in \<open>auto simp: box_def case_prod_beta other_message simp del: drew_Ok.simps\<close>)

lemma plain_no_panic:
  assumes "rand_works E" and "\<not> drawing x" and "explains x q" and "reach E order x s = (a, s')"
  shows "no_panic q a"
proof (cases x)
  case (Nothing b)
  with assms show ?thesis by (cases a) auto
qed (use reach_gentle [OF assms(4,2)] assms(1) in auto)

section \<open>The invariant\<close>

lemma step_Admitted:
  assumes "rand_works E"
  shows "fair (Client order q) (Admitted order q) (st_world s) (rpc_conc_step E (Admitted order q) s)"
proof (cases "draw_job q")
  case (Some j)
  then show ?thesis by (simp add: fair_def kept_same)
next
  case None
  obtain a s' where h: "handle_admitted E order q s = (a, s')" by (metis surj_pair)
  obtain x where x: "reach E order x s = (a, s')" "explains x q"
    using handled_reaches [of E order q s] h by auto
  then have "\<not> drawing x" using drawing_explained None by blast
  note g = reach_gentle [OF x(1) this, THEN conjunct1] and p = plain_reply [OF this x(2,1)]
    and n = plain_no_panic [OF assms this x(2,1)]
  have "sends (st_world s') = sends (st_world s)"
    using drew_keeps(4) [of 0 "st_world s" "st_world s'"] g by (auto simp: gentle_def)
  with g p n h None show ?thesis by (auto simp: gentle_def intro!: fair_quiet)
qed

lemma rejected_answer:
  assumes "\<not> authorised s (order, q)" and "arrive E (order, q) s = (a, s')"
  shows "s' = s \<and> (a = None \<or> (\<exists>e. a = Some (Err e)))"
proof -
  obtain e where c: "check (st_cm s) (rpc_ctx q) = Some e"
    using assms(1) by (auto simp: authorised_def)
  have "(case unary_Handler f h ctx dec (Some (ta_Unary auth)) s of (r, s') \<Rightarrow> (Some r, s')) = (a, s') \<Longrightarrow>
      s' = s \<and> (a = None \<or> (\<exists>e. a = Some (Err e)))" if "check (st_cm s) ctx = Some e" for f h ctx dec
    using that by (auto simp: unary_Handler_def ta_Unary_def auth_def NewTokenAuth_def split: sum.splits)
  with c assms(2) show ?thesis
    by (cases q) (auto simp: Display_ServiceDesc_def handler_defs ta_Stream_def auth_def NewTokenAuth_def
        split: option.splits if_splits)
qed

lemma step_Arriving:
  "fair (Client order q) (Arriving order q) (st_world s) (rpc_conc_step E (Arriving order q) s)"
proof (cases "authorised s (order, q)")
  case True
  then show ?thesis by (auto intro!: fair_quiet)
next
  case False
  obtain a s' where e: "arrive E (order, q) s = (a, s')" by (metis surj_pair)
  from rejected_answer [OF False this] False e show ?thesis by (auto intro!: fair_quiet)
qed

lemma step_Drawing:
  assumes "mmap_fresh E" and "actor_ok (Client order q) (Drawing p) (st_world s)"
  shows "fair (Client order q) (Drawing p) (st_world s) (rpc_conc_step E (Drawing p) s)"
proof -
  obtain j where j: "draw_job q = Some j" "pc_ok j p (st_world s)" "\<not> is_answered p"
    using assms(2) by auto
  obtain p' s' where st: "draw_step E unshared p s = (p', s')" by (metis surj_pair)
  have g: "good j p (st_world s) (p', s')" using good_step [OF assms(1) j(2)] st by simp
  have k: "others_kept (pc_addrs p) (st_world s) (st_world s')" "pc_addrs p' \<subseteq> pc_addrs p \<union> - mapped (st_world s)"
    "pc_ok j p' (st_world s')"
    using g by (simp_all add: good_def Let_def)
  show ?thesis
  proof (cases "is_answered p'")
    case False
    then have "sends (st_world s') = sends (st_world s)" using g by (auto simp: good_def Let_def)
    with k False j(1) st show ?thesis by (auto simp: fair_def drawn_going)
  next
    case True
    then obtain r where r: "p' = Answered r" by (cases p') simp_all
    let ?a = "map_outcome MRefreshResponse r"
    have st': "rpc_conc_step E (Drawing p) s = (Replied (Some ?a), s')" using st r by (simp add: drawn_def)
    have ok: "actor_ok (Client order q) (Replied (Some ?a)) (st_world s')" using k(3) r by (cases r) simp_all
    have "drew_Ok (Replied (Some ?a)) \<Longrightarrow> answered_Ok p'" using r by (cases r) simp_all
    then have "sends (st_world s') = sends (st_world s) \<and> \<not> drew_Ok (Replied (Some ?a)) \<or>
        (\<exists>ev. sends (st_world s') = ev # sends (st_world s) \<and> pictures ev q)"
      using g j(3) True pictures_job [OF j(1)] by (auto simp: good_def Let_def)
    with k(1) ok show ?thesis unfolding st' by (auto simp: fair_def simp del: drew_Ok.simps)
  qed
qed

lemma step_HostClosing:
  "fair (HostClose d) (HostClosing d) (st_world s) (rpc_conc_step E (HostClosing d) s)"
  by (auto simp: display_Close_def sys_close_def mapped_def sends_def Let_def intro!: fair_quiet)

lemma fair_step:
  assumes "mmap_fresh E" and "rand_works E" and "actor_ok x p (st_world s)"
  shows "fair x p (st_world s) (rpc_conc_step E p s)"
proof -
  have stay: "fair x p (st_world s) (p, s)" if "rpc_addrs p = {}"
    using that assms(3) by (simp add: fair_def kept_same)
  show ?thesis
  proof (cases x)
    case (Client order q)
    with assms step_Arriving step_Admitted step_Drawing stay show ?thesis
      by (cases p) simp_all
  next
    case (HostClose d)
    with assms(3) step_HostClosing stay show ?thesis by auto
  qed
qed

lemma rpc_addrs_mapped: "actor_ok x p w \<Longrightarrow> rpc_addrs p \<subseteq> mapped w"
  by (cases x; cases p) (auto dest: pc_addrs_mapped)

lemma actor_ok_kept:
  assumes "actor_ok x p w" and "others_kept A w w'" and "rpc_addrs p \<inter> A = {}"
  shows "actor_ok x p w'"
  using assms by (cases x; cases p) (auto intro: pc_ok_kept)

lemma fair_others:
  assumes "fair x p (st_world s) (p', s')" and "actor_ok y q (st_world s)" and "rpc_addrs p \<inter> rpc_addrs q = {}"
  shows "actor_ok y q (st_world s') \<and> rpc_addrs p' \<inter> rpc_addrs q = {}"
proof -
  have "others_kept (rpc_addrs p) (st_world s) (st_world s')"
    and "rpc_addrs p' \<subseteq> rpc_addrs p \<union> - mapped (st_world s)"
    using assms(1) by (simp_all add: fair_def Let_def)
  with actor_ok_kept [OF assms(2)] rpc_addrs_mapped [OF assms(2)] assms(3) show ?thesis by blast
qed

interpretation rpcs: logging_team "rpc_conc_step E" "\<lambda>s. mmap_fresh E \<and> rand_works E"
  "\<lambda>x p s. actor_ok x p (st_world s)" rpcs_apart "\<lambda>s. sends (st_world s)" asked_for is_replied drew_Ok
  for E
proof unfold_locales
  show "rpcs_apart q p" if "rpcs_apart p q" for p q
    using that by (simp add: rpcs_apart_def Int_commute)
  show "rpc_conc_step E p s = (p, s)" if "is_replied p" for p s
    using that by (cases p) simp_all
  fix s x p p' s'
  assume E: "mmap_fresh E \<and> rand_works E" and p: "actor_ok x p (st_world s)"
    and "rpc_conc_step E p s = (p', s')"
  then have g: "fair x p (st_world s) (p', s')" using fair_step [of E x p s] by simp
  then show "(mmap_fresh E \<and> rand_works E) \<and> actor_ok x p' (st_world s')" using E by (simp add: fair_def Let_def)
  show "sends (st_world s') = sends (st_world s) \<and> (drew_Ok p' \<longrightarrow> p = p') \<or>
      (\<exists>e. sends (st_world s') = e # sends (st_world s) \<and> asked_for e x \<and> \<not> is_replied p \<and> is_replied p')"
    using g by (simp add: fair_def Let_def)
  show "actor_ok y q (st_world s') \<and> rpcs_apart p' q" if "actor_ok y q (st_world s)" "rpcs_apart p q" for y q
    using fair_others [OF g that(1)] that(2) by (simp add: rpcs_apart_def)
qed

section \<open>Every request is answered\<close>

fun job_steps :: "rpc \<Rightarrow> nat" where
  "job_steps q = (case draw_job q of Some j \<Rightarrow> todo (Waiting j) | None \<Rightarrow> 0)"

text \<open>The steps a request still has to make.\<close>

fun rpc_todo :: "rpc_pc \<Rightarrow> nat" where
  "rpc_todo (Arriving order q) = job_steps q + 2"
| "rpc_todo (Admitted order q) = job_steps q + 1"
| "rpc_todo (Drawing p) = (if is_answered p then 1 else todo p)"
| "rpc_todo (HostClosing d) = 1"
| "rpc_todo _ = 0"

fun is_over :: "rpc_pc \<Rightarrow> bool" where
  "is_over (Replied a) = True"
| "is_over (Rejected a) = True"
| "is_over _ = False"

lemma rpc_todo_0: "rpc_todo p = 0 \<longleftrightarrow> is_over p"
  by (cases p) (simp_all add: todo_0 [symmetric])

lemma rpc_todo_step: "rpc_todo (fst (rpc_conc_step E p s)) \<le> rpc_todo p - 1"
proof (cases p)
  case (Admitted order q)
  then show ?thesis by (cases "draw_job q") (simp_all split: prod.split)
next
  case (Drawing d)
  obtain d' s' where st: "draw_step E unshared d s = (d', s')" by (metis surj_pair)
  show ?thesis
  proof (cases "is_answered d'")
    case True
    then obtain r where "d' = Answered r" by (cases d') simp_all
    with st Drawing show ?thesis by (simp add: drawn_def)
  next
    case False
    moreover have "\<not> is_answered d"
    proof
      assume "is_answered d"
      then have "d' = d" using st by (cases d) simp_all
      with False \<open>is_answered d\<close> show False by simp
    qed
    ultimately show ?thesis using st Drawing todo_step [of E unshared d s] by (simp add: drawn_going)
  qed
qed (auto split: prod.split)

text \<open>The points of a goroutine, ordered by how far it has come.\<close>

instantiation rpc_pc :: order
begin

definition less_eq_rpc_pc :: "rpc_pc \<Rightarrow> rpc_pc \<Rightarrow> bool" where
  "less_eq_rpc_pc p q \<longleftrightarrow> p = q \<or> rpc_todo q < rpc_todo p"

definition less_rpc_pc :: "rpc_pc \<Rightarrow> rpc_pc \<Rightarrow> bool" where
  "less_rpc_pc p q \<longleftrightarrow> rpc_todo q < rpc_todo p"

instance
  by standard (auto simp: less_eq_rpc_pc_def less_rpc_pc_def)

end

interpretation rpcs: forward "rpc_conc_step E" for E
proof unfold_locales
  show "p \<le> fst (rpc_conc_step E p s)" for p s
  proof (cases "is_over p")
    case True
    then show ?thesis by (cases p) (simp_all add: less_eq_rpc_pc_def)
  next
    case False
    then have "0 < rpc_todo p" using rpc_todo_0 by blast
    with rpc_todo_step [of E p s] show ?thesis by (auto simp: less_eq_rpc_pc_def)
  qed
qed

lemma over_is_last: "is_over p \<Longrightarrow> p \<le> q \<Longrightarrow> q = p"
  using rpc_todo_0 [of p] by (auto simp: less_eq_rpc_pc_def)

section \<open>Properties\<close>


text \<open>
  C3. Concurrent requests do not mix.  However the goroutines of any number of requests interleave,
  of all eight RPCs, with valid tokens or not, and even while the host closes the display: the buffers
  sent to the panel correspond one to one to requests that were admitted and answered, each buffer is
  exactly the picture its request asked for, every drawing RPC that answered \<open>Ok\<close> has one, and no
  request that is decoded into its type panics.  The kernel gives each mapping memory of its own.
\<close>

theorem concurrent_requests_do_not_mix:
  assumes "mmap_fresh E" and "rand_works E" and "(ps, s') = rpc_run E sched actors s"
  shows "(\<exists>evs owners. sends (st_world s') = evs @ sends (st_world s) \<and>
      owned_by asked_for is_replied drew_Ok actors ps evs owners) \<and>
    list_all2 (\<lambda>x p. case x of Client order q \<Rightarrow> (\<forall>a. p = Rejected a \<or> p = Replied a \<longrightarrow> no_panic q a)
      | HostClose d \<Rightarrow> True) actors ps"
proof -
  have start: "team_inv (\<lambda>s. mmap_fresh E \<and> rand_works E) (\<lambda>x p s. actor_ok x p (st_world s)) rpcs_apart
      actors (map enter actors, s)"
  proof -
    have "actor_ok x (enter x) w" "rpc_addrs (enter x) = {}" for x w by (cases x; simp)+
    with assms(1,2) show ?thesis by (simp add: team_inv_def rpcs_apart_def)
  qed
  have fresh: "\<not> is_replied (enter x) \<and> \<not> drew_Ok (enter x)" for x by (cases x) simp_all
  have "team_inv (\<lambda>s. mmap_fresh E \<and> rand_works E) (\<lambda>x p s. actor_ok x p (st_world s)) rpcs_apart actors (ps, s')"
    using rpcs.team_run [OF start, of sched] assms(3) by (simp add: rpc_run_def)
  then have "list_all2 (\<lambda>x p. actor_ok x p (st_world s')) actors ps"
    by (simp add: team_inv_def list_all2_conv_all_nth)
  then have "list_all2 (\<lambda>x p. case x of Client order q \<Rightarrow> (\<forall>a. p = Rejected a \<or> p = Replied a \<longrightarrow> no_panic q a)
      | HostClose d \<Rightarrow> True) actors ps"
    by (rule list_all2_mono) (auto split: actor.split)
  then show ?thesis
    using rpcs.owned_run [OF start, of sched ps s'] fresh assms(3) by (simp add: rpc_run_def)
qed

text \<open>
  C34. Every request is answered.  A goroutine has replied or rejected its request after at most two of
  its own steps, a \<open>Fill\<close> after five, and a \<open>Refresh\<close> after the chunks of its request and four more,
  whatever the others do in between, and no later step changes the answer.
\<close>

theorem each_request_ends:
  assumes "i < length actors" and "rpc_todo (enter (actors ! i)) \<le> count_list sched i"
  shows "is_over (fst (rpc_run E sched actors s) ! i) \<and>
    fst (rpc_run E (sched @ later) actors s) ! i = fst (rpc_run E sched actors s) ! i"
proof -
  have "rpc_todo (fst (rpc_run E sched actors s) ! i) \<le> rpc_todo (enter (actors ! i)) - count_list sched i"
    using counted_run [of rpc_todo "rpc_conc_step E" i "(map enter actors, s)" sched] rpc_todo_step assms(1)
    by (simp add: rpc_run_def)
  with assms(2) have o: "is_over (fst (rpc_run E sched actors s) ! i)" by (simp add: rpc_todo_0 [symmetric])
  have "i < length (fst (rpc_run E sched actors s))" using assms(1) by (simp add: rpc_run_def)
  from rpcs.last_point_stays [OF this over_is_last [OF o]] o show ?thesis by (simp add: rpc_run_def)
qed

section \<open>A run\<close>

text \<open>An upload and a fill with the operator token, a fill without a token, and the host.\<close>

definition demo_ctx :: context_t where
  "demo_ctx = bearer_ctx ''operator-token-of-32-characters-''"

definition red_fill :: "context_t \<Rightarrow> rpc" where
  "red_fill ctx = Call ''Fill'' ctx (\<lambda>_. Inr (MFillRequest \<lparr>pfr_Argb = 0xFFFF0000, pfr_Mode = WAVEFORM_MODE_FULL\<rparr>))"

definition demo_actors :: "actor list" where
  "demo_actors = [Client all_names (Upload ''Refresh'' (demo_stream\<lparr>ss_context := demo_ctx\<rparr>)),
     Client all_names (red_fill demo_ctx), Client all_names (red_fill \<lparr>ctx_incoming = None\<rparr>), HostClose 0]"

definition demo_sched :: "nat list" where
  "demo_sched = [0, 1, 2, 0, 1, 0, 1, 0, 0, 1, 0, 1, 0, 3]"

lemma two_rand: "rand_works two_env"
  by (simp add: rand_works_def two_env_def demo_env_def)

lemma each_request_ends_witness:
  "is_over (fst (rpc_run two_env demo_sched demo_actors demo_svc) ! 0) \<and>
   fst (rpc_run two_env (demo_sched @ [1, 3]) demo_actors demo_svc) ! 0 =
     fst (rpc_run two_env demo_sched demo_actors demo_svc) ! 0 \<and> rpc_todo (enter (demo_actors ! 0)) = 7"
proof -
  have "0 < length demo_actors" "rpc_todo (enter (demo_actors ! 0)) = 7" "count_list demo_sched 0 = 7"
    by (simp_all add: demo_actors_def demo_sched_def demo_stream_def)
  with each_request_ends [of 0 demo_actors demo_sched two_env demo_svc "[1, 3]"] show ?thesis by simp
qed

lemma concurrent_requests_do_not_mix_witness:
  "\<exists>ps s' owners. (ps, s') = rpc_run two_env demo_sched demo_actors demo_svc \<and>
     owned_by asked_for is_replied drew_Ok demo_actors ps (sends (st_world s')) owners"
proof -
  obtain ps s' where r: "(ps, s') = rpc_run two_env demo_sched demo_actors demo_svc"
    by (metis surj_pair)
  have "sends (st_world demo_svc) = []" by (simp add: sends_def demo_svc_sel)
  with concurrent_requests_do_not_mix [OF two_fresh two_rand r] r show ?thesis by auto
qed

end
