(* ===== verification/Mdns.thy ===== *)
theory Mdns
  imports Cert_Manager
begin

text \<open>
  \<open>einkgrpc/mdns.go\<close> and \<open>einkgrpc/mdns_zeroconf.go\<close>: the registrar that advertises the server on the
  local network.  The advertiser is the third-party package \<open>zeroconf\<close>; a \<open>*zeroconf.Server\<close> is
  represented by the instance, service type and domain it was registered with.
\<close>

section \<open>Operations\<close>

definition ServiceType :: string where
  "ServiceType = ''_tableaux-eink._tcp.''"

definition HostnameInstance :: "string \<Rightarrow> string" where
  "HostnameInstance pre =
     (let pre = (if pre = [] then ''tableaux-eink'' else pre) in pre @ ''-go'')"

record zcRegistrar =
  zc_name :: string
  zc_server :: "string list option"

definition NewMdnsRegistrar :: zcRegistrar where
  "NewMdnsRegistrar = \<lparr>zc_name = [], zc_server = None\<rparr>"

definition RegisteredName :: "zcRegistrar \<Rightarrow> string" where
  "RegisteredName z = zc_name z"

definition truncatedFingerprint :: "string \<Rightarrow> string" where
  "truncatedFingerprint fp = (if length fp \<le> 47 then fp else take 47 fp)"

definition txt_records :: "bool \<Rightarrow> string \<Rightarrow> string \<Rightarrow> string list" where
  "txt_records panelIsColor certFingerprint version =
     [''version='' @ version,
      ''panel='' @ (if panelIsColor then ''color'' else ''grayscale''),
      ''fingerprint='' @ truncatedFingerprint certFingerprint]"

definition mdns_Register ::
    "env \<Rightarrow> zcRegistrar \<Rightarrow> nat \<Rightarrow> bool \<Rightarrow> string \<Rightarrow> string \<Rightarrow> world
       \<Rightarrow> unit outcome \<times> zcRegistrar \<times> world" where
  "mdns_Register E z port panelIsColor certFingerprint version w =
     (case os_Hostname E w of (host0, w1) \<Rightarrow>
     (let host = (if host0 = [] then ''device'' else host0);
          inst = HostnameInstance host;
          srv = [inst, ServiceType, ''local.'']
      in case zeroconf_Register E srv port (txt_records panelIsColor certFingerprint version) w1 of
        (Some e, w2) \<Rightarrow> (Err (ErrWrap ''zeroconf register'' e), z, w2)
      | (None, w2) \<Rightarrow> (Ok (), z\<lparr>zc_name := inst, zc_server := Some srv\<rparr>, w2)))"

definition mdns_Unregister :: "zcRegistrar \<Rightarrow> world \<Rightarrow> zcRegistrar \<times> world" where
  "mdns_Unregister z w =
     (z\<lparr>zc_server := None, zc_name := []\<rparr>,
      case zc_server z of None \<Rightarrow> w | Some srv \<Rightarrow> zeroconf_Shutdown srv w)"

section \<open>The contract of a registrar\<close>

text \<open>
  An advertiser with a name: a successful registration shows a non-empty name and one more
  advertisement, a failed one changes neither, and after \<open>Unregister\<close> both are gone.
\<close>

locale registrar =
  fixes idle :: "'z \<Rightarrow> bool"
    and reg :: "'z \<Rightarrow> 'a \<Rightarrow> world \<Rightarrow> unit outcome \<times> 'z \<times> world"
    and unreg :: "'z \<Rightarrow> world \<Rightarrow> 'z \<times> world"
    and name :: "'z \<Rightarrow> string"
  assumes reg_ok: "idle z \<Longrightarrow> reg z a w = (Ok (), z', w') \<Longrightarrow>
      name z' \<noteq> [] \<and> (\<exists>i. adverts (hist w') = i # adverts (hist w) \<and>
        adverts (hist (snd (unreg z' v))) = remove1 i (adverts (hist v)))"
    and reg_err: "reg z a w = (Err e, z', w') \<Longrightarrow> z' = z \<and> adverts (hist w') = adverts (hist w)"
    and reg_total: "reg z a w \<noteq> (Panic p, x)"
    and unreg_idle: "idle (fst (unreg z w)) \<and> name (fst (unreg z w)) = []"
    and unreg_nothing: "idle z \<Longrightarrow> snd (unreg z w) = w"
begin

text \<open>A registration cycle, successful or not, leaves the network as it was.\<close>

lemma cycle:
  assumes "idle z" and "reg z a w = (r, z', w')"
  shows "adverts (hist (snd (unreg z' w'))) = adverts (hist w)"
proof (cases r)
  case (Ok u)
  with assms reg_ok [of z a w z' w' w'] show ?thesis by auto
next
  case (Err e)
  with assms reg_err [of z a w e z' w'] unreg_nothing [of z w'] show ?thesis by simp
next
  case (Panic p)
  with assms reg_total show ?thesis by metis
qed

lemma cycle_name: "reg z a w = (r, z', w') \<Longrightarrow> name (fst (unreg z' w')) = []"
  using unreg_idle by blast

end

definition zc_idle :: "zcRegistrar \<Rightarrow> bool" where
  "zc_idle z \<longleftrightarrow> zc_server z = None"

lemma HostnameInstance_nonempty: "HostnameInstance p \<noteq> []"
  by (simp add: HostnameInstance_def Let_def)

lemmas mdns_defs = mdns_Register_def mdns_Unregister_def os_Hostname_def zeroconf_Register_def
  zeroconf_Shutdown_def

interpretation zc: registrar zc_idle
    "\<lambda>z (port, color, fp, version). mdns_Register E z port color fp version"
    mdns_Unregister RegisteredName for E
  by unfold_locales
    (auto simp: mdns_defs zc_idle_def RegisteredName_def HostnameInstance_nonempty Let_def
      split: option.splits if_splits)

section \<open>Properties\<close>

text \<open>
  The truncated fingerprint of a certificate consists of the first sixteen bytes of its digest,
  colons included, which are 47 characters (the comment in the source says 32).
\<close>

lemma truncated_fingerprint:
  "case e_pem_decode E p of
     None \<Rightarrow> truncatedFingerprint (fingerprintPEM E p) = []
   | Some der \<Rightarrow>
       truncatedFingerprint (fingerprintPEM E p) =
         join '':'' (map hex_upper (take 16 (sha256_sum E der))) \<and>
       length (truncatedFingerprint (fingerprintPEM E p)) = 47"
proof (cases "e_pem_decode E p")
  case None
  then show ?thesis by (simp add: fingerprintPEM_def truncatedFingerprint_def)
next
  case (Some der)
  let ?ss = "map hex_upper (sha256_sum E der)"
  have two: "list_all (\<lambda>s. length s = 2) ?ss" by (simp add: list_all_iff)
  have n: "length ?ss = 32" by (simp add: sha256_sum_def)
  have "length (join '':'' ?ss) = 95" using join2_length [OF two, of "CHR '':''"] n by fastforce
  then have "length (take 47 (join '':'' ?ss)) = 47" by simp
  moreover have "length (join '':'' ?ss) = 95" by fact
  moreover have "take (3 * 15 + 2) (join '':'' ?ss) = join '':'' (take (Suc 15) ?ss)"
    by (rule join2_take [OF two]) (use n in simp)
  ultimately show ?thesis
    using Some by (simp add: fingerprintPEM_def truncatedFingerprint_def take_map del: length_take)
qed

text \<open>
  A registration cycle cleans up.  Registering on a new registrar and then unregistering, the
  registration successful or not, leaves the advertised services as they were and no name; a
  successful registration advertises \<open>host-go\<close> under the service type with the three TXT records.
\<close>

lemma mdns_cycle:
  assumes "mdns_Register E NewMdnsRegistrar port color fp version w = (r, z', w')"
  shows "adverts (hist (snd (mdns_Unregister z' w'))) = adverts (hist w) \<and>
    RegisteredName (fst (mdns_Unregister z' w')) = [] \<and>
    (r = Ok () \<longrightarrow> (\<exists>host. host \<noteq> [] \<and> RegisteredName z' = host @ ''-go'' \<and>
      hd (hist w') = EvRegister [host @ ''-go'', ServiceType, ''local.''] port
        (txt_records color fp version) True))"
proof (intro conjI impI)
  have i: "zc_idle NewMdnsRegistrar" by (simp add: zc_idle_def NewMdnsRegistrar_def)
  show "adverts (hist (snd (mdns_Unregister z' w'))) = adverts (hist w)"
    using zc.cycle [OF i, of E "(port, color, fp, version)" w r z' w'] assms by simp
  show "RegisteredName (fst (mdns_Unregister z' w')) = []"
    using zc.unreg_idle by blast
next
  assume "r = Ok ()"
  with assms show "\<exists>host. host \<noteq> [] \<and> RegisteredName z' = host @ ''-go'' \<and>
      hd (hist w') = EvRegister [host @ ''-go'', ServiceType, ''local.''] port
        (txt_records color fp version) True"
    by (auto simp: mdns_defs HostnameInstance_def RegisteredName_def Let_def
        split: option.splits if_splits)
qed

lemma mdns_cycle_example:
  "\<exists>z' w'. mdns_Register demo_env NewMdnsRegistrar 50051 True ''AB'' ''0.1.0'' empty_world =
     (Ok (), z', w') \<and> adverts (hist (snd (mdns_Unregister z' w'))) = adverts (hist empty_world)"
proof -
  obtain z' w' where r:
    "mdns_Register demo_env NewMdnsRegistrar 50051 True ''AB'' ''0.1.0'' empty_world = (Ok (), z', w')"
    by (simp add: mdns_defs demo_env_def Let_def)
  from mdns_cycle [OF r] r show ?thesis by blast
qed

end
