(* ===== verification/Net_Url.thy ===== *)
theory Net_Url
  imports Encoding
begin

text \<open>
  What the program uses of the package \<open>net/url\<close>: escaping and encoding a query on the side of the
  server, and parsing a URL on the side of the command line.  Quoting in error texts is the
  parameter \<open>q\<close>.  Hosts with brackets or with several colons, which the releases of the library
  treat differently, are decoded by the parameter \<open>weird\<close>.
\<close>

section \<open>Escaping and encoding\<close>

text \<open>\<open>url.QueryEscape\<close> and \<open>url.Values.Encode\<close>, whose keys come out sorted.\<close>

definition url_unreserved :: "char \<Rightarrow> bool" where
  "url_unreserved c \<longleftrightarrow>
     CHR ''a'' \<le> c \<and> c \<le> CHR ''z'' \<or> CHR ''A'' \<le> c \<and> c \<le> CHR ''Z'' \<or> is_digit c \<or>
     c \<in> {CHR ''-'', CHR ''_'', CHR ''.'', CHR ''~''}"

definition escape_byte :: "char \<Rightarrow> string" where
  "escape_byte c =
     (if url_unreserved c then [c]
      else if c = CHR '' '' then [CHR ''+'']
      else CHR ''%'' # hex_upper (byte_of c))"

definition QueryEscape :: "string \<Rightarrow> string" where
  "QueryEscape s = concat (map escape_byte s)"

definition url_Encode :: "(string \<times> string) list \<Rightarrow> string" where
  "url_Encode kvs = join ''&'' (map (\<lambda>(k, v). QueryEscape k @ ''='' @ QueryEscape v) kvs)"

lemma QueryEscape_plain: "list_all url_unreserved s \<Longrightarrow> QueryEscape s = s"
  by (induction s) (simp_all add: QueryEscape_def escape_byte_def)

lemma QueryEscape_append: "QueryEscape (s @ t) = QueryEscape s @ QueryEscape t"
  by (simp add: QueryEscape_def)

lemma QueryEscape_join: "QueryEscape (join sep ss) = join (QueryEscape sep) (map QueryEscape ss)"
proof (induction ss)
  case (Cons s ss)
  then show ?case
    by (cases "ss = []") (simp_all add: join_Cons QueryEscape_append)
qed (simp add: QueryEscape_def)

lemma hex_unreserved: "list_all url_unreserved (hex_upper b)"
proof -
  have "list_all (\<lambda>n. url_unreserved (upper_byte (hex_digit n))) [0..<16]" by code_simp
  then have "url_unreserved (upper_byte (hex_digit (n mod 16)))" for n
    by (simp add: list_all_iff)
  then have "url_unreserved (upper_byte (hex_digit n))" for n
    by (simp add: hex_digit_def)
  then show ?thesis by (simp add: hex_upper_def hex_encode_def)
qed

lemma token_unreserved: "list_all url_unreserved (b64_encode bs)"
proof (rule b64_encode_all)
  show "list_all url_unreserved b64_alphabet" by code_simp
qed

section \<open>Unescaping\<close>

text \<open>The parts of a URL that are unescaped, with their own rules.\<close>

datatype url_part = PathPart | UserPart | HostPart | QueryPart | FragmentPart

definition hex_val :: "char \<Rightarrow> nat option" where
  "hex_val c =
     (if is_digit c then Some (of_char c - 48)
      else if CHR ''a'' \<le> c \<and> c \<le> CHR ''f'' then Some (of_char c - 97 + 10)
      else if CHR ''A'' \<le> c \<and> c \<le> CHR ''F'' then Some (of_char c - 65 + 10)
      else None)"

text \<open>The characters a host may contain as they are, besides those outside ASCII.\<close>

definition host_allowed :: "char \<Rightarrow> bool" where
  "host_allowed c \<longleftrightarrow>
     url_unreserved c \<or> c \<in> set ''!$&()*+,;=:[]<>'' \<or> c = CHR 0x27 \<or> c = CHR 0x22"

definition escape_error :: "(string \<Rightarrow> string) \<Rightarrow> string \<Rightarrow> go_error" where
  "escape_error q s = ErrMsg (''invalid URL escape '' @ q s)"

definition host_error :: "(string \<Rightarrow> string) \<Rightarrow> char \<Rightarrow> go_error" where
  "host_error q c = ErrMsg (''invalid character '' @ q [c] @ '' in host name'')"

fun unescape :: "(string \<Rightarrow> string) \<Rightarrow> url_part \<Rightarrow> string \<Rightarrow> go_error + string" where
  "unescape q m [] = Inr []"
| "unescape q m (c # cs) =
     (if c = CHR ''%''
      then (case cs of
              a # b # rest \<Rightarrow>
                (case (hex_val a, hex_val b) of
                   (Some x, Some y) \<Rightarrow>
                     (if m = HostPart \<and> x < 8 \<and> [a, b] \<noteq> ''25'' then Inl (escape_error q [c, a, b])
                      else (case unescape q m rest of
                              Inl e \<Rightarrow> Inl e
                            | Inr t \<Rightarrow> Inr (char_of (16 * x + y) # t)))
                 | _ \<Rightarrow> Inl (escape_error q [c, a, b]))
            | _ \<Rightarrow> Inl (escape_error q (c # cs)))
      else if m = HostPart \<and> is_ascii c \<and> \<not> host_allowed c then Inl (host_error q c)
      else (case unescape q m cs of
              Inl e \<Rightarrow> Inl e
            | Inr t \<Rightarrow> Inr ((if c = CHR ''+'' \<and> m = QueryPart then CHR '' '' else c) # t)))"

section \<open>Queries\<close>

text \<open>\<open>strings.Cut\<close>: what stands before the first \<open>c\<close>, and what after it.\<close>

definition Cut :: "char \<Rightarrow> string \<Rightarrow> string \<times> string" where
  "Cut c s = (takeWhile (\<lambda>x. x \<noteq> c) s, drop 1 (dropWhile (\<lambda>x. x \<noteq> c) s))"

lemma Cut_shorter: "(a, b) = Cut c s \<Longrightarrow> s \<noteq> [] \<Longrightarrow> length b < length s"
  using length_dropWhile_le [of "\<lambda>x. x \<noteq> c" s] by (cases s) (auto simp: Cut_def)

text \<open>
  \<open>URL.Query\<close>: the key-value pairs in order; pairs that cannot be parsed are skipped.  \<open>Values.Get\<close>
  gives the first value of a key.
\<close>

function ParseQuery :: "(string \<Rightarrow> string) \<Rightarrow> string \<Rightarrow> (string \<times> string) list" where
  "ParseQuery q s =
     (if s = [] then []
      else (case Cut CHR ''&'' s of
        (kv, rest) \<Rightarrow>
          (if CHR '';'' \<in> set kv \<or> kv = [] then ParseQuery q rest
           else (case Cut CHR ''='' kv of
             (k, v) \<Rightarrow>
               (case (unescape q QueryPart k, unescape q QueryPart v) of
                  (Inr k', Inr v') \<Rightarrow> (k', v') # ParseQuery q rest
                | _ \<Rightarrow> ParseQuery q rest)))))"
  by pat_completeness auto
termination by (relation "measure (\<lambda>(q, s). length s)") (auto dest: Cut_shorter)

declare ParseQuery.simps [simp del]

definition values_Get :: "(string \<times> string) list \<Rightarrow> string \<Rightarrow> string" where
  "values_Get ps k = (case map_of ps k of None \<Rightarrow> [] | Some v \<Rightarrow> v)"

section \<open>URLs\<close>

text \<open>The fields of a \<open>*url.URL\<close> that the program reads.\<close>

record url =
  u_Scheme :: string
  u_Host :: string
  u_RawQuery :: string

definition is_letter :: "char \<Rightarrow> bool" where
  "is_letter c \<longleftrightarrow> CHR ''a'' \<le> c \<and> c \<le> CHR ''z'' \<or> CHR ''A'' \<le> c \<and> c \<le> CHR ''Z''"

definition is_control :: "char \<Rightarrow> bool" where
  "is_control c \<longleftrightarrow> c < CHR '' '' \<or> c = CHR 0x7F"

text \<open>The loop of \<open>getScheme\<close>, with the characters before the current one.\<close>

fun getScheme :: "string \<Rightarrow> string \<Rightarrow> string \<Rightarrow> go_error + string \<times> string" where
  "getScheme raw seen [] = Inr ([], raw)"
| "getScheme raw seen (c # cs) =
     (if is_letter c then getScheme raw (seen @ [c]) cs
      else if is_digit c \<or> c \<in> set ''+-.''
      then (if seen = [] then Inr ([], raw) else getScheme raw (seen @ [c]) cs)
      else if c = CHR '':''
      then (if seen = [] then Inl (ErrMsg ''missing protocol scheme'') else Inr (seen, cs))
      else Inr ([], raw))"

definition validOptionalPort :: "string \<Rightarrow> bool" where
  "validOptionalPort port \<longleftrightarrow> port = [] \<or> hd port = CHR '':'' \<and> list_all is_digit (tl port)"

text \<open>A string up to the last \<open>c\<close>, and from there on, which is empty when there is none.\<close>

definition split_last :: "char \<Rightarrow> string \<Rightarrow> string \<times> string" where
  "split_last c s =
     (if c \<in> set s
      then (let after = rev (takeWhile (\<lambda>x. x \<noteq> c) (rev s))
            in (take (length s - length after - 1) s, c # after))
      else (s, []))"

definition parseHost :: "(string \<Rightarrow> string) \<Rightarrow> (string \<Rightarrow> go_error + string) \<Rightarrow> string \<Rightarrow> go_error + string" where
  "parseHost q weird host =
     (if CHR ''['' \<in> set host \<or> CHR '']'' \<in> set host \<or> 1 < count_list host CHR '':''
      then weird host
      else if \<not> validOptionalPort (snd (split_last CHR '':'' host))
      then Inl (ErrMsg (''invalid port '' @ q (snd (split_last CHR '':'' host)) @ '' after host''))
      else unescape q HostPart host)"

definition validUserinfo :: "string \<Rightarrow> bool" where
  "validUserinfo s \<longleftrightarrow>
     list_all (\<lambda>c. is_letter c \<or> is_digit c \<or> c \<in> set ''-._:~!$&()*+,;=%@'' \<or> c = CHR 0x27) s"

text \<open>The user information is checked and, here, dropped.\<close>

definition parseAuthority ::
    "(string \<Rightarrow> string) \<Rightarrow> (string \<Rightarrow> go_error + string) \<Rightarrow> string \<Rightarrow> go_error + string" where
  "parseAuthority q weird authority =
     (if CHR ''@'' \<notin> set authority then parseHost q weird authority
      else
        (case split_last CHR ''@'' authority of (userinfo, host) \<Rightarrow>
        (case parseHost q weird (tl host) of
           Inl e \<Rightarrow> Inl e
         | Inr h \<Rightarrow>
        (if \<not> validUserinfo userinfo then Inl (ErrMsg ''net/url: invalid userinfo'')
         else (case Cut CHR '':'' userinfo of (name, password) \<Rightarrow>
              (case unescape q UserPart name of
                 Inl e \<Rightarrow> Inl e
               | Inr n \<Rightarrow>
              (case unescape q UserPart password of
                 Inl e \<Rightarrow> Inl e
               | Inr pw \<Rightarrow> Inr h)))))))"

text \<open>\<open>setPath\<close> only fails or stores the path.\<close>

definition with_path :: "(string \<Rightarrow> string) \<Rightarrow> string \<Rightarrow> url \<Rightarrow> go_error + url" where
  "with_path q path u = (case unescape q PathPart path of Inl e \<Rightarrow> Inl e | Inr p \<Rightarrow> Inr u)"

definition parse_url ::
    "(string \<Rightarrow> string) \<Rightarrow> (string \<Rightarrow> go_error + string) \<Rightarrow> string \<Rightarrow> go_error + url" where
  "parse_url q weird raw =
     (if list_ex is_control raw then Inl (ErrMsg ''net/url: invalid control character in URL'')
      else if raw = ''*'' then Inr \<lparr>u_Scheme = [], u_Host = [], u_RawQuery = []\<rparr>
      else (case getScheme raw [] raw of
        Inl e \<Rightarrow> Inl e
      | Inr (sch, rest0) \<Rightarrow>
     (let scheme = map lower_byte sch; (rest, query) = Cut CHR ''?'' rest0;
          u = \<lparr>u_Scheme = scheme, u_Host = [], u_RawQuery = query\<rparr>
      in if \<not> has_prefix rest ''/'' \<and> scheme \<noteq> [] then Inr u
         else if \<not> has_prefix rest ''/'' \<and> CHR '':'' \<in> set (fst (Cut CHR ''/'' rest))
         then Inl (ErrMsg ''first path segment in URL cannot contain colon'')
         else if (scheme \<noteq> [] \<or> \<not> has_prefix rest ''///'') \<and> has_prefix rest ''//''
         then (let authority = takeWhile (\<lambda>c. c \<noteq> CHR ''/'') (drop 2 rest)
               in case parseAuthority q weird authority of
                    Inl e \<Rightarrow> Inl e
                  | Inr h \<Rightarrow> with_path q (drop (2 + length authority) rest) (u\<lparr>u_Host := h\<rparr>))
         else with_path q rest u)))"

definition url_Parse ::
    "(string \<Rightarrow> string) \<Rightarrow> (string \<Rightarrow> go_error + string) \<Rightarrow> string \<Rightarrow> go_error + url" where
  "url_Parse q weird raw =
     (case Cut CHR ''#'' raw of (s, frag) \<Rightarrow>
     (case parse_url q weird s of
        Inl e \<Rightarrow> Inl (ErrWrap (''parse '' @ q s) e)
      | Inr u \<Rightarrow>
          (case unescape q FragmentPart frag of
             Inl e \<Rightarrow> Inl (ErrWrap (''parse '' @ q raw) e)
           | Inr f \<Rightarrow> Inr u)))"

text \<open>\<open>Hostname\<close> and \<open>Port\<close>.\<close>

definition splitHostPort :: "string \<Rightarrow> string \<times> string" where
  "splitHostPort hostPort =
     (let (host, port) =
        (if CHR '':'' \<in> set hostPort \<and> validOptionalPort (snd (split_last CHR '':'' hostPort))
         then (fst (split_last CHR '':'' hostPort), tl (snd (split_last CHR '':'' hostPort)))
         else (hostPort, []))
      in if has_prefix host ''['' \<and> host \<noteq> [] \<and> last host = CHR '']''
         then (butlast (tl host), port) else (host, port))"

definition url_Hostname :: "url \<Rightarrow> string" where "url_Hostname u = fst (splitHostPort (u_Host u))"
definition url_Port :: "url \<Rightarrow> string" where "url_Port u = snd (splitHostPort (u_Host u))"

definition url_Query :: "(string \<Rightarrow> string) \<Rightarrow> url \<Rightarrow> (string \<times> string) list" where
  "url_Query q u = ParseQuery q (u_RawQuery u)"

section \<open>What is encoded is parsed back\<close>

text \<open>The characters of escaped text.\<close>

definition url_plain :: "char \<Rightarrow> bool" where
  "url_plain c \<longleftrightarrow> url_unreserved c \<or> c = CHR ''+'' \<or> c = CHR ''%''"

lemma url_plain_not: "url_plain c \<Longrightarrow> c \<notin> set ''&=;#?'' \<and> \<not> is_control c"
  by (auto simp: url_plain_def url_unreserved_def is_digit_def is_control_def less_char_def
      less_eq_char_def)

lemma host_char: "url_unreserved c \<Longrightarrow> host_allowed c \<and> c \<notin> set ''[]:@/%#?+'' \<and> \<not> is_control c"
  by (auto simp: host_allowed_def url_unreserved_def is_digit_def is_control_def less_char_def
      less_eq_char_def)

lemma hex_val_upper:
  "\<exists>a b. hex_upper (byte_of c) = [a, b] \<and> hex_val a = Some (of_char c div 16) \<and> hex_val b = Some (of_char c mod 16)"
proof -
  have v: "hex_val (upper_byte (hex_digit n)) = Some n" if "n < 16" for n
  proof -
    have "n = 0 \<or> n = 1 \<or> n = 2 \<or> n = 3 \<or> n = 4 \<or> n = 5 \<or> n = 6 \<or> n = 7 \<or> n = 8 \<or> n = 9 \<or>
        n = 10 \<or> n = 11 \<or> n = 12 \<or> n = 13 \<or> n = 14 \<or> n = 15" using that by presburger
    then show ?thesis
      by (elim disjE) (simp_all add: hex_digit_def upper_byte_def hex_val_def is_digit_def char_of_def bit_0)
  qed
  then have "hex_val (upper_byte (hex_digit (n mod 16))) = Some (n mod 16)" for n by simp
  then have h: "hex_val (upper_byte (hex_digit n)) = Some (n mod 16)" for n
    by (simp add: hex_digit_def)
  have "(of_char c :: nat) div 16 < 16" by (rule less_mult_imp_div_less) simp
  then show ?thesis by (simp add: hex_upper_def hex_encode_def unat_byte_of h)
qed

lemma unescape_escape_byte:
  "unescape q QueryPart (escape_byte c @ t) =
     (case unescape q QueryPart t of Inl e \<Rightarrow> Inl e | Inr u \<Rightarrow> Inr (c # u))"
proof (cases "url_unreserved c")
  case True
  with host_char [OF True] show ?thesis by (simp add: escape_byte_def split: sum.split)
next
  case False
  obtain a b where h: "hex_upper (byte_of c) = [a, b]" "hex_val a = Some (of_char c div 16)"
    "hex_val b = Some (of_char c mod 16)" using hex_val_upper by blast
  have "16 * (of_char c div 16) + of_char c mod 16 = (of_char c :: nat)" by simp
  then have "char_of (16 * (of_char c div 16) + of_char c mod 16 :: nat) = c" by (simp only: char_of_char)
  with False h show ?thesis by (simp add: escape_byte_def split: sum.split)
qed

lemma unescape_QueryEscape [simp]: "unescape q QueryPart (QueryEscape s) = Inr s"
proof (induction s)
  case (Cons c s)
  then show ?case
    using unescape_escape_byte [of q c "QueryEscape s"] by (simp add: QueryEscape_def)
qed (simp add: QueryEscape_def)

lemma QueryEscape_plain_chars: "list_all url_plain (QueryEscape s)"
proof -
  have "list_all url_plain (escape_byte c)" for c
    using hex_unreserved [of "byte_of c"]
    by (auto simp: escape_byte_def url_plain_def list_all_iff)
  then show ?thesis by (induction s) (simp_all add: QueryEscape_def)
qed

lemma Cut_at: "c \<notin> set s \<Longrightarrow> Cut c (s @ c # t) = (s, t)"
  by (induction s) (auto simp: Cut_def)

lemma Cut_none: "c \<notin> set s \<Longrightarrow> Cut c s = (s, [])"
  by (induction s) (auto simp: Cut_def)

lemma plain_set: "list_all url_plain s \<Longrightarrow> set s \<inter> set ''&=;#?'' = {}"
  using url_plain_not by (fastforce simp: list_all_iff)

lemma ParseQuery_Nil [simp]: "ParseQuery q [] = []"
  by (simp add: ParseQuery.simps)

lemma ParseQuery_pair:
  assumes "Cut CHR ''&'' s = (QueryEscape k @ CHR ''='' # QueryEscape v, rest)" and "s \<noteq> []"
  shows "ParseQuery q s = (k, v) # ParseQuery q rest"
proof -
  note p = plain_set [OF QueryEscape_plain_chars]
  have k: "CHR ''='' \<notin> set (QueryEscape k)" "CHR '';'' \<notin> set (QueryEscape k @ CHR ''='' # QueryEscape v)"
    using p [of k] p [of v] by auto
  show ?thesis using assms k by (simp add: ParseQuery.simps [of q s] Cut_at)
qed

lemma ParseQuery_Encode: "ParseQuery q (url_Encode kvs) = kvs"
proof (induction kvs)
  case Nil
  show ?case by (simp add: url_Encode_def)
next
  case (Cons kv kvs)
  obtain k v where kv: "kv = (k, v)" by (metis surj_pair)
  let ?p = "QueryEscape k @ CHR ''='' # QueryEscape v"
  have a: "CHR ''&'' \<notin> set ?p"
    using plain_set [OF QueryEscape_plain_chars [of k]] plain_set [OF QueryEscape_plain_chars [of v]] by auto
  show ?case
  proof (cases "kvs = []")
    case True
    then have "url_Encode (kv # kvs) = ?p" by (simp add: url_Encode_def kv)
    then show ?thesis using ParseQuery_pair [OF Cut_none [OF a], of q] True kv by simp
  next
    case False
    then have e: "url_Encode (kv # kvs) = ?p @ CHR ''&'' # url_Encode kvs"
      by (simp add: url_Encode_def kv join_Cons)
    have "Cut CHR ''&'' (url_Encode (kv # kvs)) = (?p, url_Encode kvs)"
      unfolding e by (rule Cut_at [OF a])
    from ParseQuery_pair [OF this] Cons.IH kv e show ?thesis by simp
  qed
qed

lemma url_Encode_chars: "list_all (\<lambda>c. url_plain c \<or> c = CHR ''='' \<or> c = CHR ''&'') (url_Encode kvs)"
proof (induction kvs)
  case (Cons kv kvs)
  obtain k v where kv: "kv = (k, v)" by (metis surj_pair)
  have "list_all (\<lambda>c. url_plain c \<or> c = CHR ''='' \<or> c = CHR ''&'') (QueryEscape x)" for x
    using QueryEscape_plain_chars [of x] by (simp add: list_all_iff)
  with Cons show ?case by (cases "kvs = []") (simp_all add: url_Encode_def kv join_Cons)
qed (simp add: url_Encode_def)

text \<open>A URL of a host, a port and a query.\<close>

lemma unescape_plain:
  "list_all url_unreserved s \<Longrightarrow> unescape q HostPart (s @ t) =
     (case unescape q HostPart t of Inl e \<Rightarrow> Inl e | Inr u \<Rightarrow> Inr (s @ u))"
proof (induction s)
  case (Cons c s)
  then have "host_allowed c" "c \<noteq> CHR ''%''" using host_char [of c] by auto
  with Cons show ?case by (simp split: sum.splits)
qed (simp split: sum.split)

lemma digit_unreserved: "is_digit c \<Longrightarrow> url_unreserved c"
  by (simp add: url_unreserved_def)

lemma digits_unreserved: "list_all is_digit s \<Longrightarrow> list_all url_unreserved s"
  by (simp add: list_all_iff digit_unreserved)

lemma split_last_at: "c \<notin> set t \<Longrightarrow> split_last c (s @ c # t) = (s, c # t)"
proof -
  assume "c \<notin> set t"
  then have "takeWhile (\<lambda>x. x \<noteq> c) (rev t @ [c] @ rev s) = rev t"
    by (subst takeWhile_append2) auto
  then show ?thesis by (simp add: split_last_def)
qed

lemma split_host:
  assumes "list_all url_unreserved host" and "list_all is_digit port"
  shows "split_last CHR '':'' (host @ CHR '':'' # port) = (host, CHR '':'' # port)"
    and "parseHost q weird (host @ CHR '':'' # port) = Inr (host @ CHR '':'' # port)"
    and "splitHostPort (host @ CHR '':'' # port) = (host, port)"
proof -
  note u = assms(1) digits_unreserved [OF assms(2)]
  have n: "CHR '':'' \<notin> set host" "CHR '':'' \<notin> set port" "CHR ''['' \<notin> set (host @ CHR '':'' # port)"
    "CHR '']'' \<notin> set (host @ CHR '':'' # port)"
    using u host_char by (fastforce simp: list_all_iff)+
  show s: "split_last CHR '':'' (host @ CHR '':'' # port) = (host, CHR '':'' # port)"
    by (rule split_last_at [OF n(2)])
  have c: "count_list (host @ CHR '':'' # port) CHR '':'' = 1" using n(1,2) by simp
  have v: "validOptionalPort (CHR '':'' # port)" using assms(2) by (simp add: validOptionalPort_def)
  have colon: "host_allowed CHR '':''" by (simp add: host_allowed_def)
  have "unescape q HostPart port = Inr port" using unescape_plain [OF u(2), of q "[]"] by simp
  then have "unescape q HostPart (host @ CHR '':'' # port) = Inr (host @ CHR '':'' # port)"
    using unescape_plain [OF u(1)] colon by simp
  then show "parseHost q weird (host @ CHR '':'' # port) = Inr (host @ CHR '':'' # port)"
    using n c v s by (simp add: parseHost_def)
  have "\<not> has_prefix host ''[''" using n(3) by (auto simp: has_prefix_iff)
  then show "splitHostPort (host @ CHR '':'' # port) = (host, port)"
    using s v by (simp add: splitHostPort_def)
qed

lemma lower_letter: "CHR ''a'' \<le> c \<Longrightarrow> c \<le> CHR ''z'' \<Longrightarrow> is_letter c \<and> lower_byte c = c \<and> url_unreserved c"
  by (auto simp: is_letter_def lower_byte_def is_upper_def url_unreserved_def less_eq_char_def)

lemma getScheme_letters:
  "list_all is_letter sch \<Longrightarrow> sch \<noteq> [] \<or> seen \<noteq> [] \<Longrightarrow>
     getScheme raw seen (sch @ CHR '':'' # rest) = Inr (seen @ sch, rest)"
proof (induction sch arbitrary: seen)
  case Nil
  have "\<not> is_letter CHR '':''" "\<not> is_digit CHR '':''" by (simp_all add: is_letter_def is_digit_def)
  with Nil show ?case by simp
qed simp

text \<open>The URL of a server that listens on a port.\<close>

lemma url_Parse_server:
  assumes "list_all (\<lambda>c. CHR ''a'' \<le> c \<and> c \<le> CHR ''z'') sch" and "sch \<noteq> []"
    and "list_all url_unreserved host" and "list_all is_digit port"
    and "list_all (\<lambda>c. url_plain c \<or> c = CHR ''='' \<or> c = CHR ''&'') query"
  shows "url_Parse q weird (sch @ ''://'' @ host @ '':'' @ port @ ''?'' @ query) =
    Inr \<lparr>u_Scheme = sch, u_Host = host @ '':'' @ port, u_RawQuery = query\<rparr>"
proof -
  let ?auth = "host @ CHR '':'' # port"
  let ?raw = "sch @ CHR '':'' # ''//'' @ ?auth @ CHR ''?'' # query"
  note port = digits_unreserved [OF assms(4)]
  have sch: "list_all is_letter sch" "map lower_byte sch = sch" "list_all url_unreserved sch"
    using assms(1) lower_letter by (auto simp: list_all_iff map_idI)
  have un: "CHR ''#'' \<notin> set x \<and> CHR ''?'' \<notin> set x \<and> CHR ''/'' \<notin> set x \<and> CHR ''@'' \<notin> set x \<and> \<not> list_ex is_control x"
    if "list_all url_unreserved x" for x
    using that host_char by (fastforce simp: list_all_iff list_ex_iff)
  have qy: "CHR ''#'' \<notin> set query" "\<not> list_ex is_control query"
  proof -
    have "c \<noteq> CHR ''#'' \<and> \<not> is_control c" if "c \<in> set query" for c
    proof -
      have "url_plain c \<or> c = CHR ''='' \<or> c = CHR ''&''" using that assms(5) by (simp add: list_all_iff)
      then show ?thesis
        using url_plain_not [of c] by (elim disjE) (auto simp: is_control_def less_char_def)
    qed
    then show "CHR ''#'' \<notin> set query" "\<not> list_ex is_control query" by (auto simp: list_ex_iff)
  qed
  have h: "CHR ''#'' \<notin> set ?raw" using un [OF sch(3)] un [OF assms(3)] un [OF port] qy by auto
  have c: "\<not> list_ex is_control ?raw"
    using un [OF sch(3)] un [OF assms(3)] un [OF port] qy(2) by (simp add: is_control_def less_char_def)
  have star: "?raw \<noteq> ''*''" using assms(2) by (cases sch) auto
  have g: "getScheme ?raw [] ?raw = Inr (sch, ''//'' @ ?auth @ CHR ''?'' # query)"
    using getScheme_letters [OF sch(1), of "[]" ?raw] assms(2) by simp
  have "CHR ''?'' \<notin> set (''//'' @ ?auth)" using un [OF assms(3)] un [OF port] by simp
  from Cut_at [OF this, of query] have k: "Cut CHR ''?'' (''//'' @ ?auth @ CHR ''?'' # query) = (''//'' @ ?auth, query)"
    by simp
  have a: "takeWhile (\<lambda>c. c \<noteq> CHR ''/'') ?auth = ?auth"
    using un [OF assms(3)] un [OF port] by (simp add: takeWhile_eq_all_conv) blast
  have at: "CHR ''@'' \<notin> set ?auth" using un [OF assms(3)] un [OF port] by simp
  have p: "parseAuthority q weird ?auth = Inr ?auth"
    using at split_host(2) [OF assms(3,4)] by (simp add: parseAuthority_def)
  have d: "drop 2 (''//'' @ ?auth) = ?auth" and l: "drop (2 + length ?auth) (''//'' @ ?auth) = []" by simp_all
  have "parse_url q weird ?raw = Inr \<lparr>u_Scheme = sch, u_Host = ?auth, u_RawQuery = query\<rparr>"
    unfolding parse_url_def g sum.case prod.case k Let_def sch(2) d a p l
    using c star assms(2) by (simp add: has_prefix_def with_path_def)
  then show ?thesis using Cut_none [OF h] by (simp add: url_Parse_def)
qed

end
