(* ===== verification/Server.thy ===== *)
theory Server
  imports Rpc_Runs Mdns Net_Url
begin

text \<open>
  \<open>einkgrpc/server.go\<close>: the server that owns the credentials, the listener, the gRPC server and the
  registrar.  The methods are modelled here as the mutex makes them appear to one caller; their
  interleaving is the subject of the theory \<open>Server_Conc\<close>.
\<close>

section \<open>State\<close>

record Config =
  cfg_Display :: "dref option"
  cfg_FilesDir :: string
  cfg_Port :: int
  cfg_MaxRecvBytes :: int
  cfg_ServerVersion :: string
  cfg_EnableMTLS :: bool
  cfg_EnableMDNS :: bool

definition DefaultPort :: int where "DefaultPort = 50051"
definition DefaultMaxRecvBytes :: int where "DefaultMaxRecvBytes = 16 * 1024 * 1024"

text \<open>
  A \<open>*grpc.Server\<close> is its options (key pair, minimal TLS version, client authorities when client
  certificates are required, message limit), the registered service, and the listener it serves.
\<close>

definition VersionTLS12 :: nat where "VersionTLS12 = 0x0303"

record grpc_server =
  gs_cert :: "string \<times> string"
  gs_minVersion :: nat
  gs_clientCAs :: "string option"
  gs_maxRecv :: int
  gs_service :: DisplayService
  gs_lis :: "nat option"

record Server =
  sv_cfg :: Config
  sv_cm :: CertManager
  sv_mdns :: "zcRegistrar option"
  sv_srv :: "grpc_server option"
  sv_lis :: "nat option"
  sv_running :: bool
  sv_port :: nat
  sv_rotateReq :: nat

section \<open>Construction\<close>

definition with_defaults :: "Config \<Rightarrow> Config" where
  "with_defaults cfg =
     (let cfg = (if cfg_Port cfg = 0 then cfg\<lparr>cfg_Port := DefaultPort\<rparr> else cfg);
          cfg = (if cfg_MaxRecvBytes cfg = 0
                 then cfg\<lparr>cfg_MaxRecvBytes := DefaultMaxRecvBytes\<rparr> else cfg);
          cfg = (if cfg_ServerVersion cfg = [] then cfg\<lparr>cfg_ServerVersion := ''0.1.0''\<rparr> else cfg)
      in cfg)"

definition sv_New ::
    "env \<Rightarrow> string list \<Rightarrow> string list \<Rightarrow> Config \<Rightarrow> world \<Rightarrow> Server outcome \<times> world" where
  "sv_New E rorder worder cfg w =
     (if cfg_FilesDir cfg = [] then (Err (ErrMsg ''einkgrpc: Config.FilesDir is required''), w)
      else
        (let cfg = with_defaults cfg
         in case NewCertManager E rorder worder (cfg_FilesDir cfg) w of
              (Err e, w1) \<Rightarrow> (Err e, w1)
            | (Panic p, w1) \<Rightarrow> (Panic p, w1)
            | (Ok cm, w1) \<Rightarrow>
                (Ok \<lparr>sv_cfg = cfg, sv_cm = cm, sv_mdns = None, sv_srv = None, sv_lis = None,
                     sv_running = False, sv_port = 0, sv_rotateReq = 0\<rparr>, w1)))"

definition sv_CertManager :: "Server \<Rightarrow> CertManager" where "sv_CertManager s = sv_cm s"
definition IsRunning :: "Server \<Rightarrow> bool" where "IsRunning s = sv_running s"
definition ListeningPort :: "Server \<Rightarrow> nat" where "ListeningPort s = sv_port s"

section \<open>Start\<close>

definition client_pool :: "env \<Rightarrow> Server \<Rightarrow> string option outcome" where
  "client_pool E s =
     (if cfg_EnableMTLS (sv_cfg s)
      then (case ClientCAPool E (sv_cm s) of
              Ok p \<Rightarrow> Ok (Some p)
            | Err e \<Rightarrow> Err e
            | Panic x \<Rightarrow> Panic x)
      else Ok None)"

text \<open>Whether the panel is in colour, for the advertisement.\<close>

definition panel_is_color :: "env \<Rightarrow> dref option \<Rightarrow> world \<Rightarrow> bool \<times> world" where
  "panel_is_color E d w =
     (case d of
        None \<Rightarrow> (False, w)
      | Some d \<Rightarrow>
          (case display_Info E d w of
             (Ok i, w1) \<Rightarrow> (di_color i, w1)
           | (Err e, w1) \<Rightarrow> (False, w1)
           | (Panic p, w1) \<Rightarrow> (False, w1)))"

definition start_mdns :: "env \<Rightarrow> Server \<Rightarrow> world \<Rightarrow> Server \<times> world" where
  "start_mdns E s w =
     (if cfg_EnableMDNS (sv_cfg s)
      then (case panel_is_color E (cfg_Display (sv_cfg s)) w of
              (isColor, w1) \<Rightarrow>
                (case mdns_Register E NewMdnsRegistrar (sv_port s) isColor
                    (cm_Fingerprint E (sv_cm s)) (cfg_ServerVersion (sv_cfg s)) w1 of
                   (r, z, w2) \<Rightarrow> (s\<lparr>sv_mdns := Some z\<rparr>, w2)))
      else (s, w))"

text \<open>
  \<open>Start\<close>; the goroutine at its end serves the listener, which is recorded in the gRPC server.
\<close>

definition sv_Start :: "env \<Rightarrow> Server \<Rightarrow> world \<Rightarrow> unit outcome \<times> Server \<times> world" where
  "sv_Start E s w =
     (if sv_running s then (Err (ErrMsg ''einkgrpc: server already running''), s, w)
      else
     (case e_key_pair E (ServerCertPEM (sv_cm s)) (ServerKeyPEM (sv_cm s)) of
        Some e \<Rightarrow> (Err (ErrWrap ''einkgrpc: load server keypair'' e), s, w)
      | None \<Rightarrow>
     (case client_pool E s of
        Err e \<Rightarrow> (Err e, s, w)
      | Panic p \<Rightarrow> (Panic p, s, w)
      | Ok pool \<Rightarrow>
     (case NewDisplayService E (cfg_Display (sv_cfg s)) (cfg_ServerVersion (sv_cfg s)) True w of
        (svc, w1) \<Rightarrow>
     (let srv = \<lparr>gs_cert = (ServerCertPEM (sv_cm s), ServerKeyPEM (sv_cm s)),
                 gs_minVersion = VersionTLS12, gs_clientCAs = pool,
                 gs_maxRecv = cfg_MaxRecvBytes (sv_cfg s), gs_service = svc, gs_lis = None\<rparr>;
          addr = '':'' @ show_int (cfg_Port (sv_cfg s))
      in case net_Listen E addr w1 of
        (Inl e, w2) \<Rightarrow> (Err (ErrWrap (''einkgrpc: listen '' @ addr) e), s, w2)
      | (Inr (lis, tcp), w2) \<Rightarrow>
     (let s1 = (case tcp of None \<Rightarrow> s | Some p \<Rightarrow> s\<lparr>sv_port := p\<rparr>);
          s2 = s1\<lparr>sv_srv := Some srv, sv_lis := Some lis, sv_running := True\<rparr>
      in case start_mdns E s2 w2 of
           (s3, w3) \<Rightarrow> (Ok (), s3\<lparr>sv_srv := Some (srv\<lparr>gs_lis := Some lis\<rparr>)\<rparr>, w3)))))))"

section \<open>Stop\<close>

text \<open>
  Stopping a gRPC server, gracefully or after the deadline, closes the listener it serves.
\<close>

definition grpc_Stop :: "grpc_server \<Rightarrow> world \<Rightarrow> world" where
  "grpc_Stop g w = (case gs_lis g of None \<Rightarrow> w | Some l \<Rightarrow> close_listener l w)"

definition sv_Stop :: "Server \<Rightarrow> world \<Rightarrow> unit outcome \<times> Server \<times> world" where
  "sv_Stop s w =
     (let srv = sv_srv s; mdns = sv_mdns s; s1 = s\<lparr>sv_srv := None, sv_mdns := None\<rparr>
      in if \<not> sv_running s1 then (Ok (), s1, w)
         else
           (let s2 = s1\<lparr>sv_running := False\<rparr>;
                w1 = (case mdns of None \<Rightarrow> w | Some z \<Rightarrow> snd (mdns_Unregister z w));
                w2 = (case srv of None \<Rightarrow> w1 | Some g \<Rightarrow> grpc_Stop g w1)
            in (Ok (), s2, w2)))"

text \<open>The callback given to the service: a non-blocking send on a channel of capacity 1, then \<open>Stop\<close>.\<close>

definition rotate_callback :: "Server \<Rightarrow> world \<Rightarrow> Server \<times> world" where
  "rotate_callback s w =
     (let s1 = (if sv_rotateReq s < 1 then s\<lparr>sv_rotateReq := Suc (sv_rotateReq s)\<rparr> else s)
      in snd (sv_Stop s1 w))"

section \<open>The connect URI\<close>

definition ConnectURI :: "env \<Rightarrow> Server \<Rightarrow> string \<Rightarrow> string" where
  "ConnectURI E s host =
     (let host = (if host = [] then ''127.0.0.1'' else host);
          v = [(''fp'', truncatedFingerprint (cm_Fingerprint E (sv_cm s))),
               (''token'', cm_Token (sv_cm s))]
      in ''tableaux://'' @ host @ '':'' @ show_nat (ListeningPort s) @ ''?'' @ url_Encode v)"

section \<open>RPCs on a running server\<close>

text \<open>The handler state of a running server: its service, the shared credentials, the world.\<close>

definition rpc_state :: "Server \<Rightarrow> grpc_server \<Rightarrow> world \<Rightarrow> svc_state" where
  "rpc_state s g w = \<lparr>st_svc = gs_service g, st_cm = sv_cm s, st_tasks = [], st_world = w\<rparr>"

definition serve_rpc ::
    "(svc_state \<Rightarrow> 'r \<times> svc_state) \<Rightarrow> Server \<Rightarrow> world \<Rightarrow> 'r option \<times> Server \<times> task list \<times> world" where
  "serve_rpc h s w =
     (case sv_srv s of
        None \<Rightarrow> (None, s, [], w)
      | Some g \<Rightarrow>
          (case h (rpc_state s g w) of
             (r, st) \<Rightarrow> (Some r, s\<lparr>sv_cm := st_cm st, sv_srv := Some (g\<lparr>gs_service := st_svc st\<rparr>)\<rparr>,
                          st_tasks st, st_world st)))"

section \<open>The life cycle\<close>

text \<open>What a server holds open, over a base of other listeners and advertisements.\<close>

definition held_listener :: "Server \<Rightarrow> nat list" where
  "held_listener s = (case sv_srv s of None \<Rightarrow> [] | Some g \<Rightarrow> (case gs_lis g of None \<Rightarrow> [] | Some l \<Rightarrow> [l]))"

definition held_advert :: "Server \<Rightarrow> string list list" where
  "held_advert s = (case sv_mdns s of None \<Rightarrow> [] | Some z \<Rightarrow> (case zc_server z of None \<Rightarrow> [] | Some i \<Rightarrow> [i]))"

definition server_inv :: "nat list \<Rightarrow> string list list \<Rightarrow> Server \<times> world \<Rightarrow> bool" where
  "server_inv L A sw \<longleftrightarrow>
     (case sw of (s, w) \<Rightarrow>
        open_listeners (hist w) = held_listener s @ L \<and>
        adverts (hist w) = held_advert s @ A \<and>
        (sv_running s \<longleftrightarrow> sv_srv s \<noteq> None) \<and>
        (sv_mdns s \<noteq> None \<longrightarrow> sv_srv s \<noteq> None) \<and>
        sv_rotateReq s \<le> 1)"

text \<open>
  An operation is a call of a method, the callback that an RPC has scheduled, or the arrival of an
  RPC on the running server.
\<close>

datatype server_op = SvStart | SvStop | SvRotateCallback | SvRpc "string list" rpc

definition serve_arrival :: "env \<Rightarrow> string list \<times> rpc \<Rightarrow> Server \<times> world \<Rightarrow> Server \<times> world" where
  "serve_arrival E op sw =
     (case serve_rpc (arrive E op) (fst sw) (snd sw) of (r, s', ts, w') \<Rightarrow> (s', w'))"

fun server_step :: "env \<Rightarrow> server_op \<Rightarrow> Server \<times> world \<Rightarrow> Server \<times> world" where
  "server_step E SvStart (s, w) = snd (sv_Start E s w)"
| "server_step E SvStop (s, w) = snd (sv_Stop s w)"
| "server_step E SvRotateCallback (s, w) = rotate_callback s w"
| "server_step E (SvRpc order q) (s, w) = serve_arrival E (order, q) (s, w)"

lemma Info_quiet:
  "open_listeners (hist (snd (display_Info E d w))) = open_listeners (hist w)"
  "adverts (hist (snd (display_Info E d w))) = adverts (hist w)"
  by (auto simp: display_Info_def ioctl_get_info_def Let_def split: sum.split)

lemma color_quiet:
  "panel_is_color E d w = (c, w') \<Longrightarrow> open_listeners (hist w') = open_listeners (hist w)"
  "panel_is_color E d w = (c, w') \<Longrightarrow> adverts (hist w') = adverts (hist w)"
  using Info_quiet [of E "the d" w]
  by (auto simp: panel_is_color_def split: option.splits prod.splits outcome.splits)

lemma Register_effect:
  "mdns_Register E NewMdnsRegistrar p c fp v w = (r, z, w') \<Longrightarrow>
     open_listeners (hist w') = open_listeners (hist w) \<and>
     adverts (hist w') = (case zc_server z of None \<Rightarrow> [] | Some i \<Rightarrow> [i]) @ adverts (hist w)"
  by (auto simp: mdns_defs NewMdnsRegistrar_def Let_def split: option.splits if_splits)

lemma start_mdns_effect:
  assumes "start_mdns E s w = (s', w')" and "sv_mdns s = None"
  shows "open_listeners (hist w') = open_listeners (hist w) \<and>
    adverts (hist w') = held_advert s' @ adverts (hist w) \<and> (\<exists>m. s' = s\<lparr>sv_mdns := m\<rparr>)"
proof (cases "cfg_EnableMDNS (sv_cfg s)")
  case False
  then have "s' = s" "w' = w" using assms(1) by (simp_all add: start_mdns_def)
  moreover have "\<exists>m. s = s\<lparr>sv_mdns := m\<rparr>" by (rule exI [of _ "sv_mdns s"]) simp
  ultimately show ?thesis using assms(2) by (simp add: held_advert_def)
next
  case True
  obtain c w1 where c: "panel_is_color E (cfg_Display (sv_cfg s)) w = (c, w1)" by (metis surj_pair)
  obtain r z w2 where z: "mdns_Register E NewMdnsRegistrar (sv_port s) c
      (cm_Fingerprint E (sv_cm s)) (cfg_ServerVersion (sv_cfg s)) w1 = (r, z, w2)"
    by (metis prod_cases3)
  have "s' = s\<lparr>sv_mdns := Some z\<rparr>" "w' = w2"
    using assms(1) True c z by (simp_all add: start_mdns_def)
  then show ?thesis
    using color_quiet [OF c] Register_effect [OF z] by (auto simp: held_advert_def)
qed

lemma Stop_inv:
  assumes "server_inv L A (s, w)" and "sv_Stop s w = (r, s', w')"
  shows "server_inv L A (s', w') \<and> \<not> sv_running s' \<and> sv_srv s' = None \<and> sv_mdns s' = None"
  using assms
  by (auto simp: server_inv_def sv_Stop_def held_listener_def held_advert_def grpc_Stop_def
      close_listener_def mdns_Unregister_def zeroconf_Shutdown_def Let_def
      split: if_splits option.splits)

lemma start_mdns_quiet:
  assumes "start_mdns E s w = (s', w')"
  shows "(\<exists>m. s' = s\<lparr>sv_mdns := m\<rparr>) \<and> open_listeners (hist w') = open_listeners (hist w)"
proof (cases "cfg_EnableMDNS (sv_cfg s)")
  case False
  then have "s' = s\<lparr>sv_mdns := sv_mdns s\<rparr>" "w' = w" using assms by (simp_all add: start_mdns_def)
  then show ?thesis by blast
next
  case True
  obtain c w1 where c: "panel_is_color E (cfg_Display (sv_cfg s)) w = (c, w1)" by (metis surj_pair)
  obtain r z w2 where z: "mdns_Register E NewMdnsRegistrar (sv_port s) c
      (cm_Fingerprint E (sv_cm s)) (cfg_ServerVersion (sv_cfg s)) w1 = (r, z, w2)"
    by (metis prod_cases3)
  show ?thesis
    using assms True c z color_quiet [OF c] Register_effect [OF z] by (auto simp: start_mdns_def)
qed

text \<open>\<open>Start\<close> either fails without holding anything, or holds a new listener and advertisement.\<close>

lemma Start_cases:
  assumes "sv_Start E s w = (r, s', w')"
  obtains (fails) "\<not> is_ok r" "s' = s" "open_listeners (hist w') = open_listeners (hist w)"
      "adverts (hist w') = adverts (hist w)"
  | (starts) g s2 w2 l s3 where "r = Ok ()" "\<not> sv_running s"
      "open_listeners (hist w2) = l # open_listeners (hist w)" "adverts (hist w2) = adverts (hist w)"
      "start_mdns E s2 w2 = (s3, w')" "s' = s3\<lparr>sv_srv := Some (g\<lparr>gs_lis := Some l\<rparr>)\<rparr>"
      "sv_running s2" "sv_mdns s2 = sv_mdns s" "sv_rotateReq s2 = sv_rotateReq s"
      "client_pool E s = Ok (gs_clientCAs g)"
      "gs_cert g = (ServerCertPEM (sv_cm s), ServerKeyPEM (sv_cm s))"
      "gs_minVersion g = VersionTLS12" "gs_maxRecv g = cfg_MaxRecvBytes (sv_cfg s)"
      "ds_display (gs_service g) = cfg_Display (sv_cfg s)" "ds_lastError (gs_service g) = []"
      "ds_rotateRequest (gs_service g)" "sv_cm s2 = sv_cm s" "sv_cfg s2 = sv_cfg s"
proof (cases "sv_running s \<or> e_key_pair E (ServerCertPEM (sv_cm s)) (ServerKeyPEM (sv_cm s)) \<noteq> None
    \<or> \<not> is_ok (client_pool E s)")
  case True
  then show ?thesis
    using assms fails by (fastforce simp: sv_Start_def split: if_splits option.splits outcome.splits)
next
  case False
  then obtain pool where p: "client_pool E s = Ok pool" by (auto simp: is_ok_iff)
  obtain svc w1 where n: "NewDisplayService E (cfg_Display (sv_cfg s))
      (cfg_ServerVersion (sv_cfg s)) True w = (svc, w1)" by (metis surj_pair)
  have h1: "open_listeners (hist w1) = open_listeners (hist w)" "adverts (hist w1) = adverts (hist w)"
    using n by (auto simp: NewDisplayService_def time_now_def Let_def)
  let ?addr = "'':'' @ show_int (cfg_Port (sv_cfg s))"
  obtain q w2 where l: "net_Listen E ?addr w1 = (q, w2)" by (metis surj_pair)
  show ?thesis
  proof (cases q)
    case (Inl e)
    have "open_listeners (hist w2) = open_listeners (hist w1)" "adverts (hist w2) = adverts (hist w1)"
      using l Inl by (auto simp: net_Listen_def Let_def)
    moreover have "r = Err (ErrWrap (''einkgrpc: listen '' @ ?addr) e)" "s' = s" "w' = w2"
      using assms False p n l Inl by (auto simp: sv_Start_def)
    ultimately show ?thesis using fails h1 by simp
  next
    case (Inr lt)
    obtain lis tcp where lt: "lt = (lis, tcp)" by (metis surj_pair)
    have hl: "open_listeners (hist w2) = lis # open_listeners (hist w1)"
      "adverts (hist w2) = adverts (hist w1)"
      using l Inr lt by (auto simp: net_Listen_def Let_def)
    let ?srv = "\<lparr>gs_cert = (ServerCertPEM (sv_cm s), ServerKeyPEM (sv_cm s)),
       gs_minVersion = VersionTLS12, gs_clientCAs = pool,
       gs_maxRecv = cfg_MaxRecvBytes (sv_cfg s), gs_service = svc, gs_lis = None\<rparr>"
    let ?s1 = "case tcp of None \<Rightarrow> s | Some p \<Rightarrow> s\<lparr>sv_port := p\<rparr>"
    let ?s2 = "?s1\<lparr>sv_srv := Some ?srv, sv_lis := Some lis, sv_running := True\<rparr>"
    obtain s3 w3 where m: "start_mdns E ?s2 w2 = (s3, w3)" by (metis surj_pair)
    have r: "r = Ok ()" and s': "s' = s3\<lparr>sv_srv := Some (?srv\<lparr>gs_lis := Some lis\<rparr>)\<rparr>" and "w' = w3"
      using assms False p n l Inr lt m by (auto simp: sv_Start_def Let_def)
    moreover have "sv_mdns ?s2 = sv_mdns s" "sv_rotateReq ?s2 = sv_rotateReq s" "sv_running ?s2"
      "sv_cm ?s2 = sv_cm s" "sv_cfg ?s2 = sv_cfg s"
      by (simp_all split: option.split)
    moreover have "ds_display svc = cfg_Display (sv_cfg s)" "ds_lastError svc = []"
      "ds_rotateRequest svc"
      using n by (auto simp: NewDisplayService_def split: prod.splits)
    ultimately show ?thesis using starts [of w2 lis ?s2 s3 ?srv] m False hl h1 p by simp
  qed
qed

lemma Start_inv:
  assumes "server_inv L A (s, w)" and "sv_Start E s w = (r, s', w')"
  shows "server_inv L A (s', w') \<and> (is_ok r \<longleftrightarrow> sv_running s' \<and> \<not> sv_running s)"
  using assms(2)
proof (cases rule: Start_cases)
  case fails
  with assms(1) show ?thesis by (auto simp: server_inv_def)
next
  case (starts g s2 w2 l s3)
  have inv: "sv_srv s = None" "sv_mdns s = None" "open_listeners (hist w) = L"
    "adverts (hist w) = A" "sv_rotateReq s \<le> 1"
    using assms(1) starts(2) by (auto simp: server_inv_def held_listener_def held_advert_def)
  have m: "open_listeners (hist w') = open_listeners (hist w2)"
    "adverts (hist w') = held_advert s3 @ adverts (hist w2)"
    using start_mdns_effect [OF starts(5)] starts(8) inv(2) by simp_all
  obtain x where x: "s3 = s2\<lparr>sv_mdns := x\<rparr>"
    using start_mdns_effect [OF starts(5)] starts(8) inv(2) by auto
  have "held_advert s' = held_advert s3" by (simp add: starts(6) held_advert_def)
  moreover have "held_listener s' = [l]" by (simp add: starts(6) held_listener_def)
  ultimately show ?thesis
    using starts inv m x by (simp add: server_inv_def)
qed

lemma callback_inv:
  "server_inv L A (s, w) \<Longrightarrow> server_inv L A (rotate_callback s w)"
proof -
  assume inv: "server_inv L A (s, w)"
  let ?s1 = "if sv_rotateReq s < 1 then s\<lparr>sv_rotateReq := Suc (sv_rotateReq s)\<rparr> else s"
  have "server_inv L A (?s1, w)"
    using inv by (simp add: server_inv_def held_listener_def held_advert_def)
  then have i: "server_inv L A (?s1, w)" .
  obtain r s' w' where e: "sv_Stop ?s1 w = (r, s', w')" by (metis prod_cases3)
  have "rotate_callback s w = (s', w')" unfolding rotate_callback_def Let_def e by simp
  with Stop_inv [OF i e] show ?thesis by simp
qed

text \<open>An RPC changes the credentials, the service and the world, but nothing that the server holds.\<close>

lemma arrival_effect:
  obtains cm m st where "serve_arrival E op (s, w) =
      (s\<lparr>sv_cm := cm, sv_srv := (case sv_srv s of None \<Rightarrow> None | Some g \<Rightarrow> Some (g\<lparr>gs_service := m\<rparr>))\<rparr>, st)"
    "drew (if draws op then 1 else 0) w st"
proof (cases "sv_srv s")
  case None
  then have "serve_arrival E op (s, w) = (s\<lparr>sv_cm := sv_cm s, sv_srv := None\<rparr>, w)"
    by (simp add: serve_arrival_def serve_rpc_def)
  with None that [where cm = "sv_cm s"] show ?thesis by (simp add: drew_same)
next
  case (Some g)
  obtain r st where a: "arrive E op (rpc_state s g w) = (r, st)" by (metis surj_pair)
  have "drew (if draws op then 1 else 0) w (st_world st)"
    using arrive_drew [of op "rpc_state s g w" E] a by (simp add: rpc_state_def)
  moreover have "serve_arrival E op (s, w) = (s\<lparr>sv_cm := st_cm st,
      sv_srv := Some (g\<lparr>gs_service := st_svc st\<rparr>)\<rparr>, st_world st)"
    using a Some by (simp add: serve_arrival_def serve_rpc_def)
  ultimately show ?thesis using that [where cm = "st_cm st" and m = "st_svc st"] Some by simp
qed

lemma arrival_inv: "server_inv L A (s, w) \<Longrightarrow> server_inv L A (serve_arrival E op (s, w))"
  by (rule arrival_effect [of E op s w])
    (auto simp: server_inv_def held_listener_def held_advert_def drew_keeps split: option.splits)

interpretation server_ops: op_system "server_step E" "server_inv L A" for E L A
proof unfold_locales
  fix sw op assume inv: "server_inv L A sw"
  obtain s w where sw: "sw = (s, w)" by (metis surj_pair)
  show "server_inv L A (server_step E op sw)"
  proof (cases op)
    case SvStart
    obtain r s' w' where e: "sv_Start E s w = (r, s', w')" by (metis prod_cases3)
    with Start_inv [OF _ e] inv sw SvStart show ?thesis by simp
  next
    case SvStop
    obtain r s' w' where e: "sv_Stop s w = (r, s', w')" by (metis prod_cases3)
    with Stop_inv [OF _ e] inv sw SvStop show ?thesis by simp
  next
    case SvRotateCallback
    with callback_inv inv sw show ?thesis by simp
  next
    case (SvRpc order q)
    with arrival_inv inv sw show ?thesis by simp
  qed
qed

section \<open>Properties\<close>

text \<open>
  \<open>Stop\<close> cleans up.  After any sequence of starts, stops, RPCs of any clients and rotation
  callbacks on a server that was not running, whatever failed in between, a final \<open>Stop\<close> leaves
  exactly the listeners and the advertisements that were there before, and a server that is not running.
\<close>

lemma stop_cleans_up:
  assumes "\<not> IsRunning s" and "sv_srv s = None" and "sv_mdns s = None" and "sv_rotateReq s \<le> 1"
    and "(s1, w1) = fold (server_step E) ops (s, w)" and "(r, s2, w2) = sv_Stop s1 w1"
  shows "open_listeners (hist w2) = open_listeners (hist w) \<and>
    adverts (hist w2) = adverts (hist w) \<and> \<not> IsRunning s2"
proof -
  have "server_inv (open_listeners (hist w)) (adverts (hist w)) (s, w)"
    using assms(1-4) by (simp add: server_inv_def held_listener_def held_advert_def IsRunning_def)
  from server_ops.run_inv [OF this, of E ops] assms(5)
  have "server_inv (open_listeners (hist w)) (adverts (hist w)) (s1, w1)" by simp
  from Stop_inv [OF this assms(6) [symmetric]] show ?thesis
    by (simp add: server_inv_def held_listener_def held_advert_def IsRunning_def)
qed

definition demo_server :: Server where
  "demo_server = \<lparr>sv_cfg = \<lparr>cfg_Display = None, cfg_FilesDir = ''f'', cfg_Port = 50051,
       cfg_MaxRecvBytes = 16777216, cfg_ServerVersion = ''0.1.0'', cfg_EnableMTLS = True,
       cfg_EnableMDNS = True\<rparr>,
     sv_cm = demo_cm, sv_mdns = None, sv_srv = None, sv_lis = None, sv_running = False,
     sv_port = 0, sv_rotateReq = 0\<rparr>"

lemma demo_server_new: "\<not> IsRunning demo_server" "sv_srv demo_server = None"
  "sv_mdns demo_server = None" "sv_rotateReq demo_server \<le> 1"
  by (simp_all add: demo_server_def IsRunning_def)

lemma stop_cleans_up_example:
  "\<exists>s1 w1 s2 w2 r. (s1, w1) = fold (server_step demo_env)
       [SvStart, SvRpc all_names (Call ''Rotate'' (bearer_ctx ''admin-token-with--32-characters-'') Inr),
        SvRotateCallback, SvStart] (demo_server, empty_world) \<and>
     sv_Stop s1 w1 = (r, s2, w2) \<and> open_listeners (hist w2) = []"
proof -
  define ops where "ops = [SvStart, SvRpc all_names (Call ''Rotate''
    (bearer_ctx ''admin-token-with--32-characters-'') Inr), SvRotateCallback, SvStart]"
  obtain s1 w1 where a: "(s1, w1) = fold (server_step demo_env) ops (demo_server, empty_world)"
    by (metis surj_pair)
  obtain r s2 w2 where b: "(r, s2, w2) = sv_Stop s1 w1" by (metis prod_cases3)
  have "open_listeners (hist empty_world) = []" by (simp add: empty_world_def)
  with stop_cleans_up [OF demo_server_new a b] a b show ?thesis unfolding ops_def by metis
qed

lemma start_serves:
  assumes "sv_Start E s w = (Ok (), s', w')"
  shows "(\<exists>g l. sv_srv s' = Some g \<and> IsRunning s' \<and> \<not> IsRunning s \<and>
      gs_cert g = LoadServerKeypair (sv_cm s) \<and> gs_minVersion g = VersionTLS12 \<and>
      gs_clientCAs g = (if cfg_EnableMTLS (sv_cfg s) then Some (ClientCertPEM (sv_cm s)) else None) \<and>
      gs_maxRecv g = cfg_MaxRecvBytes (sv_cfg s) \<and> gs_lis g = Some l \<and>
      l \<in> set (open_listeners (hist w')) \<and>
      ds_display (gs_service g) = cfg_Display (sv_cfg s) \<and> ds_lastError (gs_service g) = []) \<and>
    sv_Start E s' v = (Err (ErrMsg ''einkgrpc: server already running''), s', v)"
  using assms
proof (cases rule: Start_cases)
  case fails
  then show ?thesis by simp
next
  case (starts g s2 w2 l s3)
  obtain m where m: "s3 = s2\<lparr>sv_mdns := m\<rparr>" "open_listeners (hist w') = open_listeners (hist w2)"
    using start_mdns_quiet [OF starts(5)] by blast
  have pool: "gs_clientCAs g = (if cfg_EnableMTLS (sv_cfg s) then Some (ClientCertPEM (sv_cm s)) else None)"
    using starts(10)
    by (auto simp: client_pool_def ClientCAPool_def ClientCertPEM_def split: if_splits)
  have run: "sv_running s'" by (simp add: starts(6,7) m)
  have "sv_srv s' = Some (g\<lparr>gs_lis := Some l\<rparr>)" by (simp add: starts(6))
  moreover have "l \<in> set (open_listeners (hist w'))" by (simp add: m(2) starts(3))
  ultimately show ?thesis
    using starts(2,11-15) pool run
    by (simp add: IsRunning_def LoadServerKeypair_def ServerCertPEM_def ServerKeyPEM_def sv_Start_def)
qed

text \<open>
  C36. What a started server enforces.  A successful \<open>Start\<close> serves the \<open>CertManager\<close>'s own key pair
  with at least TLS 1.2; with mutual TLS enabled it requires client certificates and trusts
  exactly the issued one; it applies the configured message limit and display and starts without
  a recorded error.  Starting a running server fails and changes nothing.
\<close>

theorem start_enforces:
  assumes "sv_Start E s w = (Ok (), s', w')"
  shows "(\<exists>g l. sv_srv s' = Some g \<and> IsRunning s' \<and> \<not> IsRunning s \<and>
      gs_cert g = LoadServerKeypair (sv_cm s) \<and> gs_minVersion g = VersionTLS12 \<and>
      gs_clientCAs g = (if cfg_EnableMTLS (sv_cfg s) then Some (ClientCertPEM (sv_cm s)) else None) \<and>
      gs_maxRecv g = cfg_MaxRecvBytes (sv_cfg s) \<and> gs_lis g = Some l \<and>
      l \<in> set (open_listeners (hist w')) \<and>
      ds_display (gs_service g) = cfg_Display (sv_cfg s) \<and> ds_lastError (gs_service g) = []) \<and>
    sv_Start E s' v = (Err (ErrMsg ''einkgrpc: server already running''), s', v)"
  by (rule start_serves [OF assms])

lemma demo_start: "\<exists>s' w'. sv_Start demo_env demo_server w = (Ok (), s', w')"
proof -
  have k: "e_key_pair demo_env c k = None" for c k by (simp add: demo_env_def)
  have p: "client_pool demo_env demo_server = Ok (Some ''CERTIFICATE:c'')"
    by (simp add: client_pool_def ClientCAPool_def demo_server_def demo_cm_def demo_env_def
        empty_CertManager_def has_prefix_def)
  have r: "\<not> sv_running demo_server" by (simp add: demo_server_def)
  obtain svc w1 where n: "NewDisplayService demo_env (cfg_Display (sv_cfg demo_server))
      (cfg_ServerVersion (sv_cfg demo_server)) True w = (svc, w1)" by (metis surj_pair)
  have "e_listen demo_env h a = Inr (length h, Some 50051)" for h a by (simp add: demo_env_def)
  then obtain l w2 where l: "net_Listen demo_env ('':'' @ show_int (cfg_Port (sv_cfg demo_server))) w1 =
      (Inr (l, Some 50051), w2)"
    by (auto simp: net_Listen_def Let_def)
  obtain s' w' r' where s: "sv_Start demo_env demo_server w = (r', s', w')" by (metis prod_cases3)
  then show ?thesis
    using k p r n l by (auto simp: sv_Start_def Let_def split: prod.splits)
qed

lemma start_enforces_witness:
  "\<exists>s' w' g. sv_Start demo_env demo_server empty_world = (Ok (), s', w') \<and> sv_srv s' = Some g \<and>
     gs_clientCAs g = Some ''CERTIFICATE:c''"
proof -
  obtain s' w' where s: "sv_Start demo_env demo_server empty_world = (Ok (), s', w')"
    using demo_start by blast
  have c: "cfg_EnableMTLS (sv_cfg demo_server)" "ClientCertPEM (sv_cm demo_server) = ''CERTIFICATE:c''"
    by (simp_all add: demo_server_def ClientCertPEM_def demo_cm_def)
  from start_enforces [OF s] s c show ?thesis by auto
qed

text \<open>
  The URI in the QR code.  When the credentials are the ones a rotation drew, \<open>ConnectURI\<close> is
  exactly the scheme, the host (127.0.0.1 for an empty one) and the port, followed by the first
  sixteen fingerprint bytes with escaped colons and the operator token, which needs no escaping.
\<close>

lemma ConnectURI_text:
  assumes "cm_Token (sv_cm s) = b64_encode b" and "e_pem_decode E (ServerCertPEM (sv_cm s)) = Some der"
  shows "ConnectURI E s host =
    ''tableaux://'' @ (if host = [] then ''127.0.0.1'' else host) @ '':'' @ show_nat (ListeningPort s) @
    ''?fp='' @ join ''%3A'' (map hex_upper (take 16 (sha256_sum E der))) @ ''&token='' @ b64_encode b"
proof -
  let ?ss = "map hex_upper (take 16 (sha256_sum E der))"
  have fp: "truncatedFingerprint (cm_Fingerprint E (sv_cm s)) = join '':'' ?ss"
    using truncated_fingerprint [of E "serverCer (sv_cm s)"] assms(2)
    by (simp add: cm_Fingerprint_def ServerCertPEM_def)
  have colon: "QueryEscape '':'' = ''%3A''" by code_simp
  have "map QueryEscape ?ss = ?ss" by (simp add: QueryEscape_plain hex_unreserved)
  then have e: "QueryEscape (join '':'' ?ss) = join ''%3A'' ?ss" by (simp add: QueryEscape_join colon del: map_map)
  have k: "QueryEscape ''fp'' = ''fp''" "QueryEscape ''token'' = ''token''" by code_simp+
  show ?thesis
    by (simp add: ConnectURI_def url_Encode_def fp e k assms(1) QueryEscape_plain token_unreserved
        Let_def)
qed

lemma ConnectURI_text_example:
  "ConnectURI demo_env (demo_server\<lparr>sv_cm := demo_cm\<lparr>token := b64_encode [1, 2, 3]\<rparr>\<rparr>) [] =
    ''tableaux://127.0.0.1:0?fp='' @
    join ''%3A'' (map hex_upper (take 16 (sha256_sum demo_env ''s''))) @
    ''&token='' @ b64_encode [1, 2, 3]"
proof -
  let ?s = "demo_server\<lparr>sv_cm := demo_cm\<lparr>token := b64_encode [1, 2, 3]\<rparr>\<rparr>"
  have t: "cm_Token (sv_cm ?s) = b64_encode [1, 2, 3]" by (simp add: cm_Token_def)
  have d: "e_pem_decode demo_env (ServerCertPEM (sv_cm ?s)) = Some ''s''"
    by (simp add: demo_env_def ServerCertPEM_def demo_cm_def has_prefix_def)
  have "ListeningPort ?s = 0" by (simp add: ListeningPort_def demo_server_def)
  moreover have "show_nat 0 = ''0''" by code_simp
  ultimately have p: "show_nat (ListeningPort ?s) = ''0''" by simp
  show ?thesis
    by (rule trans [OF ConnectURI_text [OF t d]]) (simp only: p refl if_True append.simps)
qed

end
