(* ===== verification/Quiet.thy ===== *)
theory Quiet
  imports Server Footprint
begin

text \<open>
  Frame conditions: which operations leave the network (listeners, advertisements) and the display
  descriptors alone.  The credential manager and the display service touch neither, the server
  never touches a descriptor.
\<close>

section \<open>The conditions\<close>

definition same_fds :: "world \<Rightarrow> world \<Rightarrow> bool" where
  "same_fds w w' \<longleftrightarrow> open_fds (hist w') = open_fds (hist w) \<and> fd_of w' = fd_of w \<and> ndisp w' = ndisp w"

definition same_net :: "world \<Rightarrow> world \<Rightarrow> bool" where
  "same_net w w' \<longleftrightarrow> open_listeners (hist w') = open_listeners (hist w) \<and> adverts (hist w') = adverts (hist w)"

definition quiet :: "world \<Rightarrow> world \<Rightarrow> bool" where
  "quiet w w' \<longleftrightarrow> same_fds w w' \<and> same_net w w'"

lemma same_fds_refl [simp]: "same_fds w w" and same_net_refl [simp]: "same_net w w"
  and quiet_refl [simp]: "quiet w w"
  by (simp_all add: same_fds_def same_net_def quiet_def)

lemma same_fds_trans: "same_fds u v \<Longrightarrow> same_fds v w \<Longrightarrow> same_fds u w"
  by (simp add: same_fds_def)

lemma quiet_trans: "quiet u v \<Longrightarrow> quiet v w \<Longrightarrow> quiet u w"
  by (simp add: same_fds_def same_net_def quiet_def)

lemma quietD: "quiet w w' \<Longrightarrow> same_fds w w'" "quiet w w' \<Longrightarrow> same_net w w'"
  by (simp_all add: quiet_def)

section \<open>Credentials\<close>

lemma offline_quiet: "offline w w' \<Longrightarrow> quiet w w'"
  by (simp add: quiet_def same_fds_def same_net_def offline_keeps)

lemmas time_quiet [keeps] = time_offline [THEN offline_quiet]
lemmas regenerate_quiet [keeps] = regenerate_offline [THEN offline_quiet]
lemmas NewCertManager_quiet [keeps] = NewCertManager_offline [THEN offline_quiet]

section \<open>Server\<close>

lemma sv_New_quiet [keeps]: "sv_New E ro wo cfg w = (r, w') \<Longrightarrow> quiet w w'"
  by (auto simp: sv_New_def Let_def split: if_splits prod.splits outcome.splits
      dest!: NewCertManager_quiet)

lemma Info_fds: "display_Info E d w = (r, w') \<Longrightarrow> same_fds w w'"
  by (auto simp: display_Info_def ioctl_get_info_def same_fds_def Let_def split: if_splits sum.splits)

lemma color_fds: "panel_is_color E d w = (c, w') \<Longrightarrow> same_fds w w'"
  by (auto simp: panel_is_color_def split: option.splits prod.splits outcome.splits dest!: Info_fds)

lemma Register_fds: "mdns_Register E z p c fp v w = (r, z', w') \<Longrightarrow> same_fds w w'"
  by (auto simp: mdns_defs same_fds_def Let_def split: option.splits if_splits)

lemma start_mdns_fds: "start_mdns E s w = (s', w') \<Longrightarrow> same_fds w w'"
  by (auto simp: start_mdns_def split: if_splits prod.splits
      dest!: color_fds Register_fds intro: same_fds_trans)

lemma listen_fds: "net_Listen E a w = (r, w') \<Longrightarrow> same_fds w w'"
  by (auto simp: net_Listen_def same_fds_def Let_def split: sum.splits)

lemma NewDisplayService_quiet: "NewDisplayService E d v b w = (s, w') \<Longrightarrow> quiet w w'"
  by (auto simp: NewDisplayService_def split: prod.splits intro: time_quiet)

lemma sv_Start_fds:
  assumes "sv_Start E s w = (r, s', w')"
  shows "same_fds w w'"
proof -
  obtain svc w1 where n: "NewDisplayService E (cfg_Display (sv_cfg s)) (cfg_ServerVersion (sv_cfg s)) True w
    = (svc, w1)" by (metis surj_pair)
  obtain l w2 where l: "net_Listen E ('':'' @ show_int (cfg_Port (sv_cfg s))) w1 = (l, w2)" by (metis surj_pair)
  have q1: "same_fds w w1" by (rule quietD(1) [OF NewDisplayService_quiet [OF n]])
  have q2: "same_fds w w2" by (rule same_fds_trans [OF q1 listen_fds [OF l]])
  from assms n l q1 q2 show ?thesis
    by (auto simp: sv_Start_def Let_def split: if_splits option.splits outcome.splits sum.splits prod.splits
        dest!: start_mdns_fds intro: same_fds_trans)
qed

lemma sv_Stop_fds: "sv_Stop s w = (r, s', w') \<Longrightarrow> same_fds w w'"
  by (auto simp: sv_Stop_def grpc_Stop_def close_listener_def mdns_Unregister_def zeroconf_Shutdown_def
      same_fds_def Let_def split: if_splits option.splits)

end
