(* ===== verification/App.thy ===== *)
theory App
  imports Quiet "HOL-Library.Multiset"
begin

text \<open>
  \<open>einkapp/app.go\<close>, \<open>einkapp/app_android.go\<close> and \<open>einkapp/app_stub.go\<close>: the package the Android host
  calls.  Its variables are the record \<open>app\<close>; each exported function is modelled as one step, as a
  single caller sees it (\<open>App_Conc\<close> cuts those that release the mutex on the way).  The Android service and the log buffer are
  third-party: starting and stopping the former are calls of the environment, the contents of the
  latter are arguments.
\<close>

section \<open>State\<close>

record app =
  ap_inited :: bool
  ap_filesDir :: string
  ap_devPath :: string
  ap_display :: "dref option"
  ap_server :: "Server option"
  ap_asvc :: bool
  ap_logBuf :: bool
  ap_observer :: bool
  ap_fanout :: bool

definition initial_app :: app where
  "initial_app = \<lparr>ap_inited = False, ap_filesDir = [], ap_devPath = DefaultDevice,
     ap_display = None, ap_server = None, ap_asvc = False, ap_logBuf = False,
     ap_observer = False, ap_fanout = False\<rparr>"

definition ErrNotInit :: go_error where
  "ErrNotInit = ErrMsg ''einkapp: Init has not been called''"

definition app_version :: string where
  "app_version = ''0.1.0''"

text \<open>Bringing the foreground service up (\<open>True\<close>) or down.\<close>

definition asvc_set :: "env \<Rightarrow> bool \<Rightarrow> world \<Rightarrow> go_error option \<times> world" where
  "asvc_set E on w = (e_foreground E (hist w) on, log_ev (EvForeground on) w)"

section \<open>Operations\<close>

definition startObserverFanout :: "app \<Rightarrow> app" where
  "startObserverFanout a =
     (if \<not> ap_logBuf a then a else if ap_fanout a then a else a\<lparr>ap_fanout := True\<rparr>)"

definition doInit :: "string \<Rightarrow> app \<Rightarrow> unit outcome \<times> app" where
  "doInit dir a =
     (if ap_inited a then (Ok (), a)
      else if dir = [] then (Err (ErrMsg ''einkapp: filesDir is required''), a)
      else
        (let a1 = a\<lparr>ap_filesDir := dir, ap_asvc := True, ap_logBuf := True\<rparr>;
             a2 = startObserverFanout a1
         in (Ok (), a2\<lparr>ap_inited := True\<rparr>)))"

definition app_config :: "app \<Rightarrow> Config" where
  "app_config a =
     \<lparr>cfg_Display = ap_display a, cfg_FilesDir = ap_filesDir a, cfg_Port = DefaultPort,
      cfg_MaxRecvBytes = 0, cfg_ServerVersion = app_version, cfg_EnableMTLS = True,
      cfg_EnableMDNS = True\<rparr>"

text \<open>
  The last part of \<open>doStart\<close>: \<open>server = srv\<close>, then the foreground service; when that fails the
  server is stopped and forgotten.
\<close>

definition start_foreground :: "env \<Rightarrow> Server \<Rightarrow> app \<Rightarrow> world \<Rightarrow> unit outcome \<times> app \<times> world" where
  "start_foreground E srv a w =
     (let a1 = a\<lparr>ap_server := Some srv\<rparr>
      in case asvc_set E True w of
           (Some e, w1) \<Rightarrow> (Err e, a1\<lparr>ap_server := None\<rparr>, snd (snd (sv_Stop srv w1)))
         | (None, w1) \<Rightarrow> (Ok (), a1, w1))"

text \<open>An opened display is kept; without one the server starts all the same.\<close>

definition keep_display :: "dref outcome \<Rightarrow> app \<Rightarrow> app" where
  "keep_display d a = (case d of Ok d \<Rightarrow> a\<lparr>ap_display := Some d\<rparr> | _ \<Rightarrow> a)"

definition doStart ::
    "env \<Rightarrow> string list \<Rightarrow> string list \<Rightarrow> app \<Rightarrow> world \<Rightarrow> unit outcome \<times> app \<times> world" where
  "doStart E rorder worder a w =
     (if \<not> ap_inited a then (Err ErrNotInit, a, w)
      else if ap_server a \<noteq> None then (Ok (), a, w)
      else
     (case display_Open E (ap_devPath a) w of (d, w1) \<Rightarrow>
     (let a1 = keep_display d a
      in case sv_New E rorder worder (app_config a1) w1 of
        (Err e, w2) \<Rightarrow> (Err e, a1, w2)
      | (Panic p, w2) \<Rightarrow> (Panic p, a1, w2)
      | (Ok srv, w2) \<Rightarrow>
     (case sv_Start E srv w2 of
        (Err e, srv1, w3) \<Rightarrow> (Err e, a1, w3)
      | (Panic p, srv1, w3) \<Rightarrow> (Panic p, a1, w3)
      | (Ok _, srv1, w3) \<Rightarrow> start_foreground E srv1 a1 w3))))"

definition doStop :: "env \<Rightarrow> app \<Rightarrow> world \<Rightarrow> unit outcome \<times> app \<times> world" where
  "doStop E a w =
     (let srv = ap_server a; d = ap_display a; a1 = a\<lparr>ap_server := None, ap_display := None\<rparr>;
          w1 = (case srv of None \<Rightarrow> w | Some s \<Rightarrow> snd (snd (sv_Stop s w)));
          w2 = (if ap_asvc a1 then snd (asvc_set E False w1) else w1);
          w3 = (case d of None \<Rightarrow> w2 | Some d \<Rightarrow> snd (display_Close E d w2))
      in (Ok (), a1, w3))"

definition doIsRunning :: "app \<Rightarrow> bool" where
  "doIsRunning a = (case ap_server a of None \<Rightarrow> False | Some s \<Rightarrow> IsRunning s)"

definition from_server :: "'a \<Rightarrow> (Server \<Rightarrow> 'a) \<Rightarrow> app \<Rightarrow> 'a" where
  "from_server none f a = (case ap_server a of None \<Rightarrow> none | Some s \<Rightarrow> f s)"

definition doToken :: "app \<Rightarrow> string" where
  "doToken = from_server [] (\<lambda>s. cm_Token (sv_CertManager s))"
definition doAdminToken :: "app \<Rightarrow> string" where
  "doAdminToken = from_server [] (\<lambda>s. cm_AdminToken (sv_CertManager s))"
definition doFingerprint :: "env \<Rightarrow> app \<Rightarrow> string" where
  "doFingerprint E = from_server [] (\<lambda>s. cm_Fingerprint E (sv_CertManager s))"
definition doClientFingerprint :: "env \<Rightarrow> app \<Rightarrow> string" where
  "doClientFingerprint E = from_server [] (\<lambda>s. cm_ClientFingerprint E (sv_CertManager s))"
definition doPort :: "app \<Rightarrow> nat" where
  "doPort = from_server 0 ListeningPort"
definition doMdnsName :: "app \<Rightarrow> string" where
  "doMdnsName a = []"
definition doConnectURI :: "env \<Rightarrow> string \<Rightarrow> app \<Rightarrow> string" where
  "doConnectURI E host = from_server [] (\<lambda>s. ConnectURI E s host)"

definition doSetDevicePath :: "string \<Rightarrow> app \<Rightarrow> app" where
  "doSetDevicePath p a =
     (if p = [] then a\<lparr>ap_devPath := DefaultDevice\<rparr> else a\<lparr>ap_devPath := p\<rparr>)"
definition doDevicePath :: "app \<Rightarrow> string" where
  "doDevicePath a = ap_devPath a"

definition doRotate ::
    "env \<Rightarrow> string list \<Rightarrow> string list \<Rightarrow> app \<Rightarrow> world \<Rightarrow> unit outcome \<times> app \<times> world" where
  "doRotate E rorder worder a w =
     (case ap_server a of
        None \<Rightarrow> (Err (ErrMsg ''einkapp: server not running''), a, w)
      | Some srv \<Rightarrow>
     (case cm_Rotate E worder (sv_cm srv) w of
        (Err e, cm, w1) \<Rightarrow> (Err e, a\<lparr>ap_server := Some (srv\<lparr>sv_cm := cm\<rparr>)\<rparr>, w1)
      | (Panic p, cm, w1) \<Rightarrow> (Panic p, a\<lparr>ap_server := Some (srv\<lparr>sv_cm := cm\<rparr>)\<rparr>, w1)
      | (Ok _, cm, w1) \<Rightarrow>
     (case sv_Stop (srv\<lparr>sv_cm := cm\<rparr>) w1 of
        (r, srv1, w2) \<Rightarrow> doStart E rorder worder (a\<lparr>ap_server := None\<rparr>) w2)))"

text \<open>A log entry as the buffer gives it: milliseconds, level name and number, message.\<close>

record log_entry =
  le_millis :: int
  le_levelName :: string
  le_level :: int
  le_message :: string

definition log_line :: "log_entry \<Rightarrow> string" where
  "log_line e = show_int (le_millis e) @ '' '' @ le_levelName e @ '' '' @ le_message e @ [CHR 0x0A]"

definition doLogsSnapshot :: "(int \<Rightarrow> log_entry list) \<Rightarrow> int \<Rightarrow> app \<Rightarrow> string" where
  "doLogsSnapshot snapshot n a =
     (if \<not> ap_logBuf a then [] else concat (map log_line (snapshot n)))"

definition doRegisterLogObserver :: "bool \<Rightarrow> app \<Rightarrow> app" where
  "doRegisterLogObserver obs a = a\<lparr>ap_observer := obs\<rparr>"

text \<open>
  The fan-out goroutine: for each entry of the subscription, with the state of the package at that
  moment, the observer gets the milliseconds, the 32-bit level and the message.
\<close>

fun fanout_loop :: "(log_entry \<times> app) list \<Rightarrow> (int \<times> i32 \<times> string) list" where
  "fanout_loop [] = []"
| "fanout_loop ((e, a) # es) =
     (if ap_observer a
      then (le_millis e, of_int (le_level e), le_message e) # fanout_loop es
      else fanout_loop es)"

section \<open>Other systems\<close>

definition stub_doInit :: "string \<Rightarrow> unit outcome" where "stub_doInit dir = Err ErrNotInit"
definition stub_doStart :: "unit outcome" where "stub_doStart = Err ErrNotInit"
definition stub_doStop :: "unit outcome" where "stub_doStop = Ok ()"
definition stub_doIsRunning :: bool where "stub_doIsRunning = False"
definition stub_doToken :: string where "stub_doToken = []"
definition stub_doAdminToken :: string where "stub_doAdminToken = []"
definition stub_doFingerprint :: string where "stub_doFingerprint = []"
definition stub_doClientFingerprint :: string where "stub_doClientFingerprint = []"
definition stub_doPort :: nat where "stub_doPort = 0"
definition stub_doMdnsName :: string where "stub_doMdnsName = []"
definition stub_doConnectURI :: "string \<Rightarrow> string" where "stub_doConnectURI host = []"
definition stub_doSetDevicePath :: "string \<Rightarrow> 's \<Rightarrow> 's" where "stub_doSetDevicePath p s = s"
definition stub_doDevicePath :: string where "stub_doDevicePath = []"
definition stub_doRotate :: "unit outcome" where "stub_doRotate = Err ErrNotInit"
definition stub_doLogsSnapshot :: "int \<Rightarrow> string" where "stub_doLogsSnapshot n = []"
definition stub_doRegisterLogObserver :: "bool \<Rightarrow> 's \<Rightarrow> 's" where
  "stub_doRegisterLogObserver obs s = s"

lemmas stub_defs =
  stub_doInit_def stub_doStart_def stub_doStop_def stub_doIsRunning_def stub_doToken_def
  stub_doAdminToken_def stub_doFingerprint_def stub_doClientFingerprint_def stub_doPort_def
  stub_doMdnsName_def stub_doConnectURI_def stub_doSetDevicePath_def stub_doDevicePath_def
  stub_doRotate_def stub_doLogsSnapshot_def stub_doRegisterLogObserver_def

section \<open>Frame conditions\<close>

lemma asvc_quiet [keeps]: "asvc_set E on w = (r, w') \<Longrightarrow> quiet w w'"
  by (auto simp: asvc_set_def quiet_def same_fds_def same_net_def)

lemma Open_net: "display_Open E p w = (r, w') \<Longrightarrow> same_net w w'"
  by (auto simp: display_Open_def sys_open_def same_net_def Let_def split: sum.splits)

lemma Close_net: "display_Close E d w = (r, w') \<Longrightarrow> same_net w w'"
  by (auto simp: display_Close_def sys_close_def same_net_def Let_def split: if_splits option.splits)

section \<open>What the package keeps\<close>

text \<open>
  Over a base of listeners \<open>L\<close> and advertisements \<open>A\<close>: the package holds what its server holds, and
  the service is there as soon as \<open>Init\<close> has succeeded.
\<close>

definition app_inv :: "nat list \<Rightarrow> string list list \<Rightarrow> app \<times> world \<Rightarrow> bool" where
  "app_inv L A aw \<longleftrightarrow>
     (case aw of (a, w) \<Rightarrow>
        (case ap_server a of
           None \<Rightarrow> open_listeners (hist w) = L \<and> adverts (hist w) = A
         | Some s \<Rightarrow> server_inv L A (s, w) \<and> ap_inited a) \<and>
        (ap_inited a \<longrightarrow> ap_filesDir a \<noteq> [] \<and> ap_asvc a \<and> ap_logBuf a \<and> ap_fanout a))"

datatype app_op =
    AppInit string
  | AppStart "string list" "string list"
  | AppStop
  | AppRotate "string list" "string list"
  | AppSetDevice string
  | AppObserver bool
  | AppRotateCallback
  | AppRpc "string list" rpc

text \<open>
  A call of the package, the callback that a rotation RPC has scheduled on its server, or an RPC that
  arrives there.
\<close>

fun app_step :: "env \<Rightarrow> app_op \<Rightarrow> app \<times> world \<Rightarrow> app \<times> world" where
  "app_step E (AppInit dir) (a, w) = (snd (doInit dir a), w)"
| "app_step E (AppStart ro wo) (a, w) = snd (doStart E ro wo a w)"
| "app_step E AppStop (a, w) = snd (doStop E a w)"
| "app_step E (AppRotate ro wo) (a, w) = snd (doRotate E ro wo a w)"
| "app_step E (AppSetDevice p) (a, w) = (doSetDevicePath p a, w)"
| "app_step E (AppObserver obs) (a, w) = (doRegisterLogObserver obs a, w)"
| "app_step E AppRotateCallback (a, w) =
     (case ap_server a of
        None \<Rightarrow> (a, w)
      | Some s \<Rightarrow> (case rotate_callback s w of (s', w') \<Rightarrow> (a\<lparr>ap_server := Some s'\<rparr>, w')))"
| "app_step E (AppRpc order q) (a, w) =
     (case ap_server a of
        None \<Rightarrow> (a, w)
      | Some s \<Rightarrow>
          (case serve_arrival E (order, q) (s, w) of (s', w') \<Rightarrow> (a\<lparr>ap_server := Some s'\<rparr>, w')))"

lemma server_inv_net:
  "same_net w w' \<Longrightarrow> server_inv L A (s, w') = server_inv L A (s, w)"
  "server_inv L A (s\<lparr>sv_cm := cm\<rparr>, w) = server_inv L A (s, w)"
  by (simp_all add: server_inv_def same_net_def held_listener_def held_advert_def)

lemma stopped_net:
  "server_inv L A (s, w) \<Longrightarrow> sv_Stop s w = (r, s', w') \<Longrightarrow>
     open_listeners (hist w') = L \<and> adverts (hist w') = A"
  using Stop_inv [of L A s w r s' w'] by (auto simp: server_inv_def held_listener_def held_advert_def)

lemma new_server_inv:
  "sv_New E ro wo cfg w = (Ok s, w') \<Longrightarrow> open_listeners (hist w) = L \<Longrightarrow> adverts (hist w) = A \<Longrightarrow>
     server_inv L A (s, w')"
  using quietD(2) [OF sv_New_quiet, of E ro wo cfg w "Ok s" w']
  by (auto simp: sv_New_def server_inv_def held_listener_def held_advert_def same_net_def Let_def
      split: if_splits prod.splits outcome.splits)

lemma keep_display_sel [simp]:
  "ap_server (keep_display d a) = ap_server a" "ap_inited (keep_display d a) = ap_inited a"
  "ap_filesDir (keep_display d a) = ap_filesDir a" "ap_asvc (keep_display d a) = ap_asvc a"
  "ap_logBuf (keep_display d a) = ap_logBuf a" "ap_fanout (keep_display d a) = ap_fanout a"
  "ap_display (keep_display d a) = (case d of Ok x \<Rightarrow> Some x | _ \<Rightarrow> ap_display a)"
  by (simp_all add: keep_display_def split: outcome.split)

text \<open>\<open>doStart\<close> does nothing, fails without holding anything on the network, or starts a server.\<close>

lemma doStart_cases:
  assumes "doStart E ro wo a w = (r, a', w')"
  obtains (noop) "a' = a" "w' = w" "ap_inited a \<Longrightarrow> ap_server a \<noteq> None"
  | (fails) d w1 where "ap_inited a" "ap_server a = None" "display_Open E (ap_devPath a) w = (d, w1)"
      "a' = keep_display d a" "\<not> is_ok r" "same_net w w'" "same_fds w1 w'"
  | (starts) d w1 srv w2 srv1 w3 where "ap_inited a" "ap_server a = None"
      "display_Open E (ap_devPath a) w = (d, w1)"
      "sv_New E ro wo (app_config (keep_display d a)) w1 = (Ok srv, w2)"
      "sv_Start E srv w2 = (Ok (), srv1, w3)"
      "start_foreground E srv1 (keep_display d a) w3 = (r, a', w')"
      "same_net w w2" "same_fds w1 w3"
proof (cases "ap_inited a \<and> ap_server a = None")
  case False
  with assms noop show ?thesis by (auto simp: doStart_def split: if_splits)
next
  case True
  obtain d w1 where d: "display_Open E (ap_devPath a) w = (d, w1)" by (metis surj_pair)
  obtain n w2 where n: "sv_New E ro wo (app_config (keep_display d a)) w1 = (n, w2)" by (metis surj_pair)
  have q: "quiet w1 w2" by (rule sv_New_quiet [OF n])
  have net: "same_net w w2" using Open_net [OF d] quietD(2) [OF q] by (simp add: same_net_def)
  show ?thesis
  proof (cases "\<exists>srv. n = Ok srv")
    case False
    with assms True d n have "a' = keep_display d a" "\<not> is_ok r" "w' = w2"
      by (auto simp: doStart_def Let_def split: outcome.splits)
    with fails [OF _ _ d] True net quietD(1) [OF q] show ?thesis by simp
  next
    case srv: True
    then obtain srv where n': "n = Ok srv" by blast
    obtain q1 srv1 w3 where s: "sv_Start E srv w2 = (q1, srv1, w3)" by (metis prod_cases3)
    have fds: "same_fds w1 w3" by (rule same_fds_trans [OF quietD(1) [OF q] sv_Start_fds [OF s]])
    show ?thesis
    proof (cases "q1 = Ok ()")
      case ok: True
      with assms True d n n' s have "start_foreground E srv1 (keep_display d a) w3 = (r, a', w')"
        by (simp add: doStart_def Let_def)
      with starts [OF _ _ d] n n' s ok True net fds show ?thesis by blast
    next
      case False
      with assms True d n n' s have r: "a' = keep_display d a" "\<not> is_ok r" "w' = w3"
        by (auto simp: doStart_def Let_def split: outcome.splits)
      have "same_net w2 w3"
        using s False by (cases rule: Start_cases) (simp_all add: same_net_def)
      with fails [OF _ _ d] True net fds r show ?thesis by (simp add: same_net_def)
    qed
  qed
qed

lemma start_foreground_inv:
  assumes "start_foreground E srv a w = (r, a', w')" and "server_inv L A (srv, w)"
    and "ap_inited a" and "ap_filesDir a \<noteq> [] \<and> ap_asvc a \<and> ap_logBuf a \<and> ap_fanout a"
  shows "app_inv L A (a', w')"
proof -
  obtain e w1 where f: "asvc_set E True w = (e, w1)" by (metis surj_pair)
  from server_inv_net(1) [OF quietD(2) [OF asvc_quiet [OF f]]] assms(2)
  have inv: "server_inv L A (srv, w1)" by simp
  show ?thesis
  proof (cases e)
    case None
    with assms f inv show ?thesis by (auto simp: start_foreground_def app_inv_def Let_def)
  next
    case (Some x)
    obtain q s2 w2 where st: "sv_Stop srv w1 = (q, s2, w2)" by (metis prod_cases3)
    from stopped_net [OF inv st] assms f Some st show ?thesis
      by (auto simp: start_foreground_def app_inv_def Let_def)
  qed
qed

lemma doStart_inv:
  assumes "app_inv L A (a, w)" and "doStart E ro wo a w = (r, a', w')"
  shows "app_inv L A (a', w')"
  using assms(2)
proof (cases rule: doStart_cases)
  case noop
  with assms(1) show ?thesis by simp
next
  case (fails d w1)
  with assms(1) show ?thesis by (auto simp: app_inv_def same_net_def)
next
  case (starts d w1 srv w2 srv1 w3)
  have base: "open_listeners (hist w1) = L" "adverts (hist w1) = A"
    using assms(1) starts(2) Open_net [OF starts(3)] by (auto simp: app_inv_def same_net_def)
  have "server_inv L A (srv1, w3)"
    using Start_inv [OF new_server_inv [OF starts(4) base] starts(5)] by blast
  from start_foreground_inv [OF starts(6) this] assms(1) starts(1) show ?thesis
    by (auto simp: app_inv_def)
qed

text \<open>The three stages of \<open>doStop\<close>.\<close>

definition stop_server :: "Server option \<Rightarrow> world \<Rightarrow> world" where
  "stop_server srv w = (case srv of None \<Rightarrow> w | Some s \<Rightarrow> snd (snd (sv_Stop s w)))"

definition close_display :: "env \<Rightarrow> dref option \<Rightarrow> world \<Rightarrow> world" where
  "close_display E d w = (case d of None \<Rightarrow> w | Some d \<Rightarrow> snd (display_Close E d w))"

lemma doStop_eq:
  "doStop E a w =
     (let w1 = stop_server (ap_server a) w
      in (Ok (), a\<lparr>ap_server := None, ap_display := None\<rparr>,
          close_display E (ap_display a) (if ap_asvc a then snd (asvc_set E False w1) else w1)))"
  by (simp add: doStop_def stop_server_def close_display_def Let_def)

lemma doStop_stages:
  "\<exists>w2. quiet (stop_server (ap_server a) w) w2 \<and>
     doStop E a w = (Ok (), a\<lparr>ap_server := None, ap_display := None\<rparr>, close_display E (ap_display a) w2)"
proof (cases "ap_asvc a")
  case True
  have "quiet (stop_server (ap_server a) w) (snd (asvc_set E False (stop_server (ap_server a) w)))"
    by (rule asvc_quiet [OF surjective_pairing])
  with True show ?thesis by (auto simp: doStop_eq Let_def)
next
  case False
  then show ?thesis
    by (intro exI [of _ "stop_server (ap_server a) w"]) (simp add: doStop_eq Let_def)
qed

lemma close_display_net: "same_net w (close_display E d w)"
  using Close_net [of E _ w] by (auto simp: close_display_def split: option.split) (metis surj_pair snd_conv)

lemma stop_server_fds: "same_fds w (stop_server s w)"
  using sv_Stop_fds [of _ w] by (auto simp: stop_server_def split: option.split) (metis prod_cases3 snd_conv)

lemma stop_server_net:
  "app_inv L A (a, w) \<Longrightarrow>
     open_listeners (hist (stop_server (ap_server a) w)) = L \<and> adverts (hist (stop_server (ap_server a) w)) = A"
  using stopped_net [of L A "the (ap_server a)" w]
  by (cases "ap_server a") (auto simp: app_inv_def stop_server_def, (metis prod_cases3 snd_conv)+)

lemma doStop_net:
  assumes "app_inv L A (a, w)" and "doStop E a w = (r, a', w')"
  shows "open_listeners (hist w') = L \<and> adverts (hist w') = A \<and>
    a' = a\<lparr>ap_server := None, ap_display := None\<rparr>"
proof -
  from doStop_stages [of a w E] assms(2) obtain w2 where
    w: "quiet (stop_server (ap_server a) w) w2" "w' = close_display E (ap_display a) w2"
       "a' = a\<lparr>ap_server := None, ap_display := None\<rparr>" by auto
  from stop_server_net [OF assms(1)] quietD(2) [OF w(1)] close_display_net [of w2 E "ap_display a"] w(2,3)
  show ?thesis by (simp add: same_net_def)
qed

lemma doStop_inv:
  "app_inv L A (a, w) \<Longrightarrow> doStop E a w = (r, a', w') \<Longrightarrow> app_inv L A (a', w')"
  using doStop_net [of L A a w E r a' w'] by (auto simp: app_inv_def)

text \<open>\<open>doRotate\<close> with a server: rotate, stop, and start again, or fail at the rotation.\<close>

lemma doRotate_cases:
  assumes "doRotate E ro wo a w = (r, a', w')"
  obtains (stopped) "ap_server a = None" "a' = a" "w' = w" "\<not> is_ok r"
  | (fails) s cm where "ap_server a = Some s" "a' = a\<lparr>ap_server := Some (s\<lparr>sv_cm := cm\<rparr>)\<rparr>"
      "quiet w w'" "\<not> is_ok r"
  | (restarts) s cm w1 w2 where "ap_server a = Some s" "quiet w w1"
      "w2 = stop_server (Some (s\<lparr>sv_cm := cm\<rparr>)) w1"
      "doStart E ro wo (a\<lparr>ap_server := None\<rparr>) w2 = (r, a', w')"
proof (cases "ap_server a")
  case None
  show ?thesis by (rule stopped) (use None assms in \<open>auto simp: doRotate_def\<close>)
next
  case (Some s)
  obtain q cm w1 where c: "cm_Rotate E wo (sv_cm s) w = (q, cm, w1)" by (metis prod_cases3)
  have quiet: "quiet w w1" using c by (auto simp: cm_Rotate_def intro: regenerate_quiet)
  show ?thesis
  proof (cases q)
    case (Ok u)
    obtain q2 s2 w2 where st: "sv_Stop (s\<lparr>sv_cm := cm\<rparr>) w1 = (q2, s2, w2)" by (metis prod_cases3)
    with assms Some c Ok have "doStart E ro wo (a\<lparr>ap_server := None\<rparr>) w2 = (r, a', w')"
      by (simp add: doRotate_def)
    with restarts [OF Some quiet, of w2 cm] st show ?thesis by (simp add: stop_server_def)
  qed (use assms Some c quiet fails in \<open>auto simp: doRotate_def\<close>)
qed

lemma doRotate_inv:
  assumes "app_inv L A (a, w)" and "doRotate E ro wo a w = (r, a', w')"
  shows "app_inv L A (a', w')"
  using assms(2)
proof (cases rule: doRotate_cases)
  case stopped
  with assms(1) show ?thesis by simp
next
  case (fails s cm)
  with assms(1) server_inv_net(1) [OF quietD(2) [OF fails(3)], of L A s] show ?thesis
    by (auto simp: app_inv_def server_inv_net(2))
next
  case (restarts s cm w1 w2)
  have "app_inv L A (a\<lparr>ap_server := Some (s\<lparr>sv_cm := cm\<rparr>)\<rparr>, w1)"
    using assms(1) restarts(1) server_inv_net(1) [OF quietD(2) [OF restarts(2)], of L A s]
    by (auto simp: app_inv_def server_inv_net(2))
  from stop_server_net [OF this] restarts(3) assms(1)
  have "app_inv L A (a\<lparr>ap_server := None\<rparr>, w2)" by (auto simp: app_inv_def)
  from doStart_inv [OF this restarts(4)] show ?thesis .
qed

lemma doInit_inv: "app_inv L A (a, w) \<Longrightarrow> app_inv L A (snd (doInit dir a), w)"
  by (auto simp: app_inv_def doInit_def startObserverFanout_def Let_def split: option.splits)

interpretation app_ops: op_system "app_step E" "app_inv L A" for E L A
proof unfold_locales
  fix aw op assume inv: "app_inv L A aw"
  obtain a w where aw: "aw = (a, w)" by (metis surj_pair)
  note inv = inv [unfolded aw]
  show "app_inv L A (app_step E op aw)"
  proof (cases op)
    case (AppInit dir)
    with aw doInit_inv [OF inv] show ?thesis by simp
  next
    case (AppStart ro wo)
    obtain r a' w' where e: "doStart E ro wo a w = (r, a', w')" by (metis prod_cases3)
    from doStart_inv [OF inv e] e AppStart aw show ?thesis by simp
  next
    case AppStop
    obtain r a' w' where e: "doStop E a w = (r, a', w')" by (metis prod_cases3)
    from doStop_inv [OF inv e] e AppStop aw show ?thesis by simp
  next
    case (AppRotate ro wo)
    obtain r a' w' where e: "doRotate E ro wo a w = (r, a', w')" by (metis prod_cases3)
    from doRotate_inv [OF inv e] e AppRotate aw show ?thesis by simp
  next
    case (AppSetDevice p)
    with inv aw show ?thesis by (auto simp: app_inv_def doSetDevicePath_def split: option.splits)
  next
    case (AppObserver obs)
    with inv aw show ?thesis by (auto simp: app_inv_def doRegisterLogObserver_def split: option.splits)
  next
    case AppRotateCallback
    with inv aw callback_inv [of L A "the (ap_server a)" w] show ?thesis
      by (auto simp: app_inv_def split: option.splits prod.splits)
  next
    case (AppRpc order q)
    with inv aw arrival_inv [of L A "the (ap_server a)" w E "(order, q)"] show ?thesis
      by (auto simp: app_inv_def split: option.splits prod.splits)
  qed
qed

section \<open>Descriptors\<close>

lemma Open_fds:
  assumes "display_Open E p w = (r, w')"
  shows "case r of
      Ok d \<Rightarrow> d = ndisp w \<and> ndisp w' = Suc d \<and> open_fds (hist w') = fd_of w' d # open_fds (hist w) \<and>
        (\<forall>x \<noteq> d. fd_of w' x = fd_of w x) \<and> (\<exists>h. e_open E h p = Inr (fd_of w' d))
    | _ \<Rightarrow> same_fds w w'"
  using assms by (auto simp: display_Open_def sys_open_def same_fds_def Let_def split: sum.splits)

lemma close_display_fds:
  "open_fds (hist (close_display E d w)) =
     (case d of None \<Rightarrow> open_fds (hist w)
      | Some x \<Rightarrow> (if fd_of w x < 0 then open_fds (hist w) else remove1 (fd_of w x) (open_fds (hist w))))"
  by (auto simp: close_display_def display_Close_def sys_close_def Let_def split: option.splits)

lemma start_foreground_fds:
  assumes "start_foreground E srv a w = (r, a', w')"
  shows "same_fds w w' \<and> ap_display a' = ap_display a"
proof -
  obtain e w1 where f: "asvc_set E True w = (e, w1)" by (metis surj_pair)
  obtain q s2 w2 where st: "sv_Stop srv w1 = (q, s2, w2)" by (metis prod_cases3)
  from quietD(1) [OF asvc_quiet [OF f]] sv_Stop_fds [OF st] assms f st show ?thesis
    by (auto simp: start_foreground_def Let_def split: option.splits intro: same_fds_trans)
qed

text \<open>A start that does anything opens the device first, whatever happens after that.\<close>

lemma doStart_fds:
  assumes "doStart E ro wo a w = (r, a', w')"
  obtains (noop) "a' = a" "w' = w"
  | (opens) d w1 where "display_Open E (ap_devPath a) w = (d, w1)" "same_fds w1 w'"
      "ap_display a' = ap_display (keep_display d a)"
  using assms
proof (cases rule: doStart_cases)
  case noop
  with that show ?thesis by blast
next
  case (fails d w1)
  with that show ?thesis by blast
next
  case (starts d w1 srv w2 srv1 w3)
  with start_foreground_fds [OF starts(6)] that show ?thesis by (metis same_fds_trans)
qed

lemma doStop_fds:
  assumes "doStop E a w = (r, a', w')"
  shows "\<exists>v. same_fds w v \<and> open_fds (hist w') = open_fds (hist (close_display E (ap_display a) v)) \<and>
    ap_display a' = None"
proof -
  from doStop_stages [of a w E] assms obtain w2 where
    w: "quiet (stop_server (ap_server a) w) w2" "w' = close_display E (ap_display a) w2"
       "a' = a\<lparr>ap_server := None, ap_display := None\<rparr>" by auto
  from same_fds_trans [OF stop_server_fds quietD(1) [OF w(1)]] w(2,3) show ?thesis by auto
qed

text \<open>An opened descriptor is not negative, as \<open>open(2)\<close> documents.\<close>

definition open_nonneg :: "env \<Rightarrow> bool" where
  "open_nonneg E \<longleftrightarrow> (\<forall>h p fd. e_open E h p = Inr fd \<longrightarrow> 0 \<le> fd)"

section \<open>Properties\<close>

lemma initial_app_inv: "app_inv (open_listeners (hist w)) (adverts (hist w)) (initial_app, w)"
  by (simp add: app_inv_def initial_app_def)

text \<open>
  C16. \<open>Stop\<close> of the package cleans up the network.  After any sequence of the exported calls, of RPCs
  that reach its server and of rotation callbacks, whatever failed in between, \<open>Stop\<close> succeeds, the package is not running and
  holds no display, and exactly the listeners and advertisements from before are there.
\<close>

theorem app_stop_cleans_up:
  assumes "(a, w) = fold (app_step E) ops (initial_app, w0)" and "(r, a', w') = doStop E a w"
  shows "r = Ok () \<and> \<not> doIsRunning a' \<and> ap_display a' = None \<and>
    open_listeners (hist w') = open_listeners (hist w0) \<and> adverts (hist w') = adverts (hist w0)"
proof -
  have inv: "app_inv (open_listeners (hist w0)) (adverts (hist w0)) (a, w)"
    using app_ops.run_inv [OF initial_app_inv [of w0], of E ops] assms(1) by simp
  from doStop_net [OF inv assms(2) [symmetric]] assms(2) show ?thesis
    by (simp add: doIsRunning_def doStop_eq Let_def)
qed

text \<open>
  A session of the package returns its descriptor.  Starting without a display or server and
  stopping again, whether the start succeeded, failed after opening the device or found no device,
  leaves the open descriptors of the process as they were.
\<close>

lemma start_stop_returns_descriptor:
  assumes "ap_display a = None" and "open_nonneg E"
    and "(r, a1, w1) = doStart E ro wo a w" and "(r', a2, w2) = doStop E a1 w1"
  shows "open_fds (hist w2) = open_fds (hist w)"
proof -
  obtain v where v: "same_fds w1 v" "open_fds (hist w2) = open_fds (hist (close_display E (ap_display a1) v))"
    using doStop_fds [OF assms(4) [symmetric]] by blast
  show ?thesis
    using assms(3) [symmetric]
  proof (cases rule: doStart_fds)
    case noop
    with assms(1) v show ?thesis by (simp add: close_display_def same_fds_def)
  next
    case (opens d w3)
    from Open_fds [OF opens(1)] opens(2,3) v assms(1,2) show ?thesis
      by (auto simp: close_display_fds same_fds_def open_nonneg_def split: outcome.splits)
        (metis linorder_not_le)+
  qed
qed

text \<open>
  C29. \<open>RotateNow\<close> loses the display.  When the restart at its end opens the device again, the descriptor
  of the display that was in use stays open for good: no variable of the package refers to it any
  more, and after a final \<open>Stop\<close> every descriptor that was open before the rotation is still open.
\<close>

theorem rotation_loses_display:
  assumes "ap_display a = Some d" and "d < ndisp w"
    and "(r, a1, w1) = doRotate E ro wo a w" and "ap_display a1 \<noteq> Some d"
    and "(r', a2, w2) = doStop E a1 w1"
  shows "fd_of w1 d = fd_of w d \<and> ap_display a2 = None \<and>
    mset (open_fds (hist w)) \<subseteq># mset (open_fds (hist w2))"
proof -
  obtain v where v: "same_fds w1 v" "open_fds (hist w2) = open_fds (hist (close_display E (ap_display a1) v))"
      "ap_display a2 = None"
    using doStop_fds [OF assms(5) [symmetric]] by blast
  show ?thesis
    using assms(3) [symmetric]
  proof (cases rule: doRotate_cases)
    case (restarts s cm w3 w4)
    have same: "same_fds w w4"
      unfolding restarts(3) by (rule same_fds_trans [OF quietD(1) [OF restarts(2)] stop_server_fds])
    from restarts(4) show ?thesis
    proof (cases rule: doStart_fds)
      case noop
      with assms(1,4) show ?thesis by simp
    next
      case (opens x w5)
      from Open_fds [OF opens(1)] opens(2,3) v same assms(1,2,4) show ?thesis
        by (auto simp: close_display_fds same_fds_def split: outcome.splits)
    qed
  qed (use assms(1,4) in auto)
qed

lemma Stop_closes:
  "sv_running s \<Longrightarrow> sv_srv s = Some g \<Longrightarrow> gs_lis g = Some l \<Longrightarrow> sv_Stop s w = (r, s', w') \<Longrightarrow>
     open_listeners (hist w') = remove1 l (open_listeners (hist w)) \<and> \<not> sv_running s'"
  by (auto simp: sv_Stop_def grpc_Stop_def close_listener_def mdns_Unregister_def
      zeroconf_Shutdown_def Let_def split: option.splits)

lemma callback_closes:
  assumes "sv_running s" and "sv_srv s = Some g" and "gs_lis g = Some l"
    and "rotate_callback s w = (s', w')"
  shows "open_listeners (hist w') = remove1 l (open_listeners (hist w)) \<and> \<not> sv_running s'"
proof -
  let ?s1 = "if sv_rotateReq s < 1 then s\<lparr>sv_rotateReq := Suc (sv_rotateReq s)\<rparr> else s"
  obtain r where "sv_Stop ?s1 w = (r, s', w')"
    using assms(4) unfolding rotate_callback_def Let_def by (metis prod.collapse)
  moreover have "sv_running ?s1" "sv_srv ?s1 = Some g" using assms(1,2) by simp_all
  ultimately show ?thesis using Stop_closes assms(3) by blast
qed

text \<open>
  C27. The RPC \<open>Rotate\<close> stops the server for good.  When it succeeds on a running server it schedules
  exactly the callback, which closes the server's listener; after that the package is not running,
  yet \<open>Start\<close> reports success without doing anything, for the stopped server is still registered.
\<close>

theorem rotate_rpc_stops_for_good:
  assumes "ap_inited a" and "sv_srv s = Some g" and "sv_running s" and "gs_lis g = Some l"
    and "ds_rotateRequest (gs_service g)"
    and "(Some (Ok resp), s1, tasks, w1) = serve_rpc (ds_Rotate E order) s w"
    and "(s2, w2) = rotate_callback s1 w1"
  shows "tasks = [CallRotateRequest] \<and>
    open_listeners (hist w2) = remove1 l (open_listeners (hist w)) \<and>
    \<not> doIsRunning (a\<lparr>ap_server := Some s2\<rparr>) \<and>
    doStart E ro wo (a\<lparr>ap_server := Some s2\<rparr>) v = (Ok (), a\<lparr>ap_server := Some s2\<rparr>, v)"
proof -
  obtain q cm w3 where c: "cm_Rotate E order (sv_cm s) w = (q, cm, w3)" by (metis prod_cases3)
  obtain t w4 where t: "time_now E w3 = (t, w4)" by (metis surj_pair)
  have q: "quiet w w4"
    using c by (intro quiet_trans [OF regenerate_quiet time_quiet [OF t]]) (simp add: cm_Rotate_def)
  have "q = Ok ()" and s1: "tasks = [CallRotateRequest]" "w1 = w4"
    "s1 = s\<lparr>sv_cm := cm, sv_srv := Some g\<rparr>"
    using assms(2,5,6) c t
    by (auto simp: serve_rpc_def rpc_state_def ds_Rotate_def spawn_def Let_def split: outcome.splits)
  have "open_listeners (hist w2) = remove1 l (open_listeners (hist w1)) \<and> \<not> sv_running s2"
    using assms(3,4) s1(3) assms(7) [symmetric]
    by (intro callback_closes) simp_all
  moreover have "open_listeners (hist w1) = open_listeners (hist w)"
    using q s1(2) by (simp add: quiet_def same_net_def)
  ultimately show ?thesis
    using assms(1) s1(1) by (simp add: doIsRunning_def IsRunning_def doStart_def)
qed

section \<open>Starting succeeds\<close>

text \<open>
  An environment in which nothing that the server depends on fails.  The device and the
  advertisement are not among them: a server starts without either.
\<close>

definition hospitable :: "env \<Rightarrow> bool" where
  "hospitable E \<longleftrightarrow> obliging E \<and>
     (\<forall>h p. e_mkdir E h p = None) \<and> (\<forall>c k. e_key_pair E c k = None) \<and> (\<forall>c. e_append_certs E c) \<and>
     (\<forall>h a. \<exists>l p. e_listen E h a = Inr (l, p)) \<and> (\<forall>h on. e_foreground E h on = None)"

lemma hospitable_obliging: "hospitable E \<Longrightarrow> obliging E"
  by (simp add: hospitable_def)

lemma load_succeeds:
  assumes "obliging E"
  shows "\<exists>cm' w'. loadOrInit E ro wo cm w = (Ok (), cm', w')"
proof -
  have reg: "\<exists>cm' w'. regenerateLocked E wo c v = (Ok (), cm', w')" for c v
    using rotate_obliging [OF assms, of wo c v] by (simp add: cm_Rotate_def)
  obtain m cm1 w1 where l: "read_loop E ro cm w = (m, cm1, w1)" by (metis prod_cases3)
  show ?thesis
  proof (cases m)
    case True
    with l reg [of cm1 w1] show ?thesis by (simp add: loadOrInit_def)
  next
    case False
    obtain rt w2 where t: "os_ReadFile E (cm_tlsDir cm1 @ [''token.txt'']) w1 = (rt, w2)" by (metis surj_pair)
    let ?cm2 = "case rt of Inr b \<Rightarrow> cm1\<lparr>token := trim_space b\<rparr> | Inl e \<Rightarrow> cm1"
    obtain ra w3 where a: "os_ReadFile E (cm_tlsDir ?cm2 @ [''admin-token.txt'']) w2 = (ra, w3)"
      by (metis surj_pair)
    from False l t a reg show ?thesis by (simp add: loadOrInit_def Let_def)
  qed
qed

lemma New_succeeds:
  assumes "hospitable E" and "cfg_FilesDir cfg \<noteq> []"
  shows "\<exists>srv w'. sv_New E ro wo cfg w = (Ok srv, w') \<and> \<not> sv_running srv"
proof -
  let ?dir = "cfg_FilesDir (with_defaults cfg)"
  let ?cm = "empty_CertManager ?dir"
  have m: "os_MkdirAll E (cm_tlsDir ?cm) w = (None, log_ev (EvMkdir (cm_tlsDir ?cm)) w)"
    using assms(1) by (simp add: os_MkdirAll_def hospitable_def)
  obtain cm' w' where "loadOrInit E ro wo ?cm (log_ev (EvMkdir (cm_tlsDir ?cm)) w) = (Ok (), cm', w')"
    using load_succeeds [OF hospitable_obliging [OF assms(1)]] by blast
  with m have "NewCertManager E ro wo ?dir w = (Ok cm', w')" by (simp add: NewCertManager_def Let_def)
  with assms(2) show ?thesis by (simp add: sv_New_def Let_def)
qed

lemma sv_Start_succeeds:
  assumes "hospitable E" and "\<not> sv_running s"
  shows "\<exists>s' w'. sv_Start E s w = (Ok (), s', w')"
proof -
  have k: "e_key_pair E c k' = None" for c k' using assms(1) by (simp add: hospitable_def)
  obtain pool where p: "client_pool E s = Ok pool"
    using assms(1) by (cases "cfg_EnableMTLS (sv_cfg s)") (auto simp: client_pool_def ClientCAPool_def hospitable_def)
  obtain svc w1 where n: "NewDisplayService E (cfg_Display (sv_cfg s))
      (cfg_ServerVersion (sv_cfg s)) True w = (svc, w1)" by (metis surj_pair)
  obtain l t where "e_listen E (hist w1) ('':'' @ show_int (cfg_Port (sv_cfg s))) = Inr (l, t)"
    using assms(1) unfolding hospitable_def by blast
  then obtain w2 where l: "net_Listen E ('':'' @ show_int (cfg_Port (sv_cfg s))) w1 = (Inr (l, t), w2)"
    by (simp add: net_Listen_def Let_def)
  obtain q s' w' where s: "sv_Start E s w = (q, s', w')" by (metis prod_cases3)
  with k p n l assms(2) show ?thesis by (auto simp: sv_Start_def Let_def split: prod.splits)
qed

lemma start_works:
  assumes "hospitable E" and "ap_inited a" and "ap_filesDir a \<noteq> []" and "ap_server a = None"
  shows "\<exists>a' w'. doStart E ro wo a w = (Ok (), a', w') \<and> doIsRunning a' \<and>
    ap_display a' = ap_display (keep_display (fst (display_Open E (ap_devPath a) w)) a)"
proof -
  obtain d w1 where d: "display_Open E (ap_devPath a) w = (d, w1)" by (metis surj_pair)
  have "cfg_FilesDir (app_config (keep_display d a)) \<noteq> []" using assms(3) by (simp add: app_config_def)
  from New_succeeds [OF assms(1) this] obtain srv w2 where
    n: "sv_New E ro wo (app_config (keep_display d a)) w1 = (Ok srv, w2)" "\<not> sv_running srv" by blast
  obtain srv1 w3 where s: "sv_Start E srv w2 = (Ok (), srv1, w3)"
    using sv_Start_succeeds [OF assms(1) n(2)] by blast
  have run: "sv_running srv1"
    using s
  proof (cases rule: Start_cases)
    case (starts g s2 w2' l s3)
    then show ?thesis using start_mdns_quiet [OF starts(5)] by auto
  qed simp
  have "e_foreground E (hist w3) True = None" using assms(1) by (simp add: hospitable_def)
  then have "start_foreground E srv1 (keep_display d a) w3 =
      (Ok (), (keep_display d a)\<lparr>ap_server := Some srv1\<rparr>, log_ev (EvForeground True) w3)"
    by (simp add: start_foreground_def asvc_set_def Let_def)
  with assms(2,4) d n s run show ?thesis
    by (simp add: doStart_def doIsRunning_def IsRunning_def Let_def)
qed

lemma rotate_works:
  assumes "hospitable E" and "ap_inited a" and "ap_filesDir a \<noteq> []" and "ap_server a = Some s"
  shows "\<exists>a' w' v. doRotate E ro wo a w = (Ok (), a', w') \<and> doIsRunning a' \<and> same_fds w v \<and>
    ap_display a' = ap_display (keep_display (fst (display_Open E (ap_devPath a) v)) a)"
proof -
  obtain cm w1 where c: "cm_Rotate E wo (sv_cm s) w = (Ok (), cm, w1)"
    using rotate_obliging [OF hospitable_obliging [OF assms(1)]] by blast
  obtain q s2 w2 where st: "sv_Stop (s\<lparr>sv_cm := cm\<rparr>) w1 = (q, s2, w2)" by (metis prod_cases3)
  have "quiet w w1" using c by (intro regenerate_quiet) (simp add: cm_Rotate_def)
  then have "same_fds w w2" using sv_Stop_fds [OF st] quietD(1) same_fds_trans by blast
  with start_works [OF assms(1), of "a\<lparr>ap_server := None\<rparr>" ro wo w2] assms(2-4) c st
  show ?thesis by (fastforce simp: doRotate_def keep_display_def split: outcome.splits)
qed


section \<open>Concrete runs\<close>

definition easy_env :: env where
  "easy_env = demo_env\<lparr>e_append_certs := (\<lambda>_. True)\<rparr>"

lemma easy_hospitable: "hospitable easy_env"
  by (simp add: hospitable_def obliging_def crypto_ok_def easy_env_def demo_env_def)

lemma easy_open: "open_nonneg easy_env"
  by (simp add: open_nonneg_def easy_env_def demo_env_def)

definition ready_app :: app where
  "ready_app = snd (doInit ''f'' initial_app)"

lemma ready_app_sel [simp]:
  "ap_inited ready_app" "ap_filesDir ready_app = ''f''" "ap_server ready_app = None"
  "ap_display ready_app = None"
  by (simp_all add: ready_app_def doInit_def initial_app_def startObserverFanout_def Let_def)

lemma easy_display: "fst (display_Open easy_env p w) = Ok (ndisp w)"
  by (simp add: display_Open_def sys_open_def easy_env_def demo_env_def Let_def)

lemma easy_start:
  "\<exists>a' w'. doStart easy_env pem_names all_names ready_app empty_world = (Ok (), a', w') \<and>
     ap_display a' = Some 0 \<and> ndisp w' = 1 \<and> open_fds (hist w') = [3] \<and> ap_inited a' \<and>
     ap_filesDir a' = ''f'' \<and> (\<exists>s. ap_server a' = Some s)"
proof -
  obtain a' w' where st: "doStart easy_env pem_names all_names ready_app empty_world = (Ok (), a', w')"
      "doIsRunning a'" "ap_display a' = Some 0"
    using start_works [OF easy_hospitable, of ready_app pem_names all_names empty_world]
    by (auto simp: easy_display empty_world_def)
  from st(1) show ?thesis
  proof (cases rule: doStart_cases)
    case (starts d w1 srv w2 srv1 w3)
    have "ndisp w1 = 1" "open_fds (hist w1) = [3]"
      using starts(3) by (auto simp: display_Open_def sys_open_def easy_env_def demo_env_def empty_world_def Let_def)
    moreover have "same_fds w1 w'" using starts(8) start_foreground_fds [OF starts(6)] same_fds_trans by blast
    moreover have "ap_inited a' \<and> ap_filesDir a' = ''f''"
      using starts(6) by (auto simp: start_foreground_def Let_def split: prod.splits option.splits)
    ultimately show ?thesis
      using st by (auto simp: same_fds_def doIsRunning_def split: option.splits)
  qed (use st in auto)
qed


lemma app_stop_cleans_up_witness:
  "\<exists>a w a' w' r.
     (a, w) = fold (app_step demo_env) [AppInit ''f'', AppStart pem_names all_names, AppRotateCallback]
       (initial_app, empty_world) \<and>
     (r, a', w') = doStop demo_env a w \<and> open_listeners (hist w') = []"
proof -
  obtain a w where f: "(a, w) = fold (app_step demo_env)
      [AppInit ''f'', AppStart pem_names all_names, AppRotateCallback] (initial_app, empty_world)"
    by (metis surj_pair)
  obtain r a' w' where s: "(r, a', w') = doStop demo_env a w" by (metis prod_cases3)
  have "open_listeners (hist empty_world) = []" by (simp add: empty_world_def)
  with app_stop_cleans_up [OF f s] f s show ?thesis by metis
qed

lemma start_stop_returns_descriptor_example:
  "\<exists>a1 w1 a2 w2. doStart easy_env pem_names all_names ready_app empty_world = (Ok (), a1, w1) \<and>
     open_fds (hist w1) = [3] \<and> doStop easy_env a1 w1 = (Ok (), a2, w2) \<and> open_fds (hist w2) = []"
proof -
  obtain a1 w1 where s: "doStart easy_env pem_names all_names ready_app empty_world = (Ok (), a1, w1)"
      "open_fds (hist w1) = [3]" using easy_start by blast
  obtain a2 w2 where t: "doStop easy_env a1 w1 = (Ok (), a2, w2)" using doStop_stages by blast
  from start_stop_returns_descriptor [OF ready_app_sel(4) easy_open s(1) [symmetric] t [symmetric]]
  have "open_fds (hist w2) = []" by (simp add: empty_world_def)
  with s t show ?thesis by blast
qed

lemma rotation_loses_display_witness:
  "\<exists>a w a1 w1 a2 w2. open_fds (hist w) = [3] \<and> doIsRunning a1 \<and>
     doRotate easy_env pem_names all_names a w = (Ok (), a1, w1) \<and>
     doStop easy_env a1 w1 = (Ok (), a2, w2) \<and> 3 \<in> set (open_fds (hist w2)) \<and> ap_display a2 = None"
proof -
  obtain a :: app and w :: world and s where a: "ap_display a = Some 0" "ndisp w = 1" "open_fds (hist w) = [3]" "ap_inited a"
      "ap_filesDir a = ''f''" "ap_server a = Some s" using easy_start by blast
  obtain a1 w1 v where r: "doRotate easy_env pem_names all_names a w = (Ok (), a1, w1)" "doIsRunning a1"
      "same_fds w v" "ap_display a1 = Some (ndisp v)"
    using rotate_works [OF easy_hospitable a(4) _ a(6), of pem_names all_names w] a(5)
    by (auto simp: easy_display)
  have n: "ap_display a1 \<noteq> Some 0" using r(3,4) a(2) by (simp add: same_fds_def)
  obtain a2 w2 where t: "doStop easy_env a1 w1 = (Ok (), a2, w2)" using doStop_stages by blast
  have "0 < ndisp w" by (simp add: a(2))
  from rotation_loses_display [OF a(1) this r(1) [symmetric] n t [symmetric]] a(3)
  have "ap_display a2 = None" "3 \<in> set (open_fds (hist w2))" by auto
  with a(3) r t show ?thesis by blast
qed

lemma rotate_rpc_stops_for_good_witness:
  "\<exists>g s s1 s2 w1 w2 resp. sv_srv s = Some g \<and>
     serve_rpc (ds_Rotate demo_env all_names) s empty_world = (Some (Ok resp), s1, [CallRotateRequest], w1) \<and>
     rotate_callback s1 w1 = (s2, w2) \<and> \<not> doIsRunning (ready_app\<lparr>ap_server := Some s2\<rparr>)"
proof -
  let ?g = "\<lparr>gs_cert = ([], []), gs_minVersion = VersionTLS12, gs_clientCAs = None, gs_maxRecv = 0,
    gs_service = st_svc demo_svc, gs_lis = Some 7\<rparr>"
  let ?s = "demo_server\<lparr>sv_srv := Some ?g, sv_running := True\<rparr>"
  obtain cm w1 where c: "cm_Rotate demo_env all_names demo_cm empty_world = (Ok (), cm, w1)"
    using rotate_obliging [OF demo_obliging] by blast
  obtain t w2 where t: "time_now demo_env w1 = (t, w2)" by (metis surj_pair)
  have d: "ds_rotateRequest (gs_service ?g)" "sv_cm ?s = demo_cm"
    by (simp_all add: demo_svc_def demo_server_def)
  obtain resp s1 tasks w3 where r:
    "serve_rpc (ds_Rotate demo_env all_names) ?s empty_world = (Some (Ok resp), s1, tasks, w3)"
    using c t d by (auto simp: serve_rpc_def rpc_state_def ds_Rotate_def spawn_def Let_def)
  obtain s2 w4 where k: "rotate_callback s1 w3 = (s2, w4)" by (metis surj_pair)
  have g: "sv_srv ?s = Some ?g" "sv_running ?s" "gs_lis ?g = Some 7" by simp_all
  from rotate_rpc_stops_for_good [OF ready_app_sel(1) g d(1) r [symmetric] k [symmetric]]
  have e: "tasks = [CallRotateRequest]" "\<not> doIsRunning (ready_app\<lparr>ap_server := Some s2\<rparr>)" by simp_all
  show ?thesis
    by (rule exI [of _ ?g], rule exI [of _ ?s], intro exI conjI, rule g(1), rule r [unfolded e(1)], rule k, rule e(2))
qed

end
