(* ===== verification/Reissue.thy ===== *)
theory Reissue
  imports App
begin

text \<open>
  What \<open>ReissueClientCert\<close> means for a running server: the handler of \<open>einkgrpc/displayservice.go\<close>, the
  callback it schedules and the next \<open>Start\<close> of \<open>einkgrpc/server.go\<close>, put together.
\<close>

lemma callback_stops:
  "(s', w') = rotate_callback s w \<Longrightarrow> \<not> sv_running s' \<and> sv_cfg s' = sv_cfg s \<and> sv_cm s' = sv_cm s"
  by (auto simp: rotate_callback_def sv_Stop_def Let_def split: if_splits)

lemma reissue_answer:
  assumes "sv_srv s = Some g" and "ds_rotateRequest (gs_service g)"
    and "(Some (Ok resp), s1, tasks, w1) = serve_rpc (ds_ReissueClientCert E) s w"
  shows "\<exists>cm. cm_ReissueClientCert E (sv_cm s) w = (Ok (), cm, w1) \<and>
    s1 = s\<lparr>sv_cm := cm, sv_srv := Some g\<rparr> \<and> tasks = [CallRotateRequestAfter (2 * 1000000000)] \<and>
    prc_ServerRestartInMs resp = 2000 \<and> prc_ClientCertPem resp = ClientCertPEM cm"
proof -
  obtain q cm v where c: "cm_ReissueClientCert E (sv_cm s) w = (q, cm, v)" by (metis prod_cases3)
  with assms show ?thesis
    by (cases q) (auto simp: serve_rpc_def rpc_state_def ds_ReissueClientCert_def spawn_def Let_def)
qed

text \<open>
  C28. A reissued client certificate works after a restart, and not before.  When the RPC
  \<open>ReissueClientCert\<close> succeeds on a running server with mutual TLS, the answer carries the new certificate and announces
  a restart after two seconds; until then the server goes on trusting the old one only.  The
  callback scheduled for that moment stops the server, and it is the next successful \<open>Start\<close> that
  trusts the certificate of the answer, under the server's unchanged key pair.
\<close>

theorem reissue_needs_restart:
  assumes "sv_srv s = Some g" and "gs_clientCAs g = Some (ClientCertPEM (sv_cm s))"
    and "cfg_EnableMTLS (sv_cfg s)" and "ds_rotateRequest (gs_service g)"
    and "(Some (Ok resp), s1, tasks, w1) = serve_rpc (ds_ReissueClientCert E) s w"
    and "(s2, w2) = rotate_callback s1 w1" and "sv_Start E s2 w3 = (Ok (), s3, w4)"
  shows "tasks = [CallRotateRequestAfter (prc_ServerRestartInMs resp * 1000000)] \<and>
    prc_ServerRestartInMs resp = 2000 \<and> prc_ClientCertPem resp = ClientCertPEM (sv_cm s1) \<and>
    map_option gs_clientCAs (sv_srv s1) = Some (Some (ClientCertPEM (sv_cm s))) \<and>
    \<not> IsRunning s2 \<and>
    map_option gs_clientCAs (sv_srv s3) = Some (Some (prc_ClientCertPem resp)) \<and>
    map_option gs_cert (sv_srv s3) = Some (LoadServerKeypair (sv_cm s))"
proof -
  obtain cm where cm: "cm_ReissueClientCert E (sv_cm s) w = (Ok (), cm, w1)"
    "s1 = s\<lparr>sv_cm := cm, sv_srv := Some g\<rparr>" "tasks = [CallRotateRequestAfter (2 * 1000000000)]"
    "prc_ServerRestartInMs resp = 2000" "prc_ClientCertPem resp = ClientCertPEM cm"
    using reissue_answer [OF assms(1,4,5)] by blast
  have s2: "\<not> sv_running s2" "sv_cfg s2 = sv_cfg s" "sv_cm s2 = cm"
    using callback_stops [OF assms(6)] by (simp_all add: cm(2))
  have "LoadServerKeypair cm = LoadServerKeypair (sv_cm s)"
    using reissue_keeps [OF cm(1)] by (simp add: LoadServerKeypair_def)
  then show ?thesis
    using start_serves [OF assms(7)] cm(2-5) s2 assms(2,3) by (auto simp: IsRunning_def)
qed

lemma reissue_succeeds:
  assumes "obliging E"
  shows "\<exists>cm' w'. cm_ReissueClientCert E cm w = (Ok (), cm', w')"
proof -
  obtain c k w1 where g: "genSelfSigned E ''tableaux-eink client'' w = (Inr (c, k), w1)"
    using gen_obliging [of E] assms unfolding obliging_def by blast
  have w: "\<exists>v'. os_WriteFile E p d v = (None, v')" for p d v
    using assms by (simp add: os_WriteFile_def obliging_def)
  obtain w2 where w2: "os_WriteFile E (cm_tlsDir cm @ [''client-cert.pem'']) c w1 = (None, w2)"
    using w by blast
  obtain w3 where w3: "os_WriteFile E (cm_tlsDir cm @ [''client-key.pem'']) k w2 = (None, w3)"
    using w by blast
  from g w2 w3 show ?thesis by (simp add: cm_ReissueClientCert_def Let_def)
qed

text \<open>A running server with mutual TLS.\<close>

definition demo_running :: Server where
  "demo_running = demo_server\<lparr>sv_running := True, sv_srv := Some
     \<lparr>gs_cert = LoadServerKeypair demo_cm, gs_minVersion = VersionTLS12,
      gs_clientCAs = Some (ClientCertPEM demo_cm), gs_maxRecv = 0, gs_service = st_svc demo_svc,
      gs_lis = Some 7\<rparr>\<rparr>"

lemma reissue_needs_restart_witness:
  "\<exists>s1 w1 s2 w2 s3 w3 resp tasks.
     serve_rpc (ds_ReissueClientCert easy_env) demo_running empty_world = (Some (Ok resp), s1, tasks, w1) \<and>
     map_option gs_clientCAs (sv_srv s1) = Some (Some (ClientCertPEM demo_cm)) \<and>
     rotate_callback s1 w1 = (s2, w2) \<and> sv_Start easy_env s2 w2 = (Ok (), s3, w3) \<and>
     map_option gs_clientCAs (sv_srv s3) = Some (Some (prc_ClientCertPem resp))"
proof -
  obtain g where g: "sv_srv demo_running = Some g" "gs_clientCAs g = Some (ClientCertPEM (sv_cm demo_running))"
    "cfg_EnableMTLS (sv_cfg demo_running)" "ds_rotateRequest (gs_service g)" "sv_cm demo_running = demo_cm"
    by (simp add: demo_running_def demo_server_def demo_svc_def)
  obtain cm v where c: "cm_ReissueClientCert easy_env demo_cm empty_world = (Ok (), cm, v)"
    using reissue_succeeds [OF hospitable_obliging [OF easy_hospitable]] by blast
  obtain resp s1 tasks w1 where r: "serve_rpc (ds_ReissueClientCert easy_env) demo_running empty_world =
      (Some (Ok resp), s1, tasks, w1)"
    using c g(1,5) by (auto simp: serve_rpc_def rpc_state_def ds_ReissueClientCert_def Let_def)
  obtain s2 w2 where k: "rotate_callback s1 w1 = (s2, w2)" by (metis surj_pair)
  obtain s3 w3 where t: "sv_Start easy_env s2 w2 = (Ok (), s3, w3)"
    using sv_Start_succeeds [OF easy_hospitable] callback_stops [OF k [symmetric]] by blast
  from reissue_needs_restart [OF g(1-4) r [symmetric] k [symmetric] t, unfolded g(5)]
  have "map_option gs_clientCAs (sv_srv s1) = Some (Some (ClientCertPEM demo_cm))"
    "map_option gs_clientCAs (sv_srv s3) = Some (Some (prc_ClientCertPem resp))"
    by (simp_all only:)
  with r k t show ?thesis by blast
qed

end
