(* ===== verification/App_Api.thy ===== *)
theory App_Api
  imports App
begin

text \<open>
  \<open>einkapp/app.go\<close>, the functions the host calls, over the functions \<open>do...\<close> that the build tags select:
  those of \<open>app_android.go\<close> or those of \<open>app_stub.go\<close>.
\<close>

section \<open>The two backends\<close>

record 's backend =
  bk_doInit :: "string \<Rightarrow> 's \<Rightarrow> unit outcome \<times> 's"
  bk_doStart :: "'s \<Rightarrow> unit outcome \<times> 's"
  bk_doStop :: "'s \<Rightarrow> unit outcome \<times> 's"
  bk_doIsRunning :: "'s \<Rightarrow> bool"
  bk_doToken :: "'s \<Rightarrow> string"
  bk_doAdminToken :: "'s \<Rightarrow> string"
  bk_doFingerprint :: "'s \<Rightarrow> string"
  bk_doClientFingerprint :: "'s \<Rightarrow> string"
  bk_doPort :: "'s \<Rightarrow> nat"
  bk_doMdnsName :: "'s \<Rightarrow> string"
  bk_doConnectURI :: "string \<Rightarrow> 's \<Rightarrow> string"
  bk_doSetDevicePath :: "string \<Rightarrow> 's \<Rightarrow> 's"
  bk_doDevicePath :: "'s \<Rightarrow> string"
  bk_doRotate :: "'s \<Rightarrow> unit outcome \<times> 's"
  bk_doLogsSnapshot :: "int \<Rightarrow> 's \<Rightarrow> string"
  bk_doRegisterLogObserver :: "bool \<Rightarrow> 's \<Rightarrow> 's"

text \<open>
  What a call on Android needs beside the state: the orders in which the maps of the credential store
  are read and written, and the contents of the log buffer.
\<close>

record choices =
  ch_reads :: "string list"
  ch_writes :: "string list"
  ch_logs :: "int \<Rightarrow> log_entry list"

definition android_backend :: "env \<Rightarrow> choices \<Rightarrow> (app \<times> world) backend" where
  "android_backend E ch =
     \<lparr>bk_doInit = (\<lambda>dir (a, w). case doInit dir a of (r, a') \<Rightarrow> (r, a', w)),
      bk_doStart = (\<lambda>(a, w). doStart E (ch_reads ch) (ch_writes ch) a w),
      bk_doStop = (\<lambda>(a, w). doStop E a w),
      bk_doIsRunning = (\<lambda>(a, w). doIsRunning a),
      bk_doToken = (\<lambda>(a, w). doToken a),
      bk_doAdminToken = (\<lambda>(a, w). doAdminToken a),
      bk_doFingerprint = (\<lambda>(a, w). doFingerprint E a),
      bk_doClientFingerprint = (\<lambda>(a, w). doClientFingerprint E a),
      bk_doPort = (\<lambda>(a, w). doPort a),
      bk_doMdnsName = (\<lambda>(a, w). doMdnsName a),
      bk_doConnectURI = (\<lambda>host (a, w). doConnectURI E host a),
      bk_doSetDevicePath = (\<lambda>p (a, w). (doSetDevicePath p a, w)),
      bk_doDevicePath = (\<lambda>(a, w). doDevicePath a),
      bk_doRotate = (\<lambda>(a, w). doRotate E (ch_reads ch) (ch_writes ch) a w),
      bk_doLogsSnapshot = (\<lambda>n (a, w). doLogsSnapshot (ch_logs ch) n a),
      bk_doRegisterLogObserver = (\<lambda>obs (a, w). (doRegisterLogObserver obs a, w))\<rparr>"

definition stub_backend :: "'s backend" where
  "stub_backend =
     \<lparr>bk_doInit = (\<lambda>dir s. (stub_doInit dir, s)), bk_doStart = (\<lambda>s. (stub_doStart, s)),
      bk_doStop = (\<lambda>s. (stub_doStop, s)), bk_doIsRunning = (\<lambda>s. stub_doIsRunning),
      bk_doToken = (\<lambda>s. stub_doToken), bk_doAdminToken = (\<lambda>s. stub_doAdminToken),
      bk_doFingerprint = (\<lambda>s. stub_doFingerprint),
      bk_doClientFingerprint = (\<lambda>s. stub_doClientFingerprint),
      bk_doPort = (\<lambda>s. stub_doPort), bk_doMdnsName = (\<lambda>s. stub_doMdnsName),
      bk_doConnectURI = (\<lambda>host s. stub_doConnectURI host),
      bk_doSetDevicePath = stub_doSetDevicePath, bk_doDevicePath = (\<lambda>s. stub_doDevicePath),
      bk_doRotate = (\<lambda>s. (stub_doRotate, s)), bk_doLogsSnapshot = (\<lambda>n s. stub_doLogsSnapshot n),
      bk_doRegisterLogObserver = stub_doRegisterLogObserver\<rparr>"

section \<open>The exported functions\<close>

text \<open>A call with its arguments, and what the host gets back; an observer only matters by being nil.\<close>

datatype api_call =
    ApiInit string | ApiStart | ApiStop | ApiIsRunning | ApiToken | ApiAdminToken | ApiFingerprint
  | ApiClientFingerprint | ApiPort | ApiMdnsName | ApiConnectURI string | ApiSetDevicePath string
  | ApiDevicePath | ApiRotateNow | ApiLogsSnapshot i32 | ApiRegisterLogObserver bool

datatype api_answer =
    GotError "unit outcome" | GotBool bool | GotString string | GotInt i32 | GotNothing

fun api :: "'s backend \<Rightarrow> api_call \<Rightarrow> 's \<Rightarrow> api_answer \<times> 's" where
  "api B (ApiInit filesDir) s = map_prod GotError id (bk_doInit B filesDir s)"
| "api B ApiStart s = map_prod GotError id (bk_doStart B s)"
| "api B ApiStop s = map_prod GotError id (bk_doStop B s)"
| "api B ApiIsRunning s = (GotBool (bk_doIsRunning B s), s)"
| "api B ApiToken s = (GotString (bk_doToken B s), s)"
| "api B ApiAdminToken s = (GotString (bk_doAdminToken B s), s)"
| "api B ApiFingerprint s = (GotString (bk_doFingerprint B s), s)"
| "api B ApiClientFingerprint s = (GotString (bk_doClientFingerprint B s), s)"
| "api B ApiPort s = (GotInt (of_nat (bk_doPort B s)), s)"
| "api B ApiMdnsName s = (GotString (bk_doMdnsName B s), s)"
| "api B (ApiConnectURI host) s = (GotString (bk_doConnectURI B host s), s)"
| "api B (ApiSetDevicePath p) s = (GotNothing, bk_doSetDevicePath B p s)"
| "api B ApiDevicePath s = (GotString (bk_doDevicePath B s), s)"
| "api B ApiRotateNow s = map_prod GotError id (bk_doRotate B s)"
| "api B (ApiLogsSnapshot n) s = (GotString (bk_doLogsSnapshot B (sint n) s), s)"
| "api B (ApiRegisterLogObserver obs) s = (GotNothing, bk_doRegisterLogObserver B obs s)"

text \<open>A sequence of calls with its answers.\<close>

fun api_run :: "('c \<Rightarrow> 's backend) \<Rightarrow> ('c \<times> api_call) list \<Rightarrow> 's \<Rightarrow> api_answer list \<times> 's" where
  "api_run B [] s = ([], s)"
| "api_run B ((ch, c) # cs) s =
     (case api (B ch) c s of (r, s1) \<Rightarrow> map_prod (Cons r) id (api_run B cs s1))"

section \<open>Before Init\<close>

fun initialises :: "api_call \<Rightarrow> bool" where
  "initialises (ApiInit dir) = (dir \<noteq> [])"
| "initialises _ = False"

definition idle :: "app \<Rightarrow> bool" where
  "idle a \<longleftrightarrow> \<not> ap_inited a \<and> ap_server a = None \<and> ap_display a = None \<and> \<not> ap_asvc a \<and> \<not> ap_logBuf a"

lemma initial_idle: "idle initial_app"
  by (simp add: idle_def initial_app_def)

text \<open>Where the two backends differ: \<open>Init\<close>, \<open>RotateNow\<close> and the path of the device.\<close>

fun own_answer :: "api_call \<Rightarrow> bool" where
  "own_answer (ApiInit dir) = True"
| "own_answer ApiRotateNow = True"
| "own_answer ApiDevicePath = True"
| "own_answer _ = False"

lemma stub_api: "snd (api stub_backend c s) = s"
  by (cases c) (simp_all add: stub_backend_def stub_defs)

lemma idle_api:
  assumes "idle a" and "\<not> initialises c" and "api (android_backend E ch) c (a, w) = (r, a', w')"
  shows "idle a' \<and> w' = w \<and> (r = fst (api stub_backend c s) \<or> own_answer c)"
  using assms
  by (cases c) (auto simp: android_backend_def stub_backend_def stub_defs idle_def doInit_def doStart_def
      doStop_def doRotate_def doIsRunning_def from_server_def doToken_def doAdminToken_def
      doFingerprint_def doClientFingerprint_def doPort_def doMdnsName_def doConnectURI_def
      doSetDevicePath_def doLogsSnapshot_def doRegisterLogObserver_def Let_def split: if_splits)

lemma idle_run:
  assumes "list_all (\<lambda>(ch, c). \<not> initialises c) calls" and "idle a"
    and "api_run (android_backend E) calls (a, w) = (rs, a', w')"
    and "api_run B calls s = (rs', s')" and "\<And>ch. B ch = stub_backend"
  shows "idle a' \<and> w' = w \<and> s' = s \<and> length rs = length calls \<and>
    list_all (\<lambda>((ch, c), r, r'). own_answer c \<or> r = r') (zip calls (zip rs rs'))"
  using assms(1-4)
proof (induction calls arbitrary: a w rs rs' s)
  case (Cons x calls)
  obtain ch c where x: "x = (ch, c)" by (metis surj_pair)
  obtain r a1 w1 where r: "api (android_backend E ch) c (a, w) = (r, a1, w1)" by (metis prod_cases3)
  obtain r' where r': "api stub_backend c s = (r', s)"
    using stub_api [of c s] by (metis prod.collapse)
  obtain qs where q: "api_run (android_backend E) calls (a1, w1) = (qs, a', w')" "rs = r # qs"
    using Cons.prems(3) r by (cases "api_run (android_backend E) calls (a1, w1)") (auto simp: x)
  obtain qs' where q': "api_run B calls s = (qs', s')" "rs' = r' # qs'"
    using Cons.prems(4) r' assms(5) [of ch] by (cases "api_run B calls s") (auto simp: x)
  have "idle a1 \<and> w1 = w \<and> (r = r' \<or> own_answer c)"
    using idle_api [OF Cons.prems(2) _ r, of s] Cons.prems(1) r' by (simp add: x)
  with Cons.IH [OF _ _ q(1) q'(1)] Cons.prems(1) show ?case by (auto simp: x q(2) q'(2))
qed simp

section \<open>Properties\<close>

text \<open>
  C38. Before \<open>Init\<close> the package does nothing.  In any sequence of calls by the host without a
  successful \<open>Init\<close> (one with a directory), nothing is opened, served, written or drawn, no server and
  no display is held, and every call is answered as on a system that is not Android, where no call
  ever has an effect; only \<open>Init\<close>, \<open>RotateNow\<close> and \<open>DevicePath\<close> have answers of their own.
\<close>

theorem uninitialised_api_is_inert:
  assumes "list_all (\<lambda>(ch, c). \<not> initialises c) calls"
    and "api_run (android_backend E) calls (initial_app, w) = (rs, a, w')"
    and "api_run (\<lambda>ch. stub_backend) calls s = (rs', s')"
  shows "w' = w \<and> ap_server a = None \<and> ap_display a = None \<and> s' = s \<and> length rs = length calls \<and>
    list_all (\<lambda>((ch, c), r, r'). own_answer c \<or> r = r') (zip calls (zip rs rs'))"
  using idle_run [OF assms(1) initial_idle assms(2,3)] by (simp add: idle_def)

lemma uninitialised_api_is_inert_witness:
  "\<exists>a. api_run (android_backend demo_env)
      [(\<lparr>ch_reads = [], ch_writes = [], ch_logs = (\<lambda>n. [])\<rparr>, ApiStart),
       (\<lparr>ch_reads = [], ch_writes = [], ch_logs = (\<lambda>n. [])\<rparr>, ApiRotateNow),
       (\<lparr>ch_reads = [], ch_writes = [], ch_logs = (\<lambda>n. [])\<rparr>, ApiStop)] (initial_app, empty_world) =
      ([GotError (Err ErrNotInit), GotError (Err (ErrMsg ''einkapp: server not running'')),
        GotError (Ok ())], a, empty_world) \<and> ap_server a = None"
proof -
  let ?ch = "\<lparr>ch_reads = [], ch_writes = [], ch_logs = (\<lambda>n. [])\<rparr>"
  let ?calls = "[(?ch, ApiStart), (?ch, ApiRotateNow), (?ch, ApiStop)]"
  obtain rs a w' where r: "api_run (android_backend demo_env) ?calls (initial_app, empty_world) = (rs, a, w')"
    by (metis prod_cases3)
  obtain rs' s' where s: "api_run (\<lambda>ch. stub_backend) ?calls () = (rs', s')" by (metis surj_pair)
  have "list_all (\<lambda>(ch, c). \<not> initialises c) ?calls" by simp
  note R = uninitialised_api_is_inert [OF this r s]
  have "rs = [GotError (Err ErrNotInit), GotError (Err (ErrMsg ''einkapp: server not running'')),
      GotError (Ok ())]"
    using r by (auto simp: android_backend_def doStart_def doRotate_def doStop_def initial_app_def Let_def)
  with R r show ?thesis by auto
qed

end
