(* ===== verification/Server_Conc.thy ===== *)
theory Server_Conc
  imports Server "HOL-Library.Multiset"
begin

text \<open>
  Concurrent calls of \<open>Start\<close> and \<open>Stop\<close> (\<open>einkgrpc/server.go\<close>).  \<open>Stop\<close> releases the mutex after it
  has taken the gRPC server and the registrar out of the struct; the atomic flag \<open>running\<close> is read
  and written, and both are shut down, without it.  Each of these accesses is one step of a
  goroutine here.  \<open>Start\<close> holds the mutex from its first to its last statement, and the only
  accesses another goroutine can make meanwhile are those of \<open>Stop\<close> after its first step, which can
  be put before or after \<open>Start\<close>: it is one step.
\<close>

section \<open>Steps\<close>

text \<open>Where a goroutine is in \<open>Stop\<close>, with its local variables \<open>srv\<close> and \<open>mdns\<close>.\<close>

datatype pc =
    Idle
  | Took "grpc_server option" "zcRegistrar option"
  | Loaded "grpc_server option" "zcRegistrar option"
  | Stored "grpc_server option" "zcRegistrar option"
  | Unregistered "grpc_server option"

record conc =
  cs_server :: Server
  cs_world :: world
  cs_pcs :: "pc list"

definition unregister :: "zcRegistrar option \<Rightarrow> world \<Rightarrow> world" where
  "unregister m w = (case m of None \<Rightarrow> w | Some z \<Rightarrow> snd (mdns_Unregister z w))"

definition shutdown :: "grpc_server option \<Rightarrow> world \<Rightarrow> world" where
  "shutdown g w = (case g of None \<Rightarrow> w | Some g \<Rightarrow> grpc_Stop g w)"

text \<open>Goroutine \<open>t\<close> moves to \<open>p\<close>.\<close>

definition goto :: "nat \<Rightarrow> pc \<Rightarrow> conc \<Rightarrow> conc" where
  "goto t p c = c\<lparr>cs_pcs := (cs_pcs c)[t := p]\<rparr>"

definition at_pc :: "conc \<Rightarrow> nat \<Rightarrow> pc \<Rightarrow> bool" where
  "at_pc c t p \<longleftrightarrow> t < length (cs_pcs c) \<and> cs_pcs c ! t = p"

inductive cstep :: "env \<Rightarrow> conc \<Rightarrow> conc \<Rightarrow> bool" for E :: env where
  start: "at_pc c t Idle \<Longrightarrow> sv_Start E (cs_server c) (cs_world c) = (r, s, w) \<Longrightarrow>
    cstep E c (c\<lparr>cs_server := s, cs_world := w\<rparr>)"
| take_handles: "at_pc c t Idle \<Longrightarrow> s = cs_server c \<Longrightarrow>
    cstep E c (goto t (Took (sv_srv s) (sv_mdns s))
      (c\<lparr>cs_server := s\<lparr>sv_srv := None, sv_mdns := None\<rparr>\<rparr>))"
| not_running: "at_pc c t (Took g m) \<Longrightarrow> \<not> sv_running (cs_server c) \<Longrightarrow> cstep E c (goto t Idle c)"
| load_running: "at_pc c t (Took g m) \<Longrightarrow> sv_running (cs_server c) \<Longrightarrow>
    cstep E c (goto t (Loaded g m) c)"
| store_running: "at_pc c t (Loaded g m) \<Longrightarrow>
    cstep E c (goto t (Stored g m) (c\<lparr>cs_server := (cs_server c)\<lparr>sv_running := False\<rparr>\<rparr>))"
| unregister_mdns: "at_pc c t (Stored g m) \<Longrightarrow>
    cstep E c (goto t (Unregistered g) (c\<lparr>cs_world := unregister m (cs_world c)\<rparr>))"
| stop_grpc: "at_pc c t (Unregistered g) \<Longrightarrow>
    cstep E c (goto t Idle (c\<lparr>cs_world := shutdown g (cs_world c)\<rparr>))"

inductive_cases cstepE: "cstep E c c'"

section \<open>Who holds a listener\<close>

definition lis_of :: "grpc_server option \<Rightarrow> nat list" where
  "lis_of g = (case g of None \<Rightarrow> [] | Some g \<Rightarrow> (case gs_lis g of None \<Rightarrow> [] | Some l \<Rightarrow> [l]))"

fun pc_lis :: "pc \<Rightarrow> nat list" where
  "pc_lis Idle = []"
| "pc_lis (Took g m) = lis_of g"
| "pc_lis (Loaded g m) = lis_of g"
| "pc_lis (Stored g m) = lis_of g"
| "pc_lis (Unregistered g) = lis_of g"

definition handles :: "conc \<Rightarrow> nat multiset" where
  "handles c = mset (lis_of (sv_srv (cs_server c))) + mset (concat (map pc_lis (cs_pcs c)))"

text \<open>
  Every gRPC server that the struct or a goroutine still refers to serves an open listener, and
  no listener is referred to twice.
\<close>

definition conc_inv :: "conc \<Rightarrow> bool" where
  "conc_inv c \<longleftrightarrow> handles c \<subseteq># mset (open_listeners (hist (cs_world c)))"

definition conc_init :: "nat \<Rightarrow> Server \<Rightarrow> world \<Rightarrow> conc" where
  "conc_init n s w = \<lparr>cs_server = s, cs_world = w, cs_pcs = replicate n Idle\<rparr>"

definition starts_idle :: "conc \<Rightarrow> bool" where
  "starts_idle c \<longleftrightarrow> (\<exists>n s w. sv_srv s = None \<and> c = conc_init n s w)"

lemma mset_concat_update:
  "t < length xs \<Longrightarrow> mset (concat (map f (xs[t := x]))) + mset (f (xs ! t)) =
     mset (concat (map f xs)) + mset (f x)"
proof (induction xs arbitrary: t)
  case (Cons y ys)
  then show ?case by (cases t) (auto simp: ac_simps)
qed simp

lemma handles_goto:
  "at_pc c t q \<Longrightarrow> handles (goto t p c) + mset (pc_lis q) = handles c + mset (pc_lis p)"
  using mset_concat_update [of t "cs_pcs c" pc_lis p]
  by (simp add: handles_def goto_def at_pc_def add.assoc)

lemma at_pc_sel [simp]:
  "at_pc (c\<lparr>cs_server := s\<rparr>) t p = at_pc c t p" "at_pc (c\<lparr>cs_world := w\<rparr>) t p = at_pc c t p"
  "cs_server (goto t p c) = cs_server c" "cs_world (goto t p c) = cs_world c"
  "handles (c\<lparr>cs_world := w\<rparr>) = handles c"
  by (simp_all add: at_pc_def goto_def handles_def)

lemma handles_server:
  "handles (c\<lparr>cs_server := s\<rparr>) + mset (lis_of (sv_srv (cs_server c))) =
     handles c + mset (lis_of (sv_srv s))"
  by (simp add: handles_def ac_simps)

lemma lis_of_held: "lis_of (sv_srv s) = held_listener s"
  by (simp add: lis_of_def held_listener_def)

lemma unregister_quiet: "open_listeners (hist (unregister m w)) = open_listeners (hist w)"
  by (simp add: unregister_def mdns_defs split: option.split)

lemma shutdown_closes:
  "open_listeners (hist (shutdown g w)) =
     (case lis_of g of [] \<Rightarrow> open_listeners (hist w) | l # ls \<Rightarrow> remove1 l (open_listeners (hist w)))"
  by (simp add: shutdown_def grpc_Stop_def close_listener_def lis_of_def split: option.split)

lemma lis_of_cases: "lis_of g = [] \<or> (\<exists>l. lis_of g = [l])"
  by (simp add: lis_of_def split: option.split)

text \<open>What \<open>Start\<close> does to the handles: nothing, or one new listener replaces the server's.\<close>

lemma Start_handles:
  assumes "sv_Start E s w = (r, s', w')"
  shows "(sv_srv s' = sv_srv s \<and> open_listeners (hist w') = open_listeners (hist w)) \<or>
    (\<exists>l. lis_of (sv_srv s') = [l] \<and> open_listeners (hist w') = l # open_listeners (hist w))"
  using assms
proof (cases rule: Start_cases)
  case fails
  then show ?thesis by simp
next
  case (starts g s2 w2 l s3)
  then show ?thesis using start_mdns_quiet [OF starts(5)] by (simp add: lis_of_def)
qed

lemma subset_swap: "(A::'a multiset) + X = B + Y \<Longrightarrow> Y \<subseteq># X \<Longrightarrow> A \<subseteq># B"
  by (metis mset_subset_eq_add_right subset_mset.add_le_imp_le_right subset_mset.add_left_mono)

lemma handles_same: "at_pc c t q \<Longrightarrow> mset (pc_lis p) \<subseteq># mset (pc_lis q) \<Longrightarrow> handles (goto t p c) \<subseteq># handles c"
  by (rule subset_swap [OF handles_goto])

lemma Start_keeps:
  assumes "sv_Start E (cs_server c) (cs_world c) = (r, s, w)" and "conc_inv c"
  shows "conc_inv (c\<lparr>cs_server := s, cs_world := w\<rparr>)"
  using Start_handles [OF assms(1)]
proof (elim disjE exE conjE)
  assume "sv_srv s = sv_srv (cs_server c)"
    and o: "open_listeners (hist w) = open_listeners (hist (cs_world c))"
  then have "handles (c\<lparr>cs_server := s\<rparr>) = handles c" by (simp add: handles_def)
  with assms(2) o show ?thesis by (simp add: conc_inv_def)
next
  fix l
  assume l: "lis_of (sv_srv s) = [l]" "open_listeners (hist w) = l # open_listeners (hist (cs_world c))"
  have "handles (c\<lparr>cs_server := s\<rparr>) \<subseteq># handles c + {#l#}"
    using handles_server [where c = c and s = s] l(1)
    by (metis mset.simps mset_subset_eq_add_left)
  also have "\<dots> \<subseteq># mset (open_listeners (hist w))" using assms(2) l(2) by (simp add: conc_inv_def)
  finally show ?thesis by (simp add: conc_inv_def handles_def)
qed

lemma take_keeps:
  "at_pc c t Idle \<Longrightarrow> s = cs_server c \<Longrightarrow>
     handles (goto t (Took (sv_srv s) (sv_mdns s))
       (c\<lparr>cs_server := s\<lparr>sv_srv := None, sv_mdns := None\<rparr>\<rparr>)) = handles c"
  using handles_goto [of "c\<lparr>cs_server := s\<lparr>sv_srv := None, sv_mdns := None\<rparr>\<rparr>" t Idle
      "Took (sv_srv s) (sv_mdns s)"]
    handles_server [where c = c and s = "s\<lparr>sv_srv := None, sv_mdns := None\<rparr>"]
  by (simp add: lis_of_def [of None])

lemma stop_keeps:
  assumes "at_pc c t (Unregistered g)" and "conc_inv c"
  shows "conc_inv (goto t Idle (c\<lparr>cs_world := shutdown g (cs_world c)\<rparr>))"
proof -
  have h: "handles (goto t Idle (c\<lparr>cs_world := shutdown g (cs_world c)\<rparr>)) + mset (lis_of g) = handles c"
    using handles_goto [of "c\<lparr>cs_world := shutdown g (cs_world c)\<rparr>" t "Unregistered g" Idle] assms(1)
    by simp
  show ?thesis
  proof (cases "lis_of g")
    case Nil
    with h assms(2) show ?thesis by (simp add: conc_inv_def shutdown_closes)
  next
    case (Cons l ls)
    then have g: "lis_of g = [l]" using lis_of_cases [of g] by auto
    with h assms(2) have "add_mset l (handles (goto t Idle (c\<lparr>cs_world := shutdown g (cs_world c)\<rparr>)))
        \<subseteq># mset (open_listeners (hist (cs_world c)))"
      by (simp add: conc_inv_def)
    with g show ?thesis by (simp add: conc_inv_def shutdown_closes insert_subset_eq_iff)
  qed
qed

lemma cstep_keeps: "cstep E c c' \<Longrightarrow> conc_inv c \<Longrightarrow> conc_inv c'"
proof (induction rule: cstep.induct)
  case (start c t r s w)
  then show ?case by (blast intro: Start_keeps)
next
  case (take_handles c t s)
  with take_keeps [OF take_handles(1,2)] show ?case by (simp add: conc_inv_def)
next
  case (not_running c t g m)
  with handles_same [OF not_running(1), of Idle] show ?case
    by (auto simp: conc_inv_def intro: subset_mset.order_trans)
next
  case (load_running c t g m)
  with handles_same [OF load_running(1), of "Loaded g m"] show ?case
    by (auto simp: conc_inv_def intro: subset_mset.order_trans)
next
  case (store_running c t g m)
  let ?c = "c\<lparr>cs_server := (cs_server c)\<lparr>sv_running := False\<rparr>\<rparr>"
  have "handles ?c = handles c" by (simp add: handles_def)
  with store_running handles_same [of ?c t "Loaded g m" "Stored g m"] show ?case
    by (auto simp: conc_inv_def intro: subset_mset.order_trans)
next
  case (unregister_mdns c t g m)
  with handles_same [of "c\<lparr>cs_world := unregister m (cs_world c)\<rparr>" t "Stored g m" "Unregistered g"]
  show ?case by (auto simp: conc_inv_def unregister_quiet intro: subset_mset.order_trans)
next
  case (stop_grpc c t g)
  then show ?case by (blast intro: stop_keeps)
qed

lemma init_keeps: "starts_idle c \<Longrightarrow> conc_inv c"
  by (auto simp: starts_idle_def conc_init_def conc_inv_def handles_def lis_of_def)

interpretation server_runs: transition_system starts_idle "cstep E" conc_inv for E
  by unfold_locales (blast intro: init_keeps cstep_keeps)+

section \<open>Properties\<close>

text \<open>
  C13. No gRPC server is shut down twice, whatever the interleaving.  However many goroutines call
  \<open>Start\<close> and \<open>Stop\<close> and however their steps interleave, every gRPC server that the struct or a
  running \<open>Stop\<close> still refers to serves a listener that is open, and no two references share one:
  a \<open>GracefulStop\<close> always acts on a server nobody else has stopped or will stop.
\<close>

theorem no_double_shutdown:
  assumes "(cstep E)\<^sup>*\<^sup>* (conc_init n s w) c" and "sv_srv s = None"
  shows "handles c \<subseteq># mset (open_listeners (hist (cs_world c))) \<and>
    (at_pc c t (Unregistered (Some g)) \<and> gs_lis g = Some l \<longrightarrow>
       l \<in> set (open_listeners (hist (cs_world c))))"
proof -
  have "starts_idle (conc_init n s w)" using assms(2) by (auto simp: starts_idle_def)
  from server_runs.reach_inv [OF assms(1) this]
  have inv: "handles c \<subseteq># mset (open_listeners (hist (cs_world c)))" by (simp add: conc_inv_def)
  have "l \<in># handles c" if "at_pc c t (Unregistered (Some g))" "gs_lis g = Some l"
    using that nth_mem [of t "cs_pcs c"]
    by (force simp: handles_def at_pc_def lis_of_def)
  with inv show ?thesis
    using mset_subset_eqD [OF inv] by auto
qed

section \<open>One call\<close>

lemma goto_sel [simp]:
  "goto t p (goto t q c) = goto t p c" "cs_pcs (goto t p c) = (cs_pcs c)[t := p]"
  "goto t p (c\<lparr>cs_world := w\<rparr>) = (goto t p c)\<lparr>cs_world := w\<rparr>"
  "goto t p (c\<lparr>cs_server := s\<rparr>) = (goto t p c)\<lparr>cs_server := s\<rparr>"
  by (simp_all add: goto_def)

lemma goto_same: "at_pc c t p \<Longrightarrow> goto t p c = c"
  by (cases c) (auto simp: goto_def at_pc_def)

lemma at_goto: "at_pc c t q \<Longrightarrow> at_pc (goto t p c) t p"
  by (simp add: at_pc_def goto_def)

lemma at_other: "t \<noteq> u \<Longrightarrow> at_pc (goto t p c) u q = at_pc c u q"
  by (simp add: at_pc_def)

lemma at_update [simp]: "at_pc ((goto t p c)\<lparr>cs_server := s\<rparr>) u q = at_pc (goto t p c) u q"
  by simp

lemmas step_then = converse_rtranclp_into_rtranclp [of "cstep E" for E]

lemma from_stored:
  assumes "at_pc c t (Stored g m)"
  shows "(cstep E)\<^sup>*\<^sup>* c ((goto t Idle c)\<lparr>cs_world := shutdown g (unregister m (cs_world c))\<rparr>)"
proof (rule step_then [OF unregister_mdns [OF assms] r_into_rtranclp])
  let ?c = "goto t (Unregistered g) (c\<lparr>cs_world := unregister m (cs_world c)\<rparr>)"
  have "at_pc ?c t (Unregistered g)" using assms by (simp add: at_goto)
  from stop_grpc [OF this, of E]
  show "cstep E ?c ((goto t Idle c)\<lparr>cs_world := shutdown g (unregister m (cs_world c))\<rparr>)" by simp
qed

lemma from_took:
  assumes "at_pc c t (Took g m)"
  shows "(cstep E)\<^sup>*\<^sup>* c
    (if sv_running (cs_server c)
     then (goto t Idle c)\<lparr>cs_server := (cs_server c)\<lparr>sv_running := False\<rparr>,
            cs_world := shutdown g (unregister m (cs_world c))\<rparr>
     else goto t Idle c)"
proof (cases "sv_running (cs_server c)")
  case False
  with not_running [OF assms False] show ?thesis by auto
next
  case True
  let ?c1 = "goto t (Loaded g m) c"
  let ?c2 = "goto t (Stored g m) (?c1\<lparr>cs_server := (cs_server ?c1)\<lparr>sv_running := False\<rparr>\<rparr>)"
  have 1: "at_pc ?c1 t (Loaded g m)" by (rule at_goto [OF assms])
  then have 2: "at_pc ?c2 t (Stored g m)" by (simp add: at_goto del: goto_sel)
  show ?thesis
    using step_then [OF load_running [OF assms True] step_then [OF store_running [OF 1] from_stored [OF 2]]]
      True by simp
qed

lemma stop_steps:
  assumes "at_pc c t Idle" and "sv_Stop (cs_server c) (cs_world c) = (r, s', w')"
  shows "(cstep E)\<^sup>*\<^sup>* c (c\<lparr>cs_server := s', cs_world := w'\<rparr>)"
proof -
  let ?s = "cs_server c"
  let ?c1 = "goto t (Took (sv_srv ?s) (sv_mdns ?s)) (c\<lparr>cs_server := ?s\<lparr>sv_srv := None, sv_mdns := None\<rparr>\<rparr>)"
  have "at_pc ?c1 t (Took (sv_srv ?s) (sv_mdns ?s))" using assms(1) by (simp add: at_goto)
  from step_then [OF take_handles [OF assms(1) refl] from_took [OF this, of E]] assms
  show ?thesis
    by (auto simp: sv_Stop_def unregister_def shutdown_def Let_def goto_same split: if_splits)
qed

text \<open>
  An undisturbed call is the sequential \<open>Stop\<close>: from any state in which a goroutine is about to call
  it, the steps of that goroutine alone lead to exactly the server and the world that the
  sequential definition gives, with every goroutine back where it was.
\<close>

lemma stop_alone:
  assumes "at_pc c t Idle" and "sv_Stop (cs_server c) (cs_world c) = (r, s', w')"
  shows "(cstep E)\<^sup>*\<^sup>* c (c\<lparr>cs_server := s', cs_world := w'\<rparr>)"
  by (rule stop_steps [OF assms])

text \<open>
  C22. Two concurrent calls of \<open>Stop\<close> can leak the server.  From any state of a running server in which
  two goroutines are about to call \<open>Stop\<close>, there is an interleaving after which both have returned
  and the server is not running and refers to nothing, but nothing was shut down: the world, with
  the open listener and the advertisement, is unchanged, and further calls do nothing.
\<close>

theorem concurrent_stops_leak:
  assumes "at_pc c t Idle" and "at_pc c u Idle" and "t \<noteq> u" and "IsRunning (cs_server c)"
  shows "\<exists>c'. (cstep E)\<^sup>*\<^sup>* c c' \<and> cs_pcs c' = cs_pcs c \<and> cs_world c' = cs_world c \<and>
    \<not> IsRunning (cs_server c') \<and> sv_srv (cs_server c') = None \<and> sv_mdns (cs_server c') = None \<and>
    sv_Stop (cs_server c') (cs_world c') = (Ok (), cs_server c', cs_world c')"
proof -
  let ?s = "cs_server c"
  let ?p = "Took (sv_srv ?s) (sv_mdns ?s)"
  let ?s1 = "?s\<lparr>sv_srv := None, sv_mdns := None\<rparr>"
  let ?c1 = "goto t ?p (c\<lparr>cs_server := ?s1\<rparr>)"
  have 1: "cstep E c ?c1" by (rule take_handles [OF assms(1) refl])
  have u: "at_pc ?c1 u Idle" using assms(2,3) by (simp add: at_other)
  let ?s2 = "?s1\<lparr>sv_running := False\<rparr>"
  let ?c2 = "?c1\<lparr>cs_server := ?s2, cs_world := cs_world c\<rparr>"
  have 2: "(cstep E)\<^sup>*\<^sup>* ?c1 ?c2"
    using stop_steps [OF u, of "Ok ()" ?s2 "cs_world c"] assms(4)
    by (simp add: sv_Stop_def IsRunning_def Let_def)
  have t: "at_pc ?c2 t ?p" using assms(1) by (simp add: at_goto)
  have "cstep E ?c2 (goto t Idle ?c2)" by (rule not_running [OF t]) simp
  with 1 2 have "(cstep E)\<^sup>*\<^sup>* c (goto t Idle ?c2)"
    by (meson converse_rtranclp_into_rtranclp rtranclp.rtrancl_into_rtrancl)
  then show ?thesis
    using assms(1)
    by (intro exI [of _ "goto t Idle ?c2"]) (simp add: IsRunning_def sv_Stop_def goto_same Let_def at_pc_def)
qed

section \<open>A run\<close>

text \<open>The first goroutine of two starts the server of the other examples.\<close>

lemma demo_running:
  "\<exists>s w l. sv_Start demo_env demo_server empty_world = (Ok (), s, w) \<and> sv_running s \<and>
     open_listeners (hist w) = [l] \<and>
     (cstep demo_env)\<^sup>*\<^sup>* (conc_init 2 demo_server empty_world) (conc_init 2 s w)"
proof -
  obtain s w where st: "sv_Start demo_env demo_server empty_world = (Ok (), s, w)"
    using demo_start by blast
  have "at_pc (conc_init 2 demo_server empty_world) 0 Idle" by (simp add: at_pc_def conc_init_def)
  from cstep.start [OF this, of demo_env "Ok ()" s w]
  have "cstep demo_env (conc_init 2 demo_server empty_world) (conc_init 2 s w)"
    using st by (simp add: conc_init_def)
  moreover have "sv_running s \<and> (\<exists>l. open_listeners (hist w) = [l])"
    using st
  proof (cases rule: Start_cases)
    case fails
    then show ?thesis by simp
  next
    case (starts g s2 w2 l s3)
    from start_mdns_quiet [OF starts(5)] obtain m
      where "s3 = s2\<lparr>sv_mdns := m\<rparr>" "open_listeners (hist w) = open_listeners (hist w2)" by blast
    with starts show ?thesis by (simp add: empty_world_def)
  qed
  ultimately show ?thesis using st by blast
qed

lemma no_double_shutdown_witness:
  "\<exists>c. (cstep demo_env)\<^sup>*\<^sup>* (conc_init 2 demo_server empty_world) c \<and> IsRunning (cs_server c) \<and>
     handles c \<subseteq># mset (open_listeners (hist (cs_world c)))"
proof -
  obtain s w l where d: "sv_running s"
      "(cstep demo_env)\<^sup>*\<^sup>* (conc_init 2 demo_server empty_world) (conc_init 2 s w)"
    using demo_running by blast
  from no_double_shutdown [OF d(2) demo_server_new(2), THEN conjunct1] d show ?thesis
    by (intro exI [of _ "conc_init 2 s w"]) (simp add: conc_init_def IsRunning_def)
qed

lemma stop_alone_example:
  "\<exists>s w. IsRunning s \<and> (cstep demo_env)\<^sup>*\<^sup>* (conc_init 2 s w)
     ((conc_init 2 s w)\<lparr>cs_server := fst (snd (sv_Stop s w)), cs_world := snd (snd (sv_Stop s w))\<rparr>)"
proof -
  obtain s :: Server where d: "sv_running s" using demo_running by blast
  let ?w = empty_world
  have "at_pc (conc_init 2 s ?w) 1 Idle" by (simp add: at_pc_def conc_init_def)
  from stop_alone [OF this, of "fst (sv_Stop s ?w)" "fst (snd (sv_Stop s ?w))" "snd (snd (sv_Stop s ?w))"
      demo_env] d
  show ?thesis by (intro exI [of _ s] exI [of _ ?w]) (simp add: conc_init_def IsRunning_def)
qed

lemma concurrent_stops_leak_witness:
  "\<exists>c. (cstep demo_env)\<^sup>*\<^sup>* (conc_init 2 demo_server empty_world) c \<and> cs_pcs c = [Idle, Idle] \<and>
     \<not> IsRunning (cs_server c) \<and> sv_srv (cs_server c) = None \<and>
     (\<exists>l. open_listeners (hist (cs_world c)) = [l])"
proof -
  obtain s w l where d: "sv_running s" "open_listeners (hist w) = [l]"
      "(cstep demo_env)\<^sup>*\<^sup>* (conc_init 2 demo_server empty_world) (conc_init 2 s w)"
    using demo_running by blast
  have at: "at_pc (conc_init 2 s w) 0 Idle" "at_pc (conc_init 2 s w) 1 Idle"
    by (simp_all add: at_pc_def conc_init_def)
  have "IsRunning (cs_server (conc_init 2 s w))" using d(1) by (simp add: IsRunning_def conc_init_def)
  from concurrent_stops_leak [OF at _ this, of demo_env] obtain c where c:
    "(cstep demo_env)\<^sup>*\<^sup>* (conc_init 2 s w) c" "cs_pcs c = cs_pcs (conc_init 2 s w)"
    "cs_world c = cs_world (conc_init 2 s w)" "\<not> IsRunning (cs_server c)"
    "sv_srv (cs_server c) = None" by auto
  have "cs_pcs c = [Idle, Idle]" "cs_world c = w"
    using c(2,3) by (simp_all add: conc_init_def numeral_2_eq_2)
  with d(2,3) c show ?thesis
    by (intro exI [of _ c] conjI) (auto intro: rtranclp_trans)
qed

end
