(* ===== verification/App_Conc.thy ===== *)
theory App_Conc
  imports App Server_Conc Interleave
begin

text \<open>
  Concurrent calls of \<open>einkapp\<close> (\<open>einkapp/app_android.go\<close>).  \<open>doStart\<close> and the small operations hold the
  mutex of the package from beginning to end.  \<open>doStop\<close> and \<open>doRotate\<close> only read and write the
  variables under it; in between they work, without the mutex, on the server and the display that
  they have read.  Here each call is cut at these points, and servers are objects of a heap, for
  several calls can refer to the same one.  The steps inside \<open>Server.Stop\<close> are the subject of
  \<open>Server_Conc\<close>; it is one step here.
\<close>

section \<open>State\<close>

text \<open>
  The variables of the package without \<open>server\<close> (that field of \<open>pk_vars\<close> is not used), the variable
  \<open>server\<close> as a reference, the servers created so far, and the world.
\<close>

record pkg =
  pk_vars :: app
  pk_server :: "nat option"
  pk_heap :: "Server list"
  pk_world :: world

definition view :: "pkg \<Rightarrow> app" where
  "view c = (pk_vars c)\<lparr>ap_server := map_option (\<lambda>i. pk_heap c ! i) (pk_server c)\<rparr>"

definition pkg_of :: "app \<Rightarrow> world \<Rightarrow> pkg" where
  "pkg_of a w =
     (case ap_server a of
        None \<Rightarrow> \<lparr>pk_vars = a, pk_server = None, pk_heap = [], pk_world = w\<rparr>
      | Some s \<Rightarrow> \<lparr>pk_vars = a, pk_server = Some 0, pk_heap = [s], pk_world = w\<rparr>)"

text \<open>The values of the variables after an operation that held the mutex; a new server is a new object.\<close>

definition put_back :: "app \<Rightarrow> world \<Rightarrow> pkg \<Rightarrow> pkg" where
  "put_back a w c =
     (let c1 = c\<lparr>pk_vars := a, pk_world := w\<rparr>
      in case ap_server a of
           None \<Rightarrow> c1\<lparr>pk_server := None\<rparr>
         | Some s \<Rightarrow>
             (case pk_server c of
                Some i \<Rightarrow> c1\<lparr>pk_heap := (pk_heap c)[i := s]\<rparr>
              | None \<Rightarrow> c1\<lparr>pk_heap := pk_heap c @ [s], pk_server := Some (length (pk_heap c))\<rparr>))"

definition critical :: "(app \<Rightarrow> world \<Rightarrow> 'r \<times> app \<times> world) \<Rightarrow> pkg \<Rightarrow> 'r \<times> pkg" where
  "critical f c = (case f (view c) (pk_world c) of (r, a, w) \<Rightarrow> (r, put_back a w c))"

text \<open>A method call on server \<open>i\<close>.\<close>

definition on_server :: "nat \<Rightarrow> (Server \<Rightarrow> world \<Rightarrow> 'r \<times> Server \<times> world) \<Rightarrow> pkg \<Rightarrow> 'r \<times> pkg" where
  "on_server i f c =
     (case f (pk_heap c ! i) (pk_world c) of
        (r, s, w) \<Rightarrow> (r, c\<lparr>pk_heap := (pk_heap c)[i := s], pk_world := w\<rparr>))"

section \<open>Steps\<close>

datatype app_call =
    CallInit string
  | CallStart "string list" "string list"
  | CallStop
  | CallRotate "string list" "string list"
  | CallSetDevice string
  | CallObserver bool
  | Arrival nat "string list" rpc
  | Callback nat

text \<open>
  Where a call is, with its local variables: \<open>srv\<close> and \<open>d\<close> of \<open>doStop\<close>, \<open>srv\<close> of \<open>doRotate\<close>, whose
  last stage is a call of \<open>doStart\<close>.
\<close>

datatype call_pc =
    Called app_call
  | Stopping "nat option" "dref option"
  | Lowering "dref option"
  | Closing "dref option"
  | Rotating nat "string list" "string list"
  | Restarting nat "string list" "string list"
  | Forgetting "string list" "string list"
  | Returned "unit outcome"

definition returns :: "unit outcome \<times> pkg \<Rightarrow> call_pc \<times> pkg" where
  "returns rc = (Returned (fst rc), snd rc)"

text \<open>\<open>doStop\<close>: the critical section, \<open>srv.Stop()\<close>, \<open>asvcSvc.Stop()\<close>, \<open>d.Close()\<close>.\<close>

fun stop_step :: "env \<Rightarrow> call_pc \<Rightarrow> pkg \<Rightarrow> call_pc \<times> pkg" where
  "stop_step E (Called CallStop) c =
     (Stopping (pk_server c) (ap_display (pk_vars c)),
      c\<lparr>pk_server := None, pk_vars := (pk_vars c)\<lparr>ap_display := None\<rparr>\<rparr>)"
| "stop_step E (Stopping srv d) c =
     (Lowering d, case srv of None \<Rightarrow> c | Some i \<Rightarrow> snd (on_server i sv_Stop c))"
| "stop_step E (Lowering d) c =
     (Closing d, if ap_asvc (pk_vars c) then c\<lparr>pk_world := snd (asvc_set E False (pk_world c))\<rparr> else c)"
| "stop_step E (Closing d) c =
     (Returned (Ok ()), c\<lparr>pk_world := close_display E d (pk_world c)\<rparr>)"
| "stop_step E p c = (p, c)"

text \<open>
  \<open>doRotate\<close>: reading \<open>server\<close>, \<open>srv.CertManager().Rotate()\<close>, \<open>srv.Stop()\<close>, \<open>server = nil\<close>,
  \<open>return doStart()\<close>.
\<close>

fun rotate_step :: "env \<Rightarrow> call_pc \<Rightarrow> pkg \<Rightarrow> call_pc \<times> pkg" where
  "rotate_step E (Called (CallRotate ro wo)) c =
     (case pk_server c of
        None \<Rightarrow> (Returned (Err (ErrMsg ''einkapp: server not running'')), c)
      | Some i \<Rightarrow> (Rotating i ro wo, c))"
| "rotate_step E (Rotating i ro wo) c =
     (case on_server i (\<lambda>s w. case cm_Rotate E wo (sv_cm s) w of (r, cm, w1) \<Rightarrow> (r, s\<lparr>sv_cm := cm\<rparr>, w1)) c of
        (Ok _, c1) \<Rightarrow> (Restarting i ro wo, c1)
      | (Err e, c1) \<Rightarrow> (Returned (Err e), c1)
      | (Panic p, c1) \<Rightarrow> (Returned (Panic p), c1))"
| "rotate_step E (Restarting i ro wo) c =
     (case on_server i sv_Stop c of
        (Ok _, c1) \<Rightarrow> (Forgetting ro wo, c1)
      | (Err e, c1) \<Rightarrow> (Returned (Err e), c1)
      | (Panic p, c1) \<Rightarrow> (Returned (Panic p), c1))"
| "rotate_step E (Forgetting ro wo) c = (Called (CallStart ro wo), c\<lparr>pk_server := None\<rparr>)"
| "rotate_step E p c = (p, c)"

text \<open>
  The other calls hold the mutex throughout.  An RPC or a rotation callback, which are not calls of
  the package, works on the server it belongs to.
\<close>

fun call_step :: "env \<Rightarrow> call_pc \<Rightarrow> pkg \<Rightarrow> call_pc \<times> pkg" where
  "call_step E (Called (CallInit dir)) c =
     returns (critical (\<lambda>a w. case doInit dir a of (r, a1) \<Rightarrow> (r, a1, w)) c)"
| "call_step E (Called (CallStart ro wo)) c = returns (critical (doStart E ro wo) c)"
| "call_step E (Called (CallSetDevice p)) c =
     returns (critical (\<lambda>a w. (Ok (), doSetDevicePath p a, w)) c)"
| "call_step E (Called (CallObserver obs)) c =
     returns (critical (\<lambda>a w. (Ok (), doRegisterLogObserver obs a, w)) c)"
| "call_step E (Called (Arrival i order q)) c =
     (Returned (Ok ()),
      if i < length (pk_heap c) then snd (on_server i (\<lambda>s w. ((), serve_arrival E (order, q) (s, w))) c) else c)"
| "call_step E (Called (Callback i)) c =
     (Returned (Ok ()),
      if i < length (pk_heap c) then snd (on_server i (\<lambda>s w. ((), rotate_callback s w)) c) else c)"
| "call_step E (Called CallStop) c = stop_step E (Called CallStop) c"
| "call_step E (Stopping srv d) c = stop_step E (Stopping srv d) c"
| "call_step E (Lowering d) c = stop_step E (Lowering d) c"
| "call_step E (Closing d) c = stop_step E (Closing d) c"
| "call_step E (Called (CallRotate ro wo)) c = rotate_step E (Called (CallRotate ro wo)) c"
| "call_step E (Rotating i ro wo) c = rotate_step E (Rotating i ro wo) c"
| "call_step E (Restarting i ro wo) c = rotate_step E (Restarting i ro wo) c"
| "call_step E (Forgetting ro wo) c = rotate_step E (Forgetting ro wo) c"
| "call_step E (Returned r) c = (Returned r, c)"

abbreviation call_sched :: "env \<Rightarrow> nat \<Rightarrow> call_pc list \<times> pkg \<Rightarrow> call_pc list \<times> pkg" where
  "call_sched E \<equiv> interleave (call_step E)"

text \<open>Calls are made by goroutines; the schedule says which of them makes the next step.\<close>

definition call_run :: "env \<Rightarrow> nat list \<Rightarrow> app_call list \<Rightarrow> pkg \<Rightarrow> call_pc list \<times> pkg" where
  "call_run E sched calls c = fold (call_sched E) sched (map Called calls, c)"

fun is_returned :: "call_pc \<Rightarrow> bool" where
  "is_returned (Returned r) = True"
| "is_returned _ = False"

section \<open>The state seen as one record\<close>

definition ref_ok :: "pkg \<Rightarrow> bool" where
  "ref_ok c \<longleftrightarrow> (case pk_server c of None \<Rightarrow> True | Some i \<Rightarrow> i < length (pk_heap c))"

lemma ref_ok_updates [simp]:
  "ref_ok (c\<lparr>pk_world := w\<rparr>) = ref_ok c" "ref_ok (c\<lparr>pk_heap := (pk_heap c)[i := s]\<rparr>) = ref_ok c"
  by (simp_all add: ref_ok_def split: option.split)

lemma app_server_same: "ap_server a = s \<Longrightarrow> a\<lparr>ap_server := s\<rparr> = a"
  by (cases a) simp

lemma view_pkg_of [simp]: "view (pkg_of a w) = a" "pk_world (pkg_of a w) = w" "ref_ok (pkg_of a w)"
  by (auto simp: view_def pkg_of_def ref_ok_def app_server_same split: option.split)

lemma view_put_back [simp]:
  "ref_ok c \<Longrightarrow> view (put_back a w c) = a" "pk_world (put_back a w c) = w"
  "ref_ok c \<Longrightarrow> ref_ok (put_back a w c)"
  by (auto simp: view_def put_back_def ref_ok_def Let_def app_server_same split: option.split)

lemma view_sel [simp]:
  "ap_server (view c) = map_option (\<lambda>i. pk_heap c ! i) (pk_server c)"
  "ap_display (view c) = ap_display (pk_vars c)" "ap_asvc (view c) = ap_asvc (pk_vars c)"
  "ap_inited (view c) = ap_inited (pk_vars c)" "ap_filesDir (view c) = ap_filesDir (pk_vars c)"
  "ap_devPath (view c) = ap_devPath (pk_vars c)" "ap_logBuf (view c) = ap_logBuf (pk_vars c)"
  "ap_fanout (view c) = ap_fanout (pk_vars c)" "ap_observer (view c) = ap_observer (pk_vars c)"
  "view (c\<lparr>pk_world := w\<rparr>) = view c"
  by (simp_all add: view_def)

section \<open>One call alone is the sequential one\<close>

fun alone_call :: "env \<Rightarrow> app_call \<Rightarrow> app \<Rightarrow> world \<Rightarrow> unit outcome \<times> app \<times> world" where
  "alone_call E (CallInit dir) a w = (case doInit dir a of (r, a1) \<Rightarrow> (r, a1, w))"
| "alone_call E (CallStart ro wo) a w = doStart E ro wo a w"
| "alone_call E CallStop a w = doStop E a w"
| "alone_call E (CallRotate ro wo) a w = doRotate E ro wo a w"
| "alone_call E (CallSetDevice p) a w = (Ok (), doSetDevicePath p a, w)"
| "alone_call E (CallObserver obs) a w = (Ok (), doRegisterLogObserver obs a, w)"
| "alone_call E (Arrival i order q) a w =
     (Ok (), if i = 0 then app_step E (AppRpc order q) (a, w) else (a, w))"
| "alone_call E (Callback i) a w =
     (Ok (), if i = 0 then app_step E AppRotateCallback (a, w) else (a, w))"

text \<open>\<open>ends_in E p c r c'\<close>: undisturbed, the call at \<open>p\<close> returns \<open>r\<close> in the state \<open>c'\<close>.\<close>

definition ends_in :: "env \<Rightarrow> call_pc \<Rightarrow> pkg \<Rightarrow> unit outcome \<Rightarrow> pkg \<Rightarrow> bool" where
  "ends_in E p c r c' \<longleftrightarrow> alone_to (call_step E) p c (Returned r) c'"

lemma ends_returned: "ends_in E (Returned r) c r c"
  by (simp add: ends_in_def alone_here)

lemma ends_step: "call_step E p c = (p1, c1) \<Longrightarrow> ends_in E p1 c1 r c' \<Longrightarrow> ends_in E p c r c'"
  unfolding ends_in_def by (rule alone_step)

lemma ends_now: "call_step E p c = (Returned r, c') \<Longrightarrow> ends_in E p c r c'"
  by (rule ends_step [OF _ ends_returned])

lemma ends_critical:
  assumes "ref_ok c" and "call_step E p c = returns (critical f c)"
  shows "\<exists>c'. ends_in E p c (fst (f (view c) (pk_world c))) c' \<and>
    (view c', pk_world c') = snd (f (view c) (pk_world c)) \<and> ref_ok c'"
proof -
  obtain r a w where f: "f (view c) (pk_world c) = (r, a, w)" by (metis prod_cases3)
  with assms(2) have "call_step E p c = (Returned r, put_back a w c)"
    by (simp add: returns_def critical_def)
  from ends_now [OF this] f assms(1) show ?thesis by (intro exI [of _ "put_back a w c"]) simp
qed

lemma view_eqI:
  "pk_vars c' = pk_vars c \<Longrightarrow> map_option (\<lambda>i. pk_heap c' ! i) (pk_server c') = map_option (\<lambda>i. pk_heap c ! i) (pk_server c) \<Longrightarrow>
     view c' = view c"
  by (simp add: view_def)

lemma alone_Stop:
  "\<exists>c'. ends_in E (Called CallStop) c (Ok ()) c' \<and>
     (view c', pk_world c') = snd (doStop E (view c) (pk_world c)) \<and> ref_ok c'"
proof -
  let ?c1 = "c\<lparr>pk_server := None, pk_vars := (pk_vars c)\<lparr>ap_display := None\<rparr>\<rparr>"
  let ?c2 = "case pk_server c of None \<Rightarrow> ?c1 | Some i \<Rightarrow> snd (on_server i sv_Stop ?c1)"
  let ?c3 = "if ap_asvc (pk_vars ?c2) then ?c2\<lparr>pk_world := snd (asvc_set E False (pk_world ?c2))\<rparr> else ?c2"
  let ?c4 = "?c3\<lparr>pk_world := close_display E (ap_display (pk_vars c)) (pk_world ?c3)\<rparr>"
  have "ends_in E (Called CallStop) c (Ok ()) ?c4"
    by (rule ends_step, simp, rule ends_step, simp, rule ends_step, simp, rule ends_now, simp)
  moreover have v: "pk_vars ?c2 = (pk_vars c)\<lparr>ap_display := None\<rparr> \<and> pk_server ?c2 = None \<and>
      pk_world ?c2 = stop_server (ap_server (view c)) (pk_world c)"
    by (simp add: on_server_def stop_server_def split: option.split prod.split)
  then have "pk_vars ?c4 = (pk_vars c)\<lparr>ap_display := None\<rparr> \<and> pk_server ?c4 = None" by simp
  then have "view ?c4 = (view c)\<lparr>ap_server := None, ap_display := None\<rparr> \<and> ref_ok ?c4"
    by (simp add: view_def ref_ok_def)
  moreover have "pk_world ?c4 = snd (snd (doStop E (view c) (pk_world c)))"
    using v by (simp add: doStop_eq Let_def)
  ultimately show ?thesis by (intro exI [of _ ?c4]) (simp add: doStop_eq Let_def)
qed

lemma alone_Rotate:
  assumes "ref_ok c"
  shows "\<exists>c'. ends_in E (Called (CallRotate ro wo)) c (fst (doRotate E ro wo (view c) (pk_world c))) c' \<and>
    (view c', pk_world c') = snd (doRotate E ro wo (view c) (pk_world c)) \<and> ref_ok c'"
proof (cases "pk_server c")
  case None
  then have "doRotate E ro wo (view c) (pk_world c) =
      (Err (ErrMsg ''einkapp: server not running''), view c, pk_world c)"
    by (simp add: doRotate_def)
  with None assms show ?thesis by (intro exI [of _ c]) (simp add: ends_now)
next
  case (Some i)
  let ?s = "pk_heap c ! i"
  have i: "i < length (pk_heap c)" using assms Some by (simp add: ref_ok_def)
  obtain r cm w1 where r: "cm_Rotate E wo (sv_cm ?s) (pk_world c) = (r, cm, w1)" by (metis prod_cases3)
  let ?c1 = "c\<lparr>pk_heap := (pk_heap c)[i := ?s\<lparr>sv_cm := cm\<rparr>], pk_world := w1\<rparr>"
  have 1: "ends_in E (Called (CallRotate ro wo)) c q c'" if "ends_in E (Rotating i ro wo) c q c'" for q c'
    using that Some by (simp add: ends_step)
  have v1: "view ?c1 = (view c)\<lparr>ap_server := Some (?s\<lparr>sv_cm := cm\<rparr>)\<rparr>" "ref_ok ?c1"
    using Some i by (simp_all add: view_def ref_ok_def)
  show ?thesis
  proof (cases r)
    case (Ok u)
    obtain q s2 w2 where st: "sv_Stop (?s\<lparr>sv_cm := cm\<rparr>) w1 = (q, s2, w2)" by (metis prod_cases3)
    have q: "q = Ok ()" using st by (auto simp: sv_Stop_def Let_def split: if_splits)
    let ?c2 = "c\<lparr>pk_heap := (pk_heap c)[i := s2], pk_world := w2\<rparr>"
    let ?c3 = "c\<lparr>pk_heap := (pk_heap c)[i := s2], pk_world := w2, pk_server := None\<rparr>"
    have v3: "view ?c3 = (view c)\<lparr>ap_server := None\<rparr>" "ref_ok ?c3" by (simp_all add: view_def ref_ok_def)
    obtain c' where c': "ends_in E (Called (CallStart ro wo)) ?c3 (fst (doStart E ro wo (view ?c3) w2)) c'"
      "(view c', pk_world c') = snd (doStart E ro wo (view ?c3) w2)" "ref_ok c'"
      using ends_critical [OF v3(2), of E "Called (CallStart ro wo)" "doStart E ro wo"] by auto
    have 2: "call_step E (Rotating i ro wo) c = (Restarting i ro wo, ?c1)"
      using r Ok by (simp add: on_server_def)
    have 3: "call_step E (Restarting i ro wo) ?c1 = (Forgetting ro wo, ?c2)"
      using st q i by (simp add: on_server_def)
    have 4: "call_step E (Forgetting ro wo) ?c2 = (Called (CallStart ro wo), ?c3)" by simp
    from 1 [OF ends_step [OF 2 ends_step [OF 3 ends_step [OF 4 c'(1)]]]] c'(2,3) v3 r Ok st Some
    show ?thesis by (intro exI [of _ c']) (simp add: doRotate_def)
  next
    case (Err e)
    have "call_step E (Rotating i ro wo) c = (Returned (Err e), ?c1)" using r Err by (simp add: on_server_def)
    from 1 [OF ends_now [OF this]] v1 r Err Some show ?thesis
      by (intro exI [of _ ?c1]) (simp add: doRotate_def)
  next
    case (Panic x)
    have "call_step E (Rotating i ro wo) c = (Returned (Panic x), ?c1)" using r Panic by (simp add: on_server_def)
    from 1 [OF ends_now [OF this]] v1 r Panic Some show ?thesis
      by (intro exI [of _ ?c1]) (simp add: doRotate_def)
  qed
qed

lemma alone_on_server:
  assumes "ref_ok c" and "pk_server c = Some i"
    and "call_step E p c = (Returned (Ok ()), snd (on_server i (\<lambda>s w. ((), f s w)) c))"
  shows "\<exists>c'. ends_in E p c (Ok ()) c' \<and> ref_ok c' \<and>
    (view c', pk_world c') = (case f (pk_heap c ! i) (pk_world c) of (s, w) \<Rightarrow> ((view c)\<lparr>ap_server := Some s\<rparr>, w))"
proof -
  obtain s w where f: "f (pk_heap c ! i) (pk_world c) = (s, w)" by (metis surj_pair)
  let ?c' = "c\<lparr>pk_heap := (pk_heap c)[i := s], pk_world := w\<rparr>"
  have "i < length (pk_heap c)" using assms(1,2) by (simp add: ref_ok_def)
  moreover have "ends_in E p c (Ok ()) ?c'"
    using assms(3) f by (intro ends_now) (simp add: on_server_def)
  ultimately show ?thesis
    using f assms(2) by (intro exI [of _ ?c']) (simp add: ref_ok_def view_def)
qed

lemma alone_call_ends:
  "\<exists>c'. ends_in E (Called x) (pkg_of a w) (fst (alone_call E x a w)) c' \<and>
     (view c', pk_world c') = snd (alone_call E x a w) \<and> ref_ok c'"
proof -
  let ?c = "pkg_of a w"
  have s: "pk_server ?c = Some 0 \<and> pk_heap ?c = [the (ap_server a)]" if "ap_server a \<noteq> None"
    using that by (auto simp: pkg_of_def)
  have n: "pk_server ?c = None \<and> pk_heap ?c = []" if "ap_server a = None"
    using that by (simp add: pkg_of_def)
  note crit = ends_critical [OF view_pkg_of(3) [of a w]]
  show ?thesis
  proof (cases x)
    case (CallInit dir)
    with crit [of E "Called x" "\<lambda>a w. case doInit dir a of (r, a1) \<Rightarrow> (r, a1, w)"] show ?thesis by simp
  next
    case (CallStart ro wo)
    with crit [of E "Called x" "doStart E ro wo"] show ?thesis by simp
  next
    case CallStop
    with alone_Stop [of E ?c] show ?thesis by (simp add: doStop_eq Let_def)
  next
    case (CallRotate ro wo)
    with alone_Rotate [OF view_pkg_of(3), of E ro wo a w] show ?thesis by simp
  next
    case (CallSetDevice p)
    with crit [of E "Called x" "\<lambda>a w. (Ok (), doSetDevicePath p a, w)"] show ?thesis by simp
  next
    case (CallObserver obs)
    with crit [of E "Called x" "\<lambda>a w. (Ok (), doRegisterLogObserver obs a, w)"] show ?thesis by simp
  next
    case (Arrival i order q)
    show ?thesis
    proof (cases "i = 0 \<and> ap_server a \<noteq> None")
      case True
      with Arrival alone_on_server [OF view_pkg_of(3), of a w 0 E "Called x" "\<lambda>s w. serve_arrival E (order, q) (s, w)"] s
      show ?thesis by (auto split: prod.splits)
    next
      case False
      then have "i < length (pk_heap ?c) \<longrightarrow> False" using s n by (cases "ap_server a") auto
      then have "call_step E (Called x) ?c = (Returned (Ok ()), ?c)" using Arrival by simp
      with Arrival False ends_now [OF this] show ?thesis by (intro exI [of _ ?c]) auto
    qed
  next
    case (Callback i)
    show ?thesis
    proof (cases "i = 0 \<and> ap_server a \<noteq> None")
      case True
      with Callback alone_on_server [OF view_pkg_of(3), of a w 0 E "Called x" "\<lambda>s w. rotate_callback s w"] s
      show ?thesis by (auto split: prod.splits)
    next
      case False
      then have "i < length (pk_heap ?c) \<longrightarrow> False" using s n by (cases "ap_server a") auto
      then have "call_step E (Called x) ?c = (Returned (Ok ()), ?c)" using Callback by simp
      with Callback False ends_now [OF this] show ?thesis by (intro exI [of _ ?c]) auto
    qed
  qed
qed

section \<open>What the servers hold\<close>

definition srv_ok :: "Server \<Rightarrow> bool" where
  "srv_ok s \<longleftrightarrow> (sv_running s \<longleftrightarrow> sv_srv s \<noteq> None) \<and> (sv_mdns s \<noteq> None \<longrightarrow> sv_srv s \<noteq> None)"

text \<open>Beside those of the base, exactly what the servers of the heap hold is open and advertised.\<close>

definition heap_ok :: "nat list \<Rightarrow> string list list \<Rightarrow> Server list \<Rightarrow> world \<Rightarrow> bool" where
  "heap_ok L A h w \<longleftrightarrow> list_all srv_ok h \<and>
     mset (open_listeners (hist w)) = mset (concat (map held_listener h)) + mset L \<and>
     mset (adverts (hist w)) = mset (concat (map held_advert h)) + mset A"

lemma heap_same_net: "same_net w w' \<Longrightarrow> heap_ok L A h w' = heap_ok L A h w"
  by (simp add: heap_ok_def same_net_def)

lemma heap_update:
  assumes "heap_ok L A h w" and "i < length h" and "srv_ok s"
    and "mset (open_listeners (hist w')) + mset (held_listener (h ! i)) =
      mset (open_listeners (hist w)) + mset (held_listener s)"
    and "mset (adverts (hist w')) + mset (held_advert (h ! i)) = mset (adverts (hist w)) + mset (held_advert s)"
  shows "heap_ok L A (h[i := s]) w'"
proof -
  have "mset (open_listeners (hist w')) + mset (held_listener (h ! i)) =
      mset (concat (map held_listener (h[i := s]))) + mset L + mset (held_listener (h ! i))"
    using assms(1,4) mset_concat_update [OF assms(2), of held_listener s]
    by (simp add: heap_ok_def ac_simps)
  moreover have "mset (adverts (hist w')) + mset (held_advert (h ! i)) =
      mset (concat (map held_advert (h[i := s]))) + mset A + mset (held_advert (h ! i))"
    using assms(1,5) mset_concat_update [OF assms(2), of held_advert s]
    by (simp add: heap_ok_def ac_simps)
  moreover have "list_all srv_ok (h[i := s])"
    using assms(1-3) by (auto simp: heap_ok_def list_all_length nth_list_update)
  ultimately show ?thesis by (simp add: heap_ok_def)
qed

lemma held_open:
  assumes "heap_ok L A h w" and "i < length h"
  shows "mset (held_listener (h ! i)) \<subseteq># mset (open_listeners (hist w))"
    and "mset (held_advert (h ! i)) \<subseteq># mset (adverts (hist w))"
proof -
  have h: "h = take i h @ h ! i # drop (Suc i) h" by (rule id_take_nth_drop [OF assms(2)])
  have "mset (held_listener (h ! i)) \<subseteq># mset (concat (map held_listener h))"
    and "mset (held_advert (h ! i)) \<subseteq># mset (concat (map held_advert h))"
    by (subst (2) h, simp)+
  with assms(1) show "mset (held_listener (h ! i)) \<subseteq># mset (open_listeners (hist w))"
    and "mset (held_advert (h ! i)) \<subseteq># mset (adverts (hist w))"
    by (auto simp: heap_ok_def intro: subset_mset.add_increasing2)
qed

lemma Stop_effect:
  assumes "srv_ok s" and "sv_Stop s w = (r, s', w')"
    and "mset (held_listener s) \<subseteq># mset (open_listeners (hist w))"
    and "mset (held_advert s) \<subseteq># mset (adverts (hist w))"
  shows "srv_ok s' \<and> sv_srv s' = None \<and> \<not> sv_running s' \<and> held_listener s' = [] \<and> held_advert s' = [] \<and>
    mset (open_listeners (hist w')) + mset (held_listener s) = mset (open_listeners (hist w)) \<and>
    mset (adverts (hist w')) + mset (held_advert s) = mset (adverts (hist w))"
  using assms
  by (auto simp: srv_ok_def sv_Stop_def held_listener_def held_advert_def grpc_Stop_def
      close_listener_def mdns_Unregister_def zeroconf_Shutdown_def Let_def
      split: if_splits option.splits)

lemma stop_heap:
  assumes "heap_ok L A h w" and "i < length h" and "sv_Stop (h ! i) w = (r, s', w')"
  shows "heap_ok L A (h[i := s']) w' \<and> sv_srv s' = None"
proof -
  have "srv_ok (h ! i)" using assms(1,2) by (simp add: heap_ok_def list_all_length)
  from Stop_effect [OF this assms(3) held_open [OF assms(1,2)]] heap_update [OF assms(1,2), of s' w']
  show ?thesis by simp
qed

lemma arrival_heap:
  assumes "heap_ok L A h w" and "i < length h" and "serve_arrival E op (h ! i, w) = (s', w')"
  shows "heap_ok L A (h[i := s']) w' \<and> (sv_srv s' = None \<longleftrightarrow> sv_srv (h ! i) = None)"
proof -
  let ?s = "h ! i"
  obtain cm m st where e: "serve_arrival E op (?s, w) = (?s\<lparr>sv_cm := cm,
      sv_srv := (case sv_srv ?s of None \<Rightarrow> None | Some g \<Rightarrow> Some (g\<lparr>gs_service := m\<rparr>))\<rparr>, st)"
    "drew (if draws op then 1 else 0) w st"
    by (rule arrival_effect [of E op ?s w])
  have w: "w' = st" "sv_running s' = sv_running ?s" "sv_mdns s' = sv_mdns ?s"
    "sv_srv s' = None \<longleftrightarrow> sv_srv ?s = None" "held_listener s' = held_listener ?s"
    using e(1) assms(3) by (auto simp: held_listener_def split: option.split)
  have "srv_ok ?s" using assms(1,2) by (simp add: heap_ok_def list_all_length)
  with w have "srv_ok s'" by (simp add: srv_ok_def)
  moreover have "held_advert s' = held_advert ?s" using w(3) by (simp add: held_advert_def)
  ultimately show ?thesis
    using heap_update [OF assms(1,2), of s' w'] drew_keeps [OF e(2)] w by simp
qed

lemma callback_heap:
  assumes "heap_ok L A h w" and "i < length h" and "rotate_callback (h ! i) w = (s', w')"
  shows "heap_ok L A (h[i := s']) w' \<and> sv_srv s' = None"
proof -
  let ?s = "h ! i"
  let ?s1 = "if sv_rotateReq ?s < 1 then ?s\<lparr>sv_rotateReq := Suc (sv_rotateReq ?s)\<rparr> else ?s"
  obtain r where st: "sv_Stop ?s1 w = (r, s', w')"
    using assms(3) unfolding rotate_callback_def Let_def by (metis prod.collapse)
  have eq: "held_listener ?s1 = held_listener ?s" "held_advert ?s1 = held_advert ?s"
    "srv_ok ?s1 = srv_ok ?s"
    by (simp_all add: held_listener_def held_advert_def srv_ok_def)
  have "srv_ok ?s1" using assms(1,2) eq by (simp add: heap_ok_def list_all_length)
  from Stop_effect [OF this st] held_open [OF assms(1,2)] eq heap_update [OF assms(1,2), of s' w']
  show ?thesis by simp
qed

text \<open>What \<open>Init\<close> has set up is there.\<close>

definition set_up :: "app \<Rightarrow> bool" where
  "set_up a \<longleftrightarrow> (ap_inited a \<longrightarrow> ap_filesDir a \<noteq> [] \<and> ap_asvc a \<and> ap_logBuf a \<and> ap_fanout a)"

text \<open>
  An operation under the mutex keeps the server or, when there was none, may add a new one, which is
  then the current one.
\<close>

definition tame :: "app \<Rightarrow> world \<Rightarrow> app \<Rightarrow> world \<Rightarrow> bool" where
  "tame a w a' w' \<longleftrightarrow>
     (case ap_server a of
        Some s \<Rightarrow> ap_server a' = Some s \<and> same_net w w'
      | None \<Rightarrow>
          (case ap_server a' of
             None \<Rightarrow> same_net w w'
           | Some s \<Rightarrow> server_inv (open_listeners (hist w)) (adverts (hist w)) (s, w')))"

lemma doStart_tame:
  assumes "doStart E ro wo a w = (r, a', w')" and "set_up a"
  shows "tame a w a' w' \<and> set_up a'"
proof (cases "ap_server a")
  case None
  then have "app_inv (open_listeners (hist w)) (adverts (hist w)) (a, w)"
    using assms(2) by (simp add: app_inv_def set_up_def)
  from doStart_inv [OF this assms(1)] None show ?thesis
    by (auto simp: app_inv_def tame_def set_up_def same_net_def split: option.splits)
next
  case (Some s)
  then have "a' = a" "w' = w" using assms(1) by (auto simp: doStart_def split: if_splits)
  with Some assms(2) show ?thesis by (simp add: tame_def)
qed

lemma put_back_tame:
  assumes "tame (view c) (pk_world c) a' w'" and "ref_ok c" and "heap_ok L A (pk_heap c) (pk_world c)"
  shows "heap_ok L A (pk_heap (put_back a' w' c)) w' \<and>
    (\<forall>j. pk_server c = Some j \<longrightarrow> pk_server (put_back a' w' c) = Some j) \<and>
    (pk_heap (put_back a' w' c) = pk_heap c \<or>
     (\<exists>s. pk_heap (put_back a' w' c) = pk_heap c @ [s] \<and> pk_server (put_back a' w' c) = Some (length (pk_heap c))))"
proof (cases "pk_server c")
  case (Some i)
  then have "ap_server a' = Some (pk_heap c ! i)" "same_net (pk_world c) w'"
    using assms(1) by (simp_all add: tame_def)
  with Some assms(3) show ?thesis by (simp add: put_back_def Let_def heap_same_net)
next
  case None
  show ?thesis
  proof (cases "ap_server a'")
    case n: None
    then have "same_net (pk_world c) w'" using None assms(1) by (simp add: tame_def)
    with None n assms(3) show ?thesis by (simp add: put_back_def Let_def heap_same_net)
  next
    case (Some s)
    then have "server_inv (open_listeners (hist (pk_world c))) (adverts (hist (pk_world c))) (s, w')"
      using None assms(1) by (simp add: tame_def)
    with assms(3) have "heap_ok L A (pk_heap c @ [s]) w'"
      by (auto simp: server_inv_def heap_ok_def srv_ok_def ac_simps)
    with None Some show ?thesis by (simp add: put_back_def Let_def)
  qed
qed

section \<open>Starts and stops together\<close>

text \<open>Not part of a rotation.\<close>

fun no_rotation :: "call_pc \<Rightarrow> bool" where
  "no_rotation (Called (CallRotate ro wo)) = False"
| "no_rotation (Rotating i ro wo) = False"
| "no_rotation (Restarting i ro wo) = False"
| "no_rotation (Forgetting ro wo) = False"
| "no_rotation p = True"

fun pc_refs :: "call_pc \<Rightarrow> nat set" where
  "pc_refs (Stopping (Some i) d) = {i}"
| "pc_refs p = {}"

definition served_by :: "pkg \<Rightarrow> nat set" where
  "served_by c = {j. j < length (pk_heap c) \<and> sv_srv (pk_heap c ! j) \<noteq> None}"

text \<open>A server that still serves is the current one, or a \<open>Stop\<close> on its way will stop it.\<close>

definition pkg_inv :: "nat list \<Rightarrow> string list list \<Rightarrow> call_pc list \<times> pkg \<Rightarrow> bool" where
  "pkg_inv L A pc \<longleftrightarrow>
     (case pc of (ps, c) \<Rightarrow>
        list_all no_rotation ps \<and> ref_ok c \<and> set_up (pk_vars c) \<and>
        \<Union> (pc_refs ` set ps) \<subseteq> {..< length (pk_heap c)} \<and>
        heap_ok L A (pk_heap c) (pk_world c) \<and>
        served_by c \<subseteq> set_option (pk_server c) \<union> \<Union> (pc_refs ` set ps))"

text \<open>What one step does, for the others: no serving server is lost, none but the current one is new.\<close>

definition keeps_track :: "nat list \<Rightarrow> string list list \<Rightarrow> call_pc \<Rightarrow> pkg \<Rightarrow> call_pc \<times> pkg \<Rightarrow> bool" where
  "keeps_track L A p c r \<longleftrightarrow>
     no_rotation (fst r) \<and> ref_ok (snd r) \<and> set_up (pk_vars (snd r)) \<and>
     length (pk_heap c) \<le> length (pk_heap (snd r)) \<and>
     pc_refs (fst r) \<subseteq> {..< length (pk_heap (snd r))} \<and>
     heap_ok L A (pk_heap (snd r)) (pk_world (snd r)) \<and>
     served_by (snd r) \<subseteq> served_by c \<union> set_option (pk_server (snd r)) \<and>
     served_by (snd r) \<inter> (set_option (pk_server c) \<union> pc_refs p) \<subseteq> set_option (pk_server (snd r)) \<union> pc_refs (fst r)"

lemma critical_keeps:
  assumes "tame (view c) (pk_world c) a' w' \<and> set_up a'" and "ref_ok c"
    and "heap_ok L A (pk_heap c) (pk_world c)" and "pc_refs p = {}"
  shows "keeps_track L A p c (Returned r, put_back a' w' c)"
proof -
  let ?c = "put_back a' w' c"
  note t = put_back_tame [OF _ assms(2,3), of a' w']
  have "served_by ?c \<subseteq> served_by c \<union> set_option (pk_server ?c)"
    using t assms(1) by (auto simp: served_by_def nth_append)
  moreover have "set_option (pk_server c) \<subseteq> set_option (pk_server ?c)" using t assms(1) by auto
  moreover have "set_up (pk_vars ?c)"
    using assms(1) by (simp add: put_back_def Let_def split: option.split)
  moreover have "length (pk_heap c) \<le> length (pk_heap ?c)" using t assms(1) by auto
  ultimately show ?thesis
    using assms t unfolding keeps_track_def by auto
qed

lemma on_server_keeps:
  assumes "heap_ok L A ((pk_heap c)[i := s]) w" and "i < length (pk_heap c)"
    and "sv_srv s \<noteq> None \<longrightarrow> sv_srv (pk_heap c ! i) \<noteq> None" and "ref_ok c" and "set_up (pk_vars c)"
    and "no_rotation p'" and "pc_refs p' = {}" and "pc_refs p \<subseteq> {i}" and "pc_refs p = {} \<or> sv_srv s = None"
  shows "keeps_track L A p c (p', c\<lparr>pk_heap := (pk_heap c)[i := s], pk_world := w\<rparr>)"
proof -
  let ?c = "c\<lparr>pk_heap := (pk_heap c)[i := s], pk_world := w\<rparr>"
  have "served_by ?c \<subseteq> served_by c" and "pc_refs p = {} \<or> i \<notin> served_by ?c"
    using assms(2,3,9) by (auto simp: served_by_def nth_list_update split: if_splits)
  with assms show ?thesis by (auto simp: keeps_track_def)
qed

lemma quiet_keeps:
  assumes "same_net (pk_world c) w" and "heap_ok L A (pk_heap c) (pk_world c)" and "ref_ok c"
    and "set_up (pk_vars c)" and "pc_refs p = {}" and "no_rotation p'" and "pc_refs p' = {}"
  shows "keeps_track L A p c (p', c\<lparr>pk_world := w\<rparr>)"
  using assms by (auto simp: keeps_track_def served_by_def heap_same_net [OF assms(1)])

lemma step_keeps:
  assumes inv: "ref_ok c" "set_up (pk_vars c)" "heap_ok L A (pk_heap c) (pk_world c)"
    and p: "no_rotation p" "pc_refs p \<subseteq> {..< length (pk_heap c)}"
  shows "keeps_track L A p c (call_step E p c)"
proof -
  have v: "set_up (view c)" using inv(2) by (simp add: set_up_def)
  have crit: "keeps_track L A (Called x) c (returns (critical f c))"
    if "\<And>r a' w'. f (view c) (pk_world c) = (r, a', w') \<Longrightarrow> tame (view c) (pk_world c) a' w' \<and> set_up a'" for x f
    using that critical_keeps [OF _ inv(1,3), of _ _ "Called x"]
    by (auto simp: returns_def critical_def split: prod.split)
  have vars: "tame (view c) (pk_world c) a' (pk_world c)" if "ap_server a' = ap_server (view c)" for a'
    using that by (simp add: tame_def split: option.split)
  have skip: "keeps_track L A p c (Returned r, c)" if "pc_refs p = {}" for r
    using quiet_keeps [OF same_net_refl inv(3,1,2) that, of "Returned r"] by simp
  show ?thesis
  proof (cases p)
    case (Called x)
    show ?thesis
    proof (cases x)
      case (CallInit dir)
      have "tame (view c) (pk_world c) (snd (doInit dir (view c))) (pk_world c) \<and> set_up (snd (doInit dir (view c)))"
        using v by (auto simp: doInit_def startObserverFanout_def set_up_def Let_def intro!: vars)
      then show ?thesis
        unfolding Called CallInit call_step.simps by (intro crit) (auto split: prod.splits)
    next
      case (CallStart ro wo)
      show ?thesis
        unfolding Called CallStart call_step.simps by (rule crit) (rule doStart_tame [OF _ v])
    next
      case CallStop
      have "ref_ok c \<Longrightarrow> pk_server c = Some j \<Longrightarrow> j < length (pk_heap c)" for j by (simp add: ref_ok_def)
      with inv Called CallStop show ?thesis
        by (cases "pk_server c") (auto simp: keeps_track_def served_by_def ref_ok_def set_up_def)
    next
      case (CallRotate ro wo)
      with p Called show ?thesis by simp
    next
      case (CallSetDevice d)
      show ?thesis
        unfolding Called CallSetDevice call_step.simps
        using v by (intro crit) (auto simp: doSetDevicePath_def set_up_def intro!: vars)
    next
      case (CallObserver obs)
      show ?thesis
        unfolding Called CallObserver call_step.simps
        using v by (intro crit) (auto simp: doRegisterLogObserver_def set_up_def intro!: vars)
    next
      case (Arrival i order q)
      obtain s w where e: "serve_arrival E (order, q) (pk_heap c ! i, pk_world c) = (s, w)" by (metis surj_pair)
      show ?thesis
      proof (cases "i < length (pk_heap c)")
        case True
        from arrival_heap [OF inv(3) True e]
        have "keeps_track L A p c (Returned (Ok ()), c\<lparr>pk_heap := (pk_heap c)[i := s], pk_world := w\<rparr>)"
          using Called inv True by (intro on_server_keeps) auto
        with True Called Arrival e show ?thesis by (simp add: on_server_def)
      next
        case False
        with skip Called Arrival show ?thesis by simp
      qed
    next
      case (Callback i)
      obtain s w where e: "rotate_callback (pk_heap c ! i) (pk_world c) = (s, w)" by (metis surj_pair)
      show ?thesis
      proof (cases "i < length (pk_heap c)")
        case True
        from callback_heap [OF inv(3) True e]
        have "keeps_track L A p c (Returned (Ok ()), c\<lparr>pk_heap := (pk_heap c)[i := s], pk_world := w\<rparr>)"
          using Called inv True by (intro on_server_keeps) auto
        with True Called Callback e show ?thesis by (simp add: on_server_def)
      next
        case False
        with skip Called Callback show ?thesis by simp
      qed
    qed
  next
    case (Stopping srv d)
    show ?thesis
    proof (cases srv)
      case None
      with quiet_keeps [OF same_net_refl inv(3,1,2), of p "Lowering d"] Stopping show ?thesis by simp
    next
      case (Some i)
      obtain r s w where e: "sv_Stop (pk_heap c ! i) (pk_world c) = (r, s, w)" by (metis prod_cases3)
      have i: "i < length (pk_heap c)" using p(2) Stopping Some by simp
      from stop_heap [OF inv(3) i e]
      have "keeps_track L A p c (Lowering d, c\<lparr>pk_heap := (pk_heap c)[i := s], pk_world := w\<rparr>)"
        using Stopping Some inv i by (intro on_server_keeps) auto
      with Stopping Some e show ?thesis by (simp add: on_server_def)
    qed
  next
    case (Lowering d)
    let ?w = "snd (asvc_set E False (pk_world c))"
    have "same_net (pk_world c) ?w" by (rule quietD(2) [OF asvc_quiet [OF surjective_pairing]])
    from quiet_keeps [OF this inv(3,1,2), of p "Closing d"] quiet_keeps [OF same_net_refl inv(3,1,2), of p "Closing d"]
    show ?thesis using Lowering by simp
  next
    case (Closing d)
    from quiet_keeps [OF close_display_net inv(3,1,2), of p "Returned (Ok ())"] Closing show ?thesis by simp
  next
    case (Returned r)
    with skip show ?thesis by simp
  qed (use p in simp_all)
qed

lemma refs_update:
  assumes "i < length ps"
  shows "\<Union> (pc_refs ` set ps) \<subseteq> pc_refs (ps ! i) \<union> \<Union> (pc_refs ` set (ps[i := p]))"
    and "\<Union> (pc_refs ` set (ps[i := p])) \<subseteq> pc_refs p \<union> \<Union> (pc_refs ` set ps)"
    and "pc_refs p \<subseteq> \<Union> (pc_refs ` set (ps[i := p]))"
proof -
  have "q = ps ! i \<or> q \<in> set (ps[i := p])" if "q \<in> set ps" for q
    using that assms by (metis in_set_conv_nth length_list_update nth_list_update_neq)
  then show "\<Union> (pc_refs ` set ps) \<subseteq> pc_refs (ps ! i) \<union> \<Union> (pc_refs ` set (ps[i := p]))" by auto
  show "\<Union> (pc_refs ` set (ps[i := p])) \<subseteq> pc_refs p \<union> \<Union> (pc_refs ` set ps)"
    using set_update_subset_insert [of ps i p] by blast
  show "pc_refs p \<subseteq> \<Union> (pc_refs ` set (ps[i := p]))"
    using set_update_memI [OF assms, of p] by blast
qed

lemma track_sets:
  "S' \<subseteq> S \<union> C' \<Longrightarrow> S' \<inter> (C \<union> Q) \<subseteq> C' \<union> P \<Longrightarrow> S \<subseteq> C \<union> R \<Longrightarrow> R \<subseteq> Q \<union> R' \<Longrightarrow> P \<subseteq> R' \<Longrightarrow> S' \<subseteq> C' \<union> R'"
  by blast

interpretation calls: op_system "call_sched E" "pkg_inv L A" for E L A
proof unfold_locales
  fix pc i assume pc: "pkg_inv L A pc"
  obtain ps c where e: "pc = (ps, c)" by (metis surj_pair)
  have inv: "list_all no_rotation ps" "ref_ok c" "set_up (pk_vars c)"
    "\<Union> (pc_refs ` set ps) \<subseteq> {..< length (pk_heap c)}" "heap_ok L A (pk_heap c) (pk_world c)"
    "served_by c \<subseteq> set_option (pk_server c) \<union> \<Union> (pc_refs ` set ps)"
    using pc by (simp_all add: pkg_inv_def e)
  show "pkg_inv L A (call_sched E i pc)"
  proof (cases "i < length ps")
    case False
    with pc show ?thesis by (simp add: e)
  next
    case True
    obtain p c' where st: "call_step E (ps ! i) c = (p, c')" by (metis surj_pair)
    have "no_rotation (ps ! i)" using inv(1) True by (simp add: list_all_length)
    moreover have "pc_refs (ps ! i) \<subseteq> {..< length (pk_heap c)}"
      using inv(4) nth_mem [OF True] by blast
    ultimately have k: "keeps_track L A (ps ! i) c (p, c')"
      using step_keeps [OF inv(2,3,5), of "ps ! i" E] st by simp
    note r = refs_update [OF True, of p]
    have "list_all no_rotation (ps[i := p])"
      using inv(1) k True by (auto simp: keeps_track_def list_all_length nth_list_update)
    moreover have "\<Union> (pc_refs ` set (ps[i := p])) \<subseteq> {..< length (pk_heap c')}"
    proof -
      have "\<Union> (pc_refs ` set ps) \<subseteq> {..< length (pk_heap c')}" "pc_refs p \<subseteq> {..< length (pk_heap c')}"
        using inv(4) k by (auto simp: keeps_track_def)
      with r(2) show ?thesis by blast
    qed
    moreover have "served_by c' \<subseteq> served_by c \<union> set_option (pk_server c')"
      "served_by c' \<inter> (set_option (pk_server c) \<union> pc_refs (ps ! i)) \<subseteq> set_option (pk_server c') \<union> pc_refs p"
      using k by (simp_all add: keeps_track_def)
    from track_sets [OF this inv(6) r(1,3)]
    have "served_by c' \<subseteq> set_option (pk_server c') \<union> \<Union> (pc_refs ` set (ps[i := p]))" .
    ultimately show ?thesis using k True st by (simp add: pkg_inv_def e keeps_track_def)
  qed
qed

section \<open>When all calls have returned\<close>

lemma concat_single:
  assumes "\<And>j. j < length xs \<Longrightarrow> i \<noteq> Some j \<Longrightarrow> f (xs ! j) = []"
    and "\<And>j. i = Some j \<Longrightarrow> j < length xs"
  shows "mset (concat (map f xs)) = mset (case i of None \<Rightarrow> [] | Some j \<Rightarrow> f (xs ! j))"
proof (cases i)
  case None
  then have "\<forall>x \<in> set xs. f x = []" using assms(1) by (auto simp: in_set_conv_nth)
  with None show ?thesis by (induction xs) simp_all
next
  case (Some j)
  have j: "j < length xs" using assms(2) Some by simp
  let ?r = "replicate (length xs) ([] :: 'b list)"
  have "map f xs = ?r[j := f (xs ! j)]"
    using assms(1) Some j by (intro nth_equalityI) (auto simp: nth_list_update)
  moreover have "mset (concat (map id (?r[j := f (xs ! j)]))) + mset (id (?r ! j)) =
      mset (concat (map id ?r)) + mset (id (f (xs ! j)))"
    using j by (intro mset_concat_update) simp
  ultimately show ?thesis using Some j by simp
qed

lemma unserved: "srv_ok s \<Longrightarrow> sv_srv s = None \<Longrightarrow> held_listener s = [] \<and> held_advert s = []"
  by (simp add: srv_ok_def held_listener_def held_advert_def)

text \<open>When only the current server serves, nothing else is open or advertised beside the base.\<close>

lemma current_only:
  assumes "heap_ok L A (pk_heap c) w" and "served_by c \<subseteq> set_option (pk_server c)" and "ref_ok c"
  shows "mset (open_listeners (hist w)) =
      mset (case ap_server (view c) of None \<Rightarrow> [] | Some s \<Rightarrow> held_listener s) + mset L"
    and "mset (adverts (hist w)) = mset (case ap_server (view c) of None \<Rightarrow> [] | Some s \<Rightarrow> held_advert s) + mset A"
proof -
  have h: "held_listener (pk_heap c ! j) = [] \<and> held_advert (pk_heap c ! j) = []"
    if "j < length (pk_heap c)" "pk_server c \<noteq> Some j" for j
    using that assms(1,2) unserved [of "pk_heap c ! j"] by (auto simp: heap_ok_def list_all_length served_by_def)
  have b: "pk_server c = Some j \<Longrightarrow> j < length (pk_heap c)" for j using assms(3) by (simp add: ref_ok_def)
  show "mset (open_listeners (hist w)) =
      mset (case ap_server (view c) of None \<Rightarrow> [] | Some s \<Rightarrow> held_listener s) + mset L"
    using concat_single [of "pk_heap c" "pk_server c" held_listener] h b assms(1)
    by (cases "pk_server c") (simp_all add: heap_ok_def)
  show "mset (adverts (hist w)) = mset (case ap_server (view c) of None \<Rightarrow> [] | Some s \<Rightarrow> held_advert s) + mset A"
    using concat_single [of "pk_heap c" "pk_server c" held_advert] h b assms(1)
    by (cases "pk_server c") (simp_all add: heap_ok_def)
qed

lemma start_of_calls:
  "list_all (\<lambda>x. no_rotation (Called x)) calls \<Longrightarrow>
     pkg_inv (open_listeners (hist w)) (adverts (hist w)) (map Called calls, pkg_of initial_app w)"
  by (auto simp: pkg_inv_def pkg_of_def initial_app_def set_up_def heap_ok_def served_by_def ref_ok_def
      list_all_iff)

lemma all_returned: "list_all is_returned ps \<Longrightarrow> \<Union> (pc_refs ` set ps) = {}"
proof -
  have "is_returned p \<Longrightarrow> pc_refs p = {}" for p by (cases p) simp_all
  then show "list_all is_returned ps \<Longrightarrow> \<Union> (pc_refs ` set ps) = {}" by (auto simp: list_all_iff)
qed

lemma stop_current:
  assumes "heap_ok L A (pk_heap c) (pk_world c)" and "served_by c \<subseteq> set_option (pk_server c)" and "ref_ok c"
    and "doStop E (view c) (pk_world c) = (r, a', w')"
  shows "mset (open_listeners (hist w')) = mset L \<and> mset (adverts (hist w')) = mset A"
proof -
  obtain w2 where w: "quiet (stop_server (ap_server (view c)) (pk_world c)) w2"
      "w' = close_display E (ap_display (view c)) w2"
    using doStop_stages [of "view c" "pk_world c" E] assms(4) by auto
  have net: "same_net (stop_server (ap_server (view c)) (pk_world c)) w'"
    using quietD(2) [OF w(1)] close_display_net [of w2] w(2) by (simp add: same_net_def)
  have "mset (open_listeners (hist (stop_server (ap_server (view c)) (pk_world c)))) = mset L \<and>
      mset (adverts (hist (stop_server (ap_server (view c)) (pk_world c)))) = mset A"
  proof (cases "pk_server c")
    case None
    then show ?thesis using current_only [OF assms(1-3)] by (simp add: stop_server_def)
  next
    case (Some i)
    have i: "i < length (pk_heap c)" using Some assms(3) by (simp add: ref_ok_def)
    obtain q s w1 where st: "sv_Stop (pk_heap c ! i) (pk_world c) = (q, s, w1)" by (metis prod_cases3)
    let ?c = "c\<lparr>pk_heap := (pk_heap c)[i := s], pk_server := None\<rparr>"
    note h = stop_heap [OF assms(1) i st]
    have "served_by ?c \<subseteq> {}"
      using assms(2) Some h i by (auto simp: served_by_def nth_list_update split: if_splits)
    with h current_only [of L A ?c w1] Some st show ?thesis
      by (simp add: stop_server_def ref_ok_def)
  qed
  with net show ?thesis by (simp add: same_net_def)
qed

section \<open>Calls that get in each other's way\<close>

lemma Stop_result: "sv_Stop s w = (r, s', w') \<Longrightarrow> r = Ok () \<and> \<not> sv_running s'"
  by (auto simp: sv_Stop_def Let_def split: if_splits)

lemma Stop_again: "\<not> sv_running s \<Longrightarrow> sv_Stop s w = (Ok (), s\<lparr>sv_srv := None, sv_mdns := None\<rparr>, w)"
  by (simp add: sv_Stop_def Let_def)

text \<open>Whether the foreground service is up, by its last command.\<close>

fun foreground :: "hist \<Rightarrow> bool" where
  "foreground [] = False"
| "foreground (EvForeground on # h) = on"
| "foreground (ev # h) = foreground h"

lemma foreground_asvc: "foreground (hist (snd (asvc_set E on w))) = on"
  by (simp add: asvc_set_def)

lemma foreground_close: "foreground (hist (close_display E d w)) = foreground (hist w)"
  by (auto simp: close_display_def display_Close_def sys_close_def Let_def split: option.split)

text \<open>A start that does succeed leaves a running server with a listener, and the service up.\<close>

lemma doStart_running:
  assumes "doStart E ro wo a w = (Ok (), a', w')" and "ap_server a = None"
  shows "\<exists>s l. ap_server a' = Some s \<and> sv_running s \<and> held_listener s = [l] \<and> foreground (hist w')"
  using assms(1)
proof (cases rule: doStart_cases)
  case noop
  with assms show ?thesis by (auto simp: doStart_def split: if_splits)
next
  case (starts d w1 srv w2 srv1 w3)
  have "ap_server a' = Some srv1 \<and> foreground (hist w')"
    using starts(6) foreground_asvc [of E True w3]
    by (auto simp: start_foreground_def Let_def split: prod.splits option.splits)
  moreover have "sv_running srv1 \<and> (\<exists>l. held_listener srv1 = [l])"
    using starts(5)
  proof (cases rule: Start_cases)
    case (starts g s2 w2' l s3)
    then show ?thesis using start_mdns_quiet [OF starts(5)] by (auto simp: held_listener_def)
  qed simp
  ultimately show ?thesis by auto
qed simp

lemma rotate_ok:
  "obliging E \<Longrightarrow> \<exists>cm' w'. cm_Rotate E wo cm w = (Ok (), cm', w')"
  using rotate_obliging by blast

lemma pkg_of_running:
  "ap_server a = Some s \<Longrightarrow> pkg_of a w = \<lparr>pk_vars = a, pk_server = Some 0, pk_heap = [s], pk_world = w\<rparr>"
  by (simp add: pkg_of_def)

lemma stop_then_rotate:
  assumes "hospitable E" and "ap_inited a" and "ap_filesDir a \<noteq> []" and "ap_server a = Some s"
  shows "\<exists>c. call_run E [1, 0, 0, 0, 0, 1, 1, 1, 1] [CallStop, CallRotate ro wo] (pkg_of a w) =
    ([Returned (Ok ()), Returned (Ok ())], c) \<and> doIsRunning (view c)"
proof -
  obtain q s1 w1 where s1: "sv_Stop s w = (q, s1, w1)" by (metis prod_cases3)
  let ?w2 = "if ap_asvc a then snd (asvc_set E False w1) else w1"
  let ?w3 = "close_display E (ap_display a) ?w2"
  obtain cm w4 where cm: "cm_Rotate E wo (sv_cm s1) ?w3 = (Ok (), cm, w4)"
    using rotate_ok [OF hospitable_obliging [OF assms(1)]] by blast
  obtain q2 s2 w5 where s2: "sv_Stop (s1\<lparr>sv_cm := cm\<rparr>) w4 = (q2, s2, w5)" by (metis prod_cases3)
  let ?c = "\<lparr>pk_vars = a\<lparr>ap_display := None\<rparr>, pk_server = None, pk_heap = [s2], pk_world = w5\<rparr>"
  obtain a' w6 where st: "doStart E ro wo (view ?c) w5 = (Ok (), a', w6)" "doIsRunning a'"
    using start_works [OF assms(1), of "view ?c" ro wo w5] assms(2,3) by auto
  have "call_run E [1, 0, 0, 0, 0, 1, 1, 1, 1] [CallStop, CallRotate ro wo] (pkg_of a w) =
      ([Returned (Ok ()), Returned (Ok ())], put_back a' w6 ?c)"
    using s1 s2 cm st(1) Stop_result [OF s2]
    by (cases "ap_asvc a") (simp_all add: call_run_def pkg_of_running [OF assms(4)] on_server_def critical_def returns_def)
  moreover have "view (put_back a' w6 ?c) = a'" by (rule view_put_back) (simp add: ref_ok_def)
  ultimately show ?thesis using st(2) by simp
qed

lemma stop_around_start:
  assumes "hospitable E" and "ap_inited a" and "ap_filesDir a \<noteq> []" and "ap_server a = Some s" and "ap_asvc a"
  shows "\<exists>c. call_run E [0, 0, 1, 0, 0] [CallStop, CallStart ro wo] (pkg_of a w) =
    ([Returned (Ok ()), Returned (Ok ())], c) \<and> doIsRunning (view c) \<and> \<not> foreground (hist (pk_world c))"
proof -
  obtain q s1 w1 where s1: "sv_Stop s w = (q, s1, w1)" by (metis prod_cases3)
  let ?c = "\<lparr>pk_vars = a\<lparr>ap_display := None\<rparr>, pk_server = None, pk_heap = [s1], pk_world = w1\<rparr>"
  obtain a' w2 where st: "doStart E ro wo (view ?c) w1 = (Ok (), a', w2)" "doIsRunning a'"
    using start_works [OF assms(1), of "view ?c" ro wo w1] assms(2,3) by auto
  have asvc: "ap_asvc a'"
    using st(1) assms(5)
    by (cases rule: doStart_cases) (auto simp: start_foreground_def Let_def split: prod.splits option.splits)
  let ?c1 = "put_back a' w2 ?c"
  have v: "view ?c1 = a'" "pk_world ?c1 = w2" by (rule view_put_back, simp add: ref_ok_def)+ simp
  have p: "pk_vars ?c1 = a'" by (simp add: put_back_def Let_def split: option.split)
  let ?c2 = "?c1\<lparr>pk_world := close_display E (ap_display a) (snd (asvc_set E False w2))\<rparr>"
  have "call_run E [0, 0, 1, 0, 0] [CallStop, CallStart ro wo] (pkg_of a w) =
      ([Returned (Ok ()), Returned (Ok ())], ?c2)"
    using s1 st(1) asvc v(2) p
    by (simp add: call_run_def pkg_of_running [OF assms(4)] on_server_def critical_def returns_def)
  moreover have "doIsRunning (view ?c2)" using st(2) v(1) by simp
  ultimately show ?thesis by (simp add: foreground_close foreground_asvc)
qed

lemma doRotate_Ok:
  assumes "doRotate E ro wo a w = (Ok (), a', w')" and "ap_server a = Some s"
  obtains cm w1 s1 w2 where "cm_Rotate E wo (sv_cm s) w = (Ok (), cm, w1)"
    "sv_Stop (s\<lparr>sv_cm := cm\<rparr>) w1 = (Ok (), s1, w2)" "\<not> sv_running s1"
    "doStart E ro wo (a\<lparr>ap_server := None\<rparr>) w2 = (Ok (), a', w')"
proof -
  obtain r cm w1 where c: "cm_Rotate E wo (sv_cm s) w = (r, cm, w1)" by (metis prod_cases3)
  obtain q s1 w2 where st: "sv_Stop (s\<lparr>sv_cm := cm\<rparr>) w1 = (q, s1, w2)" by (metis prod_cases3)
  have "r = Ok ()" using assms c by (cases r) (simp_all add: doRotate_def)
  with that [of cm w1 s1 w2] c st Stop_result [OF st] assms show ?thesis by (simp add: doRotate_def)
qed

text \<open>A start over given listeners keeps them, whatever it answers.\<close>

lemma doStart_over:
  assumes "doStart E ro wo a w = (r, a', w')" and "ap_server a = None" and "set_up a"
  shows "app_inv (open_listeners (hist w)) (adverts (hist w)) (a', w')"
proof -
  have "app_inv (open_listeners (hist w)) (adverts (hist w)) (a, w)"
    using assms(2,3) by (simp add: app_inv_def set_up_def)
  from doStart_inv [OF this assms(1)] show ?thesis .
qed

lemma rotations_overlap:
  assumes "obliging E" and "ap_server a = Some s" and "set_up a"
    and "doRotate E ro wo a w = (Ok (), a1, w1)"
  shows "\<exists>r c l. call_run E [0, 1, 0, 0, 0, 0, 1, 1, 1, 1] [CallRotate ro wo, CallRotate ro wo] (pkg_of a w) =
      ([Returned (Ok ()), Returned r], c) \<and>
    1 < length (pk_heap c) \<and> pk_server c \<noteq> Some 1 \<and> sv_running (pk_heap c ! 1) \<and>
    held_listener (pk_heap c ! 1) = [l] \<and>
    l \<in> set (open_listeners (hist (snd (snd (doStop E (view c) (pk_world c))))))"
proof -
  obtain cm v1 s1 v2 where r1: "cm_Rotate E wo (sv_cm s) w = (Ok (), cm, v1)"
    "sv_Stop (s\<lparr>sv_cm := cm\<rparr>) v1 = (Ok (), s1, v2)" "\<not> sv_running s1"
    "doStart E ro wo (a\<lparr>ap_server := None\<rparr>) v2 = (Ok (), a1, w1)"
    using doRotate_Ok [OF assms(4,2)] by blast
  obtain x l where x: "ap_server a1 = Some x" "sv_running x" "held_listener x = [l]"
    using doStart_running [OF r1(4)] by auto
  have su: "set_up (a\<lparr>ap_server := None\<rparr>)" using assms(3) by (simp add: set_up_def)
  have i1: "app_inv (open_listeners (hist v2)) (adverts (hist v2)) (a1, w1)"
    by (rule doStart_over [OF r1(4) _ su]) simp
  have l1: "l \<in> set (open_listeners (hist w1))" and su1: "set_up a1"
    using i1 x by (auto simp: app_inv_def server_inv_def set_up_def)
  obtain cm2 w2 where r2: "cm_Rotate E wo (sv_cm s1) w1 = (Ok (), cm2, w2)"
    using rotate_ok [OF assms(1)] by blast
  let ?s2 = "s1\<lparr>sv_cm := cm2, sv_srv := None, sv_mdns := None\<rparr>"
  have st2: "sv_Stop (s1\<lparr>sv_cm := cm2\<rparr>) w2 = (Ok (), ?s2, w2)" using Stop_again r1(3) by simp
  have l2: "l \<in> set (open_listeners (hist w2))"
    using l1 quietD(2) [OF regenerate_quiet, of E wo "sv_cm s1" w1 "Ok ()" cm2 w2] r2
    by (simp add: cm_Rotate_def same_net_def)
  let ?c = "\<lparr>pk_vars = a1, pk_server = None, pk_heap = [?s2, x], pk_world = w2\<rparr>"
  obtain r a3 w3 where st3: "doStart E ro wo (view ?c) w2 = (r, a3, w3)" by (metis prod_cases3)
  let ?d = "put_back a3 w3 ?c"
  have v: "view ?d = a3" by (rule view_put_back) (simp add: ref_ok_def)
  have "set_up (view ?c)" using su1 by (simp add: set_up_def)
  then have i3: "app_inv (open_listeners (hist w2)) (adverts (hist w2)) (a3, w3)"
    by (intro doStart_over [OF st3]) simp_all
  obtain r4 a4 w4 where st4: "doStop E a3 w3 = (r4, a4, w4)" by (metis prod_cases3)
  have "l \<in> set (open_listeners (hist w4))" using doStop_net [OF i3 st4] l2 by simp
  moreover have "call_run E [0, 1, 0, 0, 0, 0, 1, 1, 1, 1] [CallRotate ro wo, CallRotate ro wo] (pkg_of a w) =
      ([Returned (Ok ()), Returned r], ?d)"
  proof -
    have e: "view \<lparr>pk_vars = a, pk_server = None, pk_heap = [s1], pk_world = v2\<rparr> = a\<lparr>ap_server := None\<rparr>"
      by (simp add: view_def)
    have p: "put_back a1 w1 \<lparr>pk_vars = a, pk_server = None, pk_heap = [s1], pk_world = v2\<rparr> =
        \<lparr>pk_vars = a1, pk_server = Some 1, pk_heap = [s1, x], pk_world = w1\<rparr>"
      using x(1) by (simp add: put_back_def Let_def)
    show ?thesis
      using r1 r2 st2 st3
      by (simp add: call_run_def pkg_of_running [OF assms(2)] on_server_def critical_def returns_def e p)
  qed
  moreover have "1 < length (pk_heap ?d) \<and> pk_server ?d \<noteq> Some 1 \<and> pk_heap ?d ! 1 = x"
    by (simp add: put_back_def Let_def nth_append split: option.split)
  ultimately show ?thesis using x st4 v
    by (intro exI [of _ r] exI [of _ ?d] exI [of _ l]) simp
qed

section \<open>Every call returns\<close>

text \<open>The steps a call still makes; none waits for another between its critical sections.\<close>

fun call_todo :: "call_pc \<Rightarrow> nat" where
  "call_todo (Called CallStop) = 4"
| "call_todo (Stopping srv d) = 3"
| "call_todo (Lowering d) = 2"
| "call_todo (Closing d) = 1"
| "call_todo (Called (CallRotate ro wo)) = 5"
| "call_todo (Rotating i ro wo) = 4"
| "call_todo (Restarting i ro wo) = 3"
| "call_todo (Forgetting ro wo) = 2"
| "call_todo (Called x) = 1"
| "call_todo (Returned r) = 0"

lemma call_todo_step: "call_todo (fst (call_step E p c)) \<le> call_todo p - 1"
proof (cases p)
  case (Called x)
  then show ?thesis by (cases x) (simp_all add: returns_def split: option.split)
qed (auto split: prod.split outcome.split)

lemma call_todo_0: "call_todo p = 0 \<longleftrightarrow> is_returned p"
proof (cases p)
  case (Called x)
  then show ?thesis by (cases x) simp_all
qed simp_all

interpretation calls: live "call_step E" call_todo "\<lambda>_. True" for E
proof unfold_locales
  fix ps p and c :: pkg
  assume "p \<in> set ps" and "0 < call_todo p"
  then obtain i where "i < length ps" "0 < call_todo (ps ! i)" by (auto simp: in_set_conv_nth)
  with call_todo_step [of E "ps ! i" c] show "\<exists>i < length ps. call_todo (fst (call_step E (ps ! i) c)) < call_todo (ps ! i)"
    by (intro exI [of _ i]) simp
qed simp

lemma calls_can_end: "\<exists>later. list_all is_returned (fst (call_run E (sched @ later) calls c))"
  using calls.can_end [of "call_run E sched calls c" E] by (simp add: call_run_def call_todo_0) blast

section \<open>Properties\<close>



text \<open>
  C24. A rotation undoes a stop.  When \<open>RotateNow\<close> has read the server of a running package before a
  concurrent \<open>Stop\<close>, both can succeed and the package is running again although \<open>Stop\<close> has returned.
  No order of the two calls explains that: after \<open>Stop\<close> a rotation fails, and after a rotation
  \<open>Stop\<close> leaves the package stopped.
\<close>

theorem rotation_undoes_stop:
  assumes "hospitable E" and "ap_inited a" and "ap_filesDir a \<noteq> []" and "doIsRunning a"
  shows "(\<exists>sched c. call_run E sched [CallStop, CallRotate ro wo] (pkg_of a w) =
      ([Returned (Ok ()), Returned (Ok ())], c) \<and> doIsRunning (view c)) \<and>
    (case doStop E a w of (r, a1, w1) \<Rightarrow> \<not> is_ok (fst (doRotate E ro wo a1 w1))) \<and>
    (case doRotate E ro wo a w of (r, a1, w1) \<Rightarrow> \<not> doIsRunning (fst (snd (doStop E a1 w1))))"
proof -
  obtain s where "ap_server a = Some s" using assms(4) by (auto simp: doIsRunning_def split: option.splits)
  from stop_then_rotate [OF assms(1-3) this, of ro wo w] show ?thesis
    by (auto simp: doStop_eq doRotate_def doIsRunning_def Let_def split: prod.split)
qed

text \<open>
  C25. Concurrent rotations lose a server.  When a second \<open>RotateNow\<close> has read the old server while a
  first one replaces it, the second one sets the variable \<open>server\<close> to nil although it holds the new
  one: that keeps running with its listener, no variable refers to it, and the next \<open>Stop\<close> leaves
  its listener open.
\<close>

theorem concurrent_rotations_lose_server:
  assumes "obliging E" and "ap_server a = Some s" and "set_up a"
    and "doRotate E ro wo a w = (Ok (), a1, w1)"
  shows "\<exists>sched r c l. call_run E sched [CallRotate ro wo, CallRotate ro wo] (pkg_of a w) =
      ([Returned (Ok ()), Returned r], c) \<and>
    1 < length (pk_heap c) \<and> pk_server c \<noteq> Some 1 \<and> sv_running (pk_heap c ! 1) \<and>
    held_listener (pk_heap c ! 1) = [l] \<and>
    l \<in> set (open_listeners (hist (snd (snd (doStop E (view c) (pk_world c))))))"
  using rotations_overlap [OF assms] by blast

text \<open>
  A stop takes the foreground service of the next start down.  When a \<open>Start\<close> runs between the
  two halves of a \<open>Stop\<close>, both succeed and the package is running, but without its foreground
  service, which Android requires to keep the process; \<open>Start\<close> alone always leaves it up.
\<close>

lemma stop_lowers_next_start:
  assumes "hospitable E" and "ap_inited a" and "ap_filesDir a \<noteq> []" and "ap_server a = Some s" and "ap_asvc a"
  shows "(\<exists>sched c. call_run E sched [CallStop, CallStart ro wo] (pkg_of a w) =
      ([Returned (Ok ()), Returned (Ok ())], c) \<and> doIsRunning (view c) \<and> \<not> foreground (hist (pk_world c))) \<and>
    (case doStart E ro wo (a\<lparr>ap_server := None\<rparr>) v of (r, a1, w1) \<Rightarrow> r = Ok () \<and> foreground (hist w1))"
proof -
  obtain a1 w1 where "doStart E ro wo (a\<lparr>ap_server := None\<rparr>) v = (Ok (), a1, w1)"
    using start_works [OF assms(1), of "a\<lparr>ap_server := None\<rparr>" ro wo v] assms(2,3) by auto
  with doStart_running [OF this] stop_around_start [OF assms, of ro wo w] show ?thesis by auto
qed

section \<open>Concrete runs\<close>

lemma easy_running:
  "\<exists>a w s. ap_server a = Some s \<and> doIsRunning a \<and> ap_inited a \<and> ap_filesDir a = ''f'' \<and> set_up a \<and> ap_asvc a \<and>
     doStart easy_env pem_names all_names ready_app empty_world = (Ok (), a, w)"
proof -
  obtain a w where st: "doStart easy_env pem_names all_names ready_app empty_world = (Ok (), a, w)" "doIsRunning a"
    using start_works [OF easy_hospitable, of ready_app pem_names all_names empty_world] by auto
  have "set_up ready_app" "ap_inited ready_app"
    by (simp_all add: set_up_def ready_app_def doInit_def startObserverFanout_def initial_app_def Let_def)
  moreover have "ap_inited a \<and> ap_filesDir a = ''f''"
    using st(1)
    by (cases rule: doStart_cases) (auto simp: start_foreground_def Let_def split: prod.splits option.splits)
  ultimately show ?thesis
    using doStart_tame [OF st(1)] st by (auto simp: set_up_def doIsRunning_def split: option.splits)
qed


lemma rotation_undoes_stop_witness:
  "\<exists>a w sched c. doIsRunning a \<and> doIsRunning (view c) \<and>
     call_run easy_env sched [CallStop, CallRotate pem_names all_names] (pkg_of a w) =
       ([Returned (Ok ()), Returned (Ok ())], c)"
proof -
  obtain a :: app and w :: world where a: "doIsRunning a" "ap_inited a" "ap_filesDir a \<noteq> []"
    using easy_running by fastforce
  from rotation_undoes_stop [OF easy_hospitable a(2,3,1), of pem_names all_names w] a(1) show ?thesis by blast
qed

lemma concurrent_rotations_lose_server_witness:
  "\<exists>a w sched r c. pk_server c \<noteq> Some 1 \<and> sv_running (pk_heap c ! 1) \<and>
     call_run easy_env sched [CallRotate pem_names all_names, CallRotate pem_names all_names] (pkg_of a w) =
       ([Returned (Ok ()), Returned r], c)"
proof -
  obtain a :: app and w :: world and s :: Server where a: "ap_server a = Some s" "ap_inited a" "ap_filesDir a \<noteq> []" "set_up a"
    using easy_running by fastforce
  obtain a1 w1 where r: "doRotate easy_env pem_names all_names a w = (Ok (), a1, w1)"
    using rotate_works [OF easy_hospitable a(2,3,1), of pem_names all_names w] by auto
  from concurrent_rotations_lose_server [OF hospitable_obliging [OF easy_hospitable] a(1,4) r]
  show ?thesis by blast
qed

lemma stop_lowers_next_start_example:
  "\<exists>a w sched c. doIsRunning (view c) \<and> \<not> foreground (hist (pk_world c)) \<and>
     call_run easy_env sched [CallStop, CallStart pem_names all_names] (pkg_of a w) =
       ([Returned (Ok ()), Returned (Ok ())], c)"
proof -
  obtain a :: app and w :: world and s :: Server where a: "ap_server a = Some s" "ap_inited a" "ap_filesDir a \<noteq> []" "ap_asvc a"
    using easy_running by fastforce
  from stop_lowers_next_start [OF easy_hospitable a(2,3,1,4), of pem_names all_names w] show ?thesis by blast
qed

end
