(* ===== verification/Cli_Args.thy ===== *)
theory Cli_Args
  imports Proto Grpc_Service
begin

text \<open>
  The command line tool before it talks: mode names and colours (\<open>tableaux-cli/commands.go\<close>), the
  common flags, the TLS configuration and the connection (\<open>tableaux-cli/dial.go\<close>).  Flags are taken
  as the package \<open>flag\<close> has parsed them.
\<close>

section \<open>Library functions on text\<close>

text \<open>
  \<open>strings.ToLower\<close> works byte by byte on ASCII text and rune by rune on any other; the latter and
  the quoting of \<open>%q\<close>, are parameters, as is the text that \<open>filepath.Join\<close> gives.
\<close>

record go_text =
  gt_lower :: "string \<Rightarrow> string"
  gt_quote :: "string \<Rightarrow> string"
  gt_join :: "string list \<Rightarrow> string"

definition ToLower :: "go_text \<Rightarrow> string \<Rightarrow> string" where
  "ToLower G s = (if list_all is_ascii s then map lower_byte s else gt_lower G s)"

text \<open>\<open>strconv.ParseUint(s, 16, 32)\<close>: the loop over the digits stops at the first failure.\<close>

definition hex_value :: "char \<Rightarrow> nat option" where
  "hex_value c =
     (let k = (of_char c :: nat)
      in if 48 \<le> k \<and> k \<le> 57 then Some (k - 48)
         else if 97 \<le> k \<and> k \<le> 102 then Some (k - 97 + 10)
         else if 65 \<le> k \<and> k \<le> 70 then Some (k - 65 + 10)
         else None)"

datatype num_error = SyntaxErr | RangeErr

fun parse_digits :: "nat \<Rightarrow> string \<Rightarrow> num_error + nat" where
  "parse_digits n [] = Inr n"
| "parse_digits n (c # cs) =
     (case hex_value c of
        None \<Rightarrow> Inl SyntaxErr
      | Some d \<Rightarrow>
          (let n1 = n * 16 + d in if n1 > 2 ^ 32 - 1 then Inl RangeErr else parse_digits n1 cs))"

definition ParseUint_16_32 :: "string \<Rightarrow> num_error + nat" where
  "ParseUint_16_32 s = (if s = [] then Inl SyntaxErr else parse_digits 0 s)"

fun num_error_text :: "num_error \<Rightarrow> string" where
  "num_error_text SyntaxErr = ''invalid syntax''"
| "num_error_text RangeErr = ''value out of range''"

text \<open>The expression of \<open>cmdFill\<close>, with its error.\<close>

definition parse_argb :: "go_text \<Rightarrow> string \<Rightarrow> go_error + u32" where
  "parse_argb G argb =
     (let s = trim_prefix (ToLower G argb) ''0x''
      in case ParseUint_16_32 s of
        Inl e \<Rightarrow> Inl (ErrWrap ''--argb'' (ErrMsg (''strconv.ParseUint: parsing '' @ gt_quote G s
                        @ '': '' @ num_error_text e)))
      | Inr v \<Rightarrow> Inr (of_nat v))"

section \<open>Mode names\<close>

text \<open>The switch over the trimmed and lowered name.\<close>

definition mode_switch :: "string \<Rightarrow> pb_mode \<times> bool" where
  "mode_switch s =
     (if s = ''init'' then (WAVEFORM_MODE_INIT, True)
      else if s = ''directupdate'' \<or> s = ''direct_update'' then (WAVEFORM_MODE_DIRECT_UPDATE, True)
      else if s = ''gc16'' then (WAVEFORM_MODE_GC16, True)
      else if s = ''gcc16'' then (WAVEFORM_MODE_GCC16, True)
      else if s = ''animation'' then (WAVEFORM_MODE_ANIMATION, True)
      else if s = ''partial'' then (WAVEFORM_MODE_PARTIAL, True)
      else if s = ''full'' then (WAVEFORM_MODE_FULL, True)
      else if s = ''auto'' then (WAVEFORM_MODE_AUTO, True)
      else if s = ''reset'' then (WAVEFORM_MODE_RESET, True)
      else if s = ''blackwhite'' \<or> s = ''black_white'' then (WAVEFORM_MODE_BLACK_WHITE, True)
      else if s = ''transparent'' then (WAVEFORM_MODE_TRANSPARENT, True)
      else if s = ''regal'' then (WAVEFORM_MODE_REGAL, True)
      else if s = ''spectrafullgc16'' \<or> s = ''spectra_full_gc16''
           then (WAVEFORM_MODE_SPECTRA_FULL_GC16, True)
      else if s = ''spectraglarereduced'' \<or> s = ''spectra_glare_reduced''
           then (WAVEFORM_MODE_SPECTRA_GLARE_REDUCED, True)
      else if s = ''spectraghostreduced'' \<or> s = ''spectra_ghost_reduced''
           then (WAVEFORM_MODE_SPECTRA_GHOST_REDUCED, True)
      else if s = ''spectrafullgcc16'' \<or> s = ''spectra_full_gcc16''
           then (WAVEFORM_MODE_SPECTRA_FULL_GCC16, True)
      else (WAVEFORM_MODE_UNSPECIFIED, False))"

definition parseWaveform :: "go_text \<Rightarrow> string \<Rightarrow> pb_mode \<times> bool" where
  "parseWaveform G s = mode_switch (ToLower G (trim_space s))"

section \<open>Flags and connection\<close>

record commonFlags =
  cf_host :: string
  cf_port :: int
  cf_token :: string
  cf_certFile :: string
  cf_clientCert :: string
  cf_clientKey :: string
  cf_insecure :: bool

definition cf_validate :: "commonFlags \<Rightarrow> go_error option" where
  "cf_validate c =
     (if cf_host c = [] then Some (ErrMsg ''--host (-H) is required'')
      else if cf_token c = [] then Some (ErrMsg ''--token (-t) is required'')
      else None)"

record tls_config =
  tc_minVersion :: nat
  tc_rootCAs :: "string option"
  tc_certificates :: "(string \<times> string) list"

datatype credentials = InsecureCreds | TLSCreds tls_config

text \<open>\<open>tls.LoadX509KeyPair\<close> reads both files and checks the pair.\<close>

definition LoadX509KeyPair ::
    "env \<Rightarrow> string \<Rightarrow> string \<Rightarrow> world \<Rightarrow> (go_error + string \<times> string) \<times> world" where
  "LoadX509KeyPair E certFile keyFile w =
     (case os_ReadFile E [certFile] w of
        (Inl e, w1) \<Rightarrow> (Inl (Errno e), w1)
      | (Inr c, w1) \<Rightarrow>
     (case os_ReadFile E [keyFile] w1 of
        (Inl e, w2) \<Rightarrow> (Inl (Errno e), w2)
      | (Inr k, w2) \<Rightarrow>
     (case e_key_pair E c k of
        Some e \<Rightarrow> (Inl e, w2)
      | None \<Rightarrow> (Inr (c, k), w2))))"

definition root_pool :: "env \<Rightarrow> commonFlags \<Rightarrow> world \<Rightarrow> (go_error + string option) \<times> world" where
  "root_pool E c w =
     (if cf_certFile c \<noteq> []
      then (case os_ReadFile E [cf_certFile c] w of
              (Inl e, w1) \<Rightarrow> (Inl (ErrWrap ''read --cert'' (Errno e)), w1)
            | (Inr pem, w1) \<Rightarrow>
                (if \<not> e_append_certs E pem
                 then (Inl (ErrMsg (''--cert: no CERTIFICATE block in '' @ cf_certFile c)), w1)
                 else (Inr (Some pem), w1)))
      else (Inr None, w))"

definition client_certs ::
    "env \<Rightarrow> commonFlags \<Rightarrow> world \<Rightarrow> (go_error + (string \<times> string) list) \<times> world" where
  "client_certs E c w =
     (if cf_clientCert c \<noteq> [] \<or> cf_clientKey c \<noteq> []
      then (if cf_clientCert c = [] \<or> cf_clientKey c = []
            then (Inl (ErrMsg ''--client-cert and --client-key must be set together''), w)
            else (case LoadX509KeyPair E (cf_clientCert c) (cf_clientKey c) w of
                    (Inl e, w1) \<Rightarrow> (Inl (ErrWrap ''load client keypair'' e), w1)
                  | (Inr ckp, w1) \<Rightarrow> (Inr [ckp], w1)))
      else (Inr [], w))"

definition tlsConfig :: "env \<Rightarrow> commonFlags \<Rightarrow> world \<Rightarrow> (go_error + tls_config) \<times> world" where
  "tlsConfig E c w =
     (case root_pool E c w of
        (Inl e, w1) \<Rightarrow> (Inl e, w1)
      | (Inr pool, w1) \<Rightarrow>
          (case client_certs E c w1 of
             (Inl e, w2) \<Rightarrow> (Inl e, w2)
           | (Inr cs, w2) \<Rightarrow>
               (Inr \<lparr>tc_minVersion = 0x0303, tc_rootCAs = pool, tc_certificates = cs\<rparr>, w2)))"

text \<open>\<open>grpc.NewClient\<close> is a parameter: a target and credentials give a connection or an error.\<close>

type_synonym ('n, 'st) new_client = "string \<Rightarrow> credentials \<Rightarrow> go_error + ('n, 'st) ClientConn"

definition dial ::
    "env \<Rightarrow> ('n, 'st) new_client \<Rightarrow> commonFlags \<Rightarrow> world
       \<Rightarrow> (go_error + ('n, 'st) ClientConn \<times> out_ctx) \<times> world" where
  "dial E nc c w =
     (let target = cf_host c @ '':'' @ show_int (cf_port c)
      in case (if cf_insecure c then (Inr InsecureCreds, w)
               else case tlsConfig E c w of
                 (Inl e, w1) \<Rightarrow> (Inl e, w1)
               | (Inr tc, w1) \<Rightarrow> (Inr (TLSCreds tc), w1)) of
        (Inl e, w1) \<Rightarrow> (Inl e, w1)
      | (Inr creds, w1) \<Rightarrow>
          (case nc target creds of
             Inl e \<Rightarrow> (Inl (ErrWrap (''dial '' @ target) e), w1)
           | Inr conn \<Rightarrow>
               (Inr (conn, \<lparr>oc_md = [(''authorization'', ''Bearer '' @ cf_token c)]\<rparr>), w1)))"

section \<open>Numbers\<close>

definition hex_number :: "nat \<Rightarrow> string \<Rightarrow> nat" where
  "hex_number n s = foldl (\<lambda>n c. n * 16 + (case hex_value c of None \<Rightarrow> 0 | Some d \<Rightarrow> d)) n s"

lemma hex_number_simps [simp]:
  "hex_number n [] = n"
  "hex_number n (c # cs) = hex_number (n * 16 + (case hex_value c of None \<Rightarrow> 0 | Some d \<Rightarrow> d)) cs"
  by (simp_all add: hex_number_def)

lemma hex_number_mono: "n \<le> hex_number n s"
proof (induction s arbitrary: n)
  case (Cons c cs)
  let ?m = "n * 16 + (case hex_value c of None \<Rightarrow> 0 | Some d \<Rightarrow> d)"
  have "n \<le> ?m" by simp
  also have "?m \<le> hex_number ?m cs" by (rule Cons.IH)
  finally show ?case by simp
qed simp

lemma parse_digits_iff:
  "n < 2 ^ 32 \<Longrightarrow> parse_digits n s = Inr v \<longleftrightarrow>
     list_all (\<lambda>c. hex_value c \<noteq> None) s \<and> hex_number n s = v \<and> v < 2 ^ 32"
proof (induction s arbitrary: n)
  case (Cons c cs)
  show ?case
  proof (cases "hex_value c")
    case (Some d)
    have "hex_number (n * 16 + d) cs \<ge> n * 16 + d" by (rule hex_number_mono)
    with Some Cons.IH [of "n * 16 + d"] show ?thesis by (auto simp: Let_def)
  qed simp
qed auto

section \<open>Names\<close>

lemma parseWaveform_plain:
  "s \<noteq> [] \<Longrightarrow> list_all visible s \<Longrightarrow> parseWaveform G s = mode_switch (map lower_byte s)"
proof -
  assume s: "s \<noteq> []" "list_all visible s"
  then have "trimmed s" by (intro trimmed_visible) (simp_all add: list_all_iff)
  moreover have "list_all is_ascii s"
    using s(2) by (simp add: list_all_iff visible_def is_ascii_def)
  ultimately show ?thesis by (simp add: parseWaveform_def ToLower_def trim_space_id)
qed

text \<open>What the switch gives for the lower-case names of the kernel modes and of the protocol.\<close>

lemma mode_switch_names:
  "map mode_switch
     [''init'', ''directupdate'', ''gc16'', ''gcc16'', ''animation'', ''partial'', ''full'',
      ''auto'', ''reset'', ''blackwhite'', ''transparent'', ''regal'', ''spectrafullgc16'',
      ''spectraglarereduced'', ''spectraghostreduced'', ''spectrafullgcc16'']
   = map (\<lambda>n. (of_nat (Suc n), True)) [0..<16]"
  "map mode_switch
     [''init'', ''direct_update'', ''gc16'', ''gcc16'', ''animation'', ''partial'', ''full'',
      ''auto'', ''reset'', ''black_white'', ''transparent'', ''regal'', ''spectra_full_gc16'',
      ''spectra_glare_reduced'', ''spectra_ghost_reduced'', ''spectra_full_gcc16'']
   = map (\<lambda>n. (of_nat (Suc n), True)) [0..<16]"
  by (simp_all add: mode_switch_def pb_mode_consts upt_rec)

lemma lowered_names:
  "map (\<lambda>m. map lower_byte (WaveformMode_String m)) waveform_modes =
     [''init'', ''directupdate'', ''gc16'', ''gcc16'', ''animation'', ''partial'', ''full'',
      ''auto'', ''reset'', ''blackwhite'', ''transparent'', ''regal'', ''spectrafullgc16'',
      ''spectraglarereduced'', ''spectraghostreduced'', ''spectrafullgcc16'']"
  "map (\<lambda>(m, name). map lower_byte (trim_prefix name ''WAVEFORM_MODE_'')) (tl WaveformMode_name) =
     [''init'', ''direct_update'', ''gc16'', ''gcc16'', ''animation'', ''partial'', ''full'',
      ''auto'', ''reset'', ''black_white'', ''transparent'', ''regal'', ''spectra_full_gc16'',
      ''spectra_glare_reduced'', ''spectra_ghost_reduced'', ''spectra_full_gcc16'']"
  by code_simp+

definition plain :: "string \<Rightarrow> bool" where
  "plain s \<longleftrightarrow> s \<noteq> [] \<and> list_all visible s"

section \<open>Properties\<close>

text \<open>\<open>ParseUint(s, 16, 32)\<close> stops at the first overflow, without ever computing a larger number.\<close>

lemma ParseUint_exact:
  "ParseUint_16_32 s = Inr v \<longleftrightarrow>
     s \<noteq> [] \<and> list_all (\<lambda>c. hex_value c \<noteq> None) s \<and> hex_number 0 s = v \<and> v < 2 ^ 32"
  using parse_digits_iff [of 0 s v] by (auto simp: ParseUint_16_32_def)

text \<open>
  C37. The colour argument.  \<open>--argb\<close> is accepted exactly when, lowered and without a leading
  \<open>0x\<close>, it is a non-empty string of hexadecimal digits whose value fits 32 bits, and it then stands
  for that value; every other text is an error that names the flag.
\<close>

theorem parse_argb_exact:
  "case parse_argb G argb of
     Inr v \<Rightarrow> (let s = trim_prefix (ToLower G argb) ''0x''
       in s \<noteq> [] \<and> list_all (\<lambda>c. hex_value c \<noteq> None) s \<and> hex_number 0 s = unat v)
   | Inl e \<Rightarrow> (\<exists>m. e = ErrWrap ''--argb'' m) \<and>
       (let s = trim_prefix (ToLower G argb) ''0x''
        in s = [] \<or> (\<exists>c \<in> set s. hex_value c = None) \<or> 2 ^ 32 \<le> hex_number 0 s)"
proof (cases "ParseUint_16_32 (trim_prefix (ToLower G argb) ''0x'')")
  case (Inl e)
  with ParseUint_exact [of "trim_prefix (ToLower G argb) ''0x''"] show ?thesis
    by (force simp: parse_argb_def list_all_iff Let_def)
next
  case (Inr v)
  with ParseUint_exact [of "trim_prefix (ToLower G argb) ''0x''" v] show ?thesis
    by (simp add: parse_argb_def unat_of_nat take_bit_nat_eq_self Let_def)
qed

text \<open>
  Mode names on the command line.  The name that \<open>WaveformMode.String\<close> prints for a kernel mode is
  accepted by \<open>parseWaveform\<close>, and the enum number it gives is translated by the server back to that
  very mode; the snake-case names of the protocol, without their prefix, give their own numbers.
\<close>

lemma mode_names_round_trip:
  "list_all (\<lambda>m. snd (parseWaveform G (WaveformMode_String m)) \<and>
       translateMode (fst (parseWaveform G (WaveformMode_String m))) = m) waveform_modes \<and>
   list_all (\<lambda>(m, name). parseWaveform G (trim_prefix name ''WAVEFORM_MODE_'') = (m, True))
     (tl WaveformMode_name)"
proof
  have "map (\<lambda>m. mode_switch (map lower_byte (WaveformMode_String m))) waveform_modes =
      map (\<lambda>m. (m + 1, True)) waveform_modes"
    using arg_cong [OF lowered_names(1), of "map mode_switch"] mode_switch_names(1)
    by (simp add: comp_def waveform_modes_def upt_rec)
  moreover have "list_all (\<lambda>m. plain (WaveformMode_String m)) waveform_modes" by code_simp
  moreover have "list_all (\<lambda>m. translateMode (m + 1) = m) waveform_modes" by code_simp
  ultimately show "list_all (\<lambda>m. snd (parseWaveform G (WaveformMode_String m)) \<and>
       translateMode (fst (parseWaveform G (WaveformMode_String m))) = m) waveform_modes"
    by (simp add: list_all_iff plain_def parseWaveform_plain)
  have "map (\<lambda>(m, name). mode_switch (map lower_byte (trim_prefix name ''WAVEFORM_MODE_'')))
        (tl WaveformMode_name) = map (\<lambda>(m, name). (m, True)) (tl WaveformMode_name)"
    using arg_cong [OF lowered_names(2), of "map mode_switch"] mode_switch_names(2)
    by (simp add: comp_def case_prod_beta' WaveformMode_name_def upt_rec)
  moreover have "list_all (\<lambda>(m, name). plain (trim_prefix name ''WAVEFORM_MODE_'')) (tl WaveformMode_name)"
    by code_simp
  ultimately show "list_all (\<lambda>(m, name). parseWaveform G (trim_prefix name ''WAVEFORM_MODE_'') = (m, True))
     (tl WaveformMode_name)"
    by (fastforce simp: list_all_iff plain_def parseWaveform_plain)
qed

end
