(* ===== verification/Cli.thy ===== *)
theory Cli
  imports Cli_Args Net_Url
begin

text \<open>
  The commands of \<open>tableaux-cli/commands.go\<close>, after their flags have been parsed.  A command
  runs on the files of the world, on the network behind the connection and on its standard output.
  Deadlines only show as errors of calls, and closing the connection has no result.
\<close>

section \<open>State\<close>

record 'n cli =
  cl_world :: world
  cl_net :: 'n
  cl_out :: "string list"

definition printf :: "string list \<Rightarrow> 'n cli \<Rightarrow> 'n cli" where
  "printf ls s = s\<lparr>cl_out := cl_out s @ ls\<rparr>"

definition cliCallTimeout :: int where "cliCallTimeout = 30 * 1000000000"

definition show_bool :: "bool \<Rightarrow> string" where
  "show_bool b = (if b then ''true'' else ''false'')"

text \<open>Everything a command needs from outside: text functions, system calls, \<open>grpc.NewClient\<close>.\<close>

record ('n, 'st) cli_env =
  ce_text :: go_text
  ce_env :: env
  ce_client :: "('n, 'st) new_client"

type_synonym ('n, 'st) with_conn =
  "('n, 'st) ClientConn \<Rightarrow> out_ctx \<Rightarrow> 'n cli \<Rightarrow> unit outcome \<times> 'n cli"

definition dialled ::
    "('n, 'st) cli_env \<Rightarrow> commonFlags \<Rightarrow> ('n, 'st) with_conn \<Rightarrow> 'n cli \<Rightarrow> unit outcome \<times> 'n cli" where
  "dialled X c k s =
     (case dial (ce_env X) (ce_client X) c (cl_world s) of
        (Inl e, w) \<Rightarrow> (Err e, s\<lparr>cl_world := w\<rparr>)
      | (Inr (conn, ctx), w) \<Rightarrow> k conn ctx (s\<lparr>cl_world := w\<rparr>))"

text \<open>A call of a client stub, then the rest of the command on its reply.\<close>

definition rpc ::
    "('n \<Rightarrow> 'a outcome \<times> 'n) \<Rightarrow> ('a \<Rightarrow> 'n cli \<Rightarrow> unit outcome \<times> 'n cli) \<Rightarrow> 'n cli
       \<Rightarrow> unit outcome \<times> 'n cli" where
  "rpc call k s =
     (case call (cl_net s) of
        (Ok x, n) \<Rightarrow> k x (s\<lparr>cl_net := n\<rparr>)
      | (Err e, n) \<Rightarrow> (Err e, s\<lparr>cl_net := n\<rparr>)
      | (Panic p, n) \<Rightarrow> (Panic p, s\<lparr>cl_net := n\<rparr>))"

definition finish_with :: "string list \<Rightarrow> 'n cli \<Rightarrow> unit outcome \<times> 'n cli" where
  "finish_with ls s = (Ok (), printf ls s)"

section \<open>Unary commands\<close>

definition cmdInfo :: "('n, 'st) cli_env \<Rightarrow> commonFlags \<Rightarrow> 'n cli \<Rightarrow> unit outcome \<times> 'n cli" where
  "cmdInfo X c s =
     (case cf_validate c of
        Some e \<Rightarrow> (Err e, s)
      | None \<Rightarrow>
          dialled X c (\<lambda>conn ctx. rpc (client_GetInfo conn ctx) (\<lambda>i. finish_with
            [''width:          '' @ show_int (sint (pdi_Width i)),
             ''height:         '' @ show_int (sint (pdi_Height i)),
             ''virtual_width:  '' @ show_int (sint (pdi_VirtualWidth i)),
             ''virtual_height: '' @ show_int (sint (pdi_VirtualHeight i)),
             ''color:          '' @ show_bool (pdi_Color i),
             ''server_version: '' @ pdi_AppVersion i])) s)"

definition cmdHealth :: "('n, 'st) cli_env \<Rightarrow> commonFlags \<Rightarrow> 'n cli \<Rightarrow> unit outcome \<times> 'n cli" where
  "cmdHealth X c s =
     (case cf_validate c of
        Some e \<Rightarrow> (Err e, s)
      | None \<Rightarrow>
          dialled X c (\<lambda>conn ctx. rpc (client_Health conn ctx) (\<lambda>h. finish_with
            ([''device_open:    '' @ show_bool (phr_DeviceOpen h),
              ''server_version: '' @ phr_ServerVersion h,
              ''uptime_seconds: '' @ show_int (phr_UptimeSeconds h)] @
             (if phr_LastError h \<noteq> [] then [''last_error:     '' @ phr_LastError h] else [])))) s)"

definition unknown_mode :: "go_text \<Rightarrow> string \<Rightarrow> go_error" where
  "unknown_mode G mode = ErrMsg (''--mode: unknown waveform '' @ gt_quote G mode)"

definition cmdFill ::
    "('n, 'st) cli_env \<Rightarrow> commonFlags \<Rightarrow> string \<Rightarrow> string \<Rightarrow> 'n cli \<Rightarrow> unit outcome \<times> 'n cli" where
  "cmdFill X c argb mode s =
     (case cf_validate c of
        Some e \<Rightarrow> (Err e, s)
      | None \<Rightarrow>
     (case parse_argb (ce_text X) argb of
        Inl e \<Rightarrow> (Err e, s)
      | Inr parsed \<Rightarrow>
     (case parseWaveform (ce_text X) mode of
        (wm, ok) \<Rightarrow>
          (if \<not> ok then (Err (unknown_mode (ce_text X) mode), s)
           else dialled X c (\<lambda>conn ctx.
             rpc (client_Fill conn ctx \<lparr>pfr_Argb = parsed, pfr_Mode = wm\<rparr>)
               (\<lambda>r. finish_with [''elapsed_ms: '' @ show_int (prr_ElapsedMs r)])) s))))"

definition cmdOverlay ::
    "('n, 'st) cli_env \<Rightarrow> commonFlags \<Rightarrow> bool \<Rightarrow> 'n cli \<Rightarrow> unit outcome \<times> 'n cli" where
  "cmdOverlay X c enabled s =
     (case cf_validate c of
        Some e \<Rightarrow> (Err e, s)
      | None \<Rightarrow>
          dialled X c (\<lambda>conn ctx. rpc (client_SetOverlay conn ctx \<lparr>pso_Enabled = enabled\<rparr>)
            (\<lambda>_. finish_with [''ok''])) s)"

definition cmdRotate :: "('n, 'st) cli_env \<Rightarrow> commonFlags \<Rightarrow> 'n cli \<Rightarrow> unit outcome \<times> 'n cli" where
  "cmdRotate X c s =
     (case cf_validate c of
        Some e \<Rightarrow> (Err e, s)
      | None \<Rightarrow>
          dialled X c (\<lambda>conn ctx. rpc (client_Rotate conn ctx) (\<lambda>r. finish_with
            [''scheduled_at_ms: '' @ show_int (pro_ScheduledAtMs r),
             ''warning: server is restarting; pull fresh tls/ from device.''])) s)"

definition save_reissued ::
    "go_text \<Rightarrow> env \<Rightarrow> string \<Rightarrow> pb_ReissueClientCertResponse \<Rightarrow> 'n cli \<Rightarrow> unit outcome \<times> 'n cli"
  where
  "save_reissued G E outDir r s =
     (case os_MkdirAll E [outDir] (cl_world s) of
        (Some e, w1) \<Rightarrow> (Err (Errno e), s\<lparr>cl_world := w1\<rparr>)
      | (None, w1) \<Rightarrow>
     (case os_WriteFile E [outDir, ''client-cert.pem''] (prc_ClientCertPem r) w1 of
        (Some e, w2) \<Rightarrow> (Err (Errno e), s\<lparr>cl_world := w2\<rparr>)
      | (None, w2) \<Rightarrow>
     (case os_WriteFile E [outDir, ''client-key.pem''] (prc_ClientKeyPem r) w2 of
        (Some e, w3) \<Rightarrow> (Err (Errno e), s\<lparr>cl_world := w3\<rparr>)
      | (None, w3) \<Rightarrow> finish_with
          [''wrote '' @ gt_join G [outDir, ''client-cert.pem''],
           ''wrote '' @ gt_join G [outDir, ''client-key.pem''],
           ''fingerprint: '' @ prc_ClientCertFingerprint r,
           ''server restart in: '' @ show_int (prc_ServerRestartInMs r) @ '' ms'']
          (s\<lparr>cl_world := w3\<rparr>))))"

definition cmdReissue ::
    "('n, 'st) cli_env \<Rightarrow> commonFlags \<Rightarrow> string \<Rightarrow> 'n cli \<Rightarrow> unit outcome \<times> 'n cli" where
  "cmdReissue X c outDir s =
     (case cf_validate c of
        Some e \<Rightarrow> (Err e, s)
      | None \<Rightarrow>
          dialled X c (\<lambda>conn ctx. rpc (client_ReissueClientCert conn ctx)
            (save_reissued (ce_text X) (ce_env X) outDir)) s)"

definition cmdMetrics :: "('n, 'st) cli_env \<Rightarrow> commonFlags \<Rightarrow> 'n cli \<Rightarrow> unit outcome \<times> 'n cli" where
  "cmdMetrics X c s =
     (case cf_validate c of
        Some e \<Rightarrow> (Err e, s)
      | None \<Rightarrow>
          dialled X c (\<lambda>conn ctx. rpc (client_GetMetrics conn ctx)
            (\<lambda>r. finish_with [pgm_PromText r])) s)"

section \<open>Refresh\<close>

definition data_chunk :: "byte list \<Rightarrow> pb_RefreshChunk" where
  "data_chunk d = \<lparr>pck_Payload = Some (RefreshChunk_Data d)\<rparr>"

text \<open>
  The loop \<open>for off := 0; off < len(pixels); off += chunkBytes\<close>.  Nothing keeps \<open>chunkBytes\<close>
  positive, so the loop may not end: its result is then \<open>None\<close>.  A slice with bounds out of order
  panics.
\<close>

definition slice :: "'a list \<Rightarrow> int \<Rightarrow> int \<Rightarrow> 'a list" where
  "slice xs lo hi = take (nat (hi - lo)) (drop (nat lo) xs)"

partial_function (option) send_loop ::
    "(pb_RefreshChunk \<Rightarrow> 'n \<Rightarrow> go_error option \<times> 'n) \<Rightarrow> byte list \<Rightarrow> int \<Rightarrow> int \<Rightarrow> 'n
       \<Rightarrow> (unit outcome \<times> 'n) option" where
  "send_loop send pixels chunkBytes off n =
     (if off < int (length pixels)
      then
        (let hi = (if off + chunkBytes > int (length pixels) then int (length pixels)
                   else off + chunkBytes)
         in if off < 0 \<or> hi < off then Some (Panic ''slice bounds out of range'', n)
            else
              (let r = send (data_chunk (slice pixels off hi)) n
               in if fst r \<noteq> None then Some (Err (the (fst r)), snd r)
                  else send_loop send pixels chunkBytes (off + chunkBytes) (snd r)))
      else Some (Ok (), n))"

text \<open>What \<open>cmdRefresh\<close> does on an open stream; \<open>None\<close> when it never returns.\<close>

definition send_frame ::
    "('n, 'st) ClientConn \<Rightarrow> 'st \<Rightarrow> pb_mode \<Rightarrow> byte list \<Rightarrow> int \<Rightarrow> 'n \<Rightarrow> (pb_RefreshResponse outcome \<times> 'n) option"
  where
  "send_frame conn st wm pixels chunkBytes n =
     (let header = \<lparr>prh_Mode = wm, prh_Region = None, prh_TotalBytes = int (length pixels)\<rparr>
      in case cc_Send conn st \<lparr>pck_Payload = Some (RefreshChunk_Header (Some header))\<rparr> n of
        (Some e, n1) \<Rightarrow> Some (Err e, n1)
      | (None, n1) \<Rightarrow>
     (case send_loop (cc_Send conn st) pixels chunkBytes 0 n1 of
        None \<Rightarrow> None
      | Some (Err e, n2) \<Rightarrow> Some (Err e, n2)
      | Some (Panic p, n2) \<Rightarrow> Some (Panic p, n2)
      | Some (Ok _, n2) \<Rightarrow>
     (case cc_CloseAndRecv conn st n2 of
        (Inl e, n3) \<Rightarrow> Some (Err e, n3)
      | (Inr r, n3) \<Rightarrow> Some (Ok r, n3))))"

text \<open>File contents are bytes.\<close>

definition bytes_of :: "string \<Rightarrow> byte list" where
  "bytes_of s = map byte_of s"

definition cmdRefresh ::
    "('n, 'st) cli_env \<Rightarrow> commonFlags \<Rightarrow> string \<Rightarrow> string \<Rightarrow> int \<Rightarrow> 'n cli
       \<Rightarrow> (unit outcome \<times> 'n cli) option" where
  "cmdRefresh X c pixelsPath mode chunkBytes s =
     (case cf_validate c of
        Some e \<Rightarrow> Some (Err e, s)
      | None \<Rightarrow>
     (if pixelsPath = [] then Some (Err (ErrMsg ''--pixels is required''), s)
      else
     (case parseWaveform (ce_text X) mode of
        (wm, ok) \<Rightarrow>
     (if \<not> ok then Some (Err (unknown_mode (ce_text X) mode), s)
      else
     (case os_ReadFile (ce_env X) [pixelsPath] (cl_world s) of
        (Inl e, w1) \<Rightarrow> Some (Err (Errno e), s\<lparr>cl_world := w1\<rparr>)
      | (Inr content, w1) \<Rightarrow>
     (case dial (ce_env X) (ce_client X) c w1 of
        (Inl e, w2) \<Rightarrow> Some (Err e, s\<lparr>cl_world := w2\<rparr>)
      | (Inr (conn, ctx), w2) \<Rightarrow>
     (case client_Refresh conn ctx (cl_net s) of
        (Err e, n1) \<Rightarrow> Some (Err e, s\<lparr>cl_world := w2, cl_net := n1\<rparr>)
      | (Panic p, n1) \<Rightarrow> Some (Panic p, s\<lparr>cl_world := w2, cl_net := n1\<rparr>)
      | (Ok st, n1) \<Rightarrow>
     (case send_frame conn st wm (bytes_of content) chunkBytes n1 of
        None \<Rightarrow> None
      | Some (Err e, n2) \<Rightarrow> Some (Err e, s\<lparr>cl_world := w2, cl_net := n2\<rparr>)
      | Some (Panic p, n2) \<Rightarrow> Some (Panic p, s\<lparr>cl_world := w2, cl_net := n2\<rparr>)
      | Some (Ok r, n2) \<Rightarrow>
          Some (finish_with [''elapsed_ms: '' @ show_int (prr_ElapsedMs r)]
            (s\<lparr>cl_world := w2, cl_net := n2\<rparr>))))))))))"

section \<open>Discover and connect\<close>

text \<open>
  The answers of the third-party browser arrive as a list; \<open>return nil\<close> in the loop ends it.
\<close>

record service_entry =
  se_instance :: string
  se_addrs :: string
  se_port :: int
  se_text :: "string list"

definition entry_lines :: "service_entry \<Rightarrow> string list" where
  "entry_lines e =
     [se_instance e @ ''@'' @ se_addrs e, ''  port:        '' @ show_int (se_port e),
      ''  addresses:   '' @ se_addrs e] @ map (\<lambda>t. ''  '' @ t) (se_text e)"

fun discover_loop :: "bool \<Rightarrow> service_entry list \<Rightarrow> 'n cli \<Rightarrow> unit outcome \<times> 'n cli" where
  "discover_loop first [] s = (Ok (), s)"
| "discover_loop first (e # es) s =
     (let s1 = printf (entry_lines e) s
      in if first then (Ok (), s1) else discover_loop first es s1)"

definition cmdDiscover ::
    "(go_error + (int \<Rightarrow> go_error + service_entry list)) \<Rightarrow> int \<Rightarrow> bool \<Rightarrow> 'n cli
       \<Rightarrow> unit outcome \<times> 'n cli" where
  "cmdDiscover resolver timeout first s =
     (case resolver of
        Inl e \<Rightarrow> (Err e, s)
      | Inr browse \<Rightarrow>
          (case browse (timeout * 1000000000) of
             Inl e \<Rightarrow> (Err e, s)
           | Inr entries \<Rightarrow> discover_loop first entries s))"

text \<open>\<open>weird\<close> decodes the hosts that \<open>url.Parse\<close> leaves to the parameter of the theory \<open>Net_Url\<close>.\<close>

definition cmdConnect ::
    "go_text \<Rightarrow> (string \<Rightarrow> go_error + string) \<Rightarrow> string list \<Rightarrow> 'n cli \<Rightarrow> unit outcome \<times> 'n cli" where
  "cmdConnect G weird args s =
     (case args of
        [] \<Rightarrow> (Err (ErrMsg ''usage: tableaux-cli connect <tableaux://...>''), s)
      | a # as \<Rightarrow>
     (case url_Parse (gt_quote G) weird a of
        Inl e \<Rightarrow> (Err e, s)
      | Inr u \<Rightarrow>
          (if u_Scheme u \<noteq> ''tableaux''
           then (Err (ErrMsg (''scheme: '' @ gt_quote G (u_Scheme u) @ '' (expected tableaux://)'')), s)
           else
             (let q = url_Query (gt_quote G) u;
                  host = url_Hostname u;
                  port = (if url_Port u = [] then ''50051'' else url_Port u);
                  tok = values_Get q ''token''
              in finish_with
                   [''host:        '' @ host, ''port:        '' @ port, ''token:       '' @ tok,
                    ''fingerprint: '' @ values_Get q ''fp'', [], ''Equivalent flags:'',
                    ''  -H '' @ host @ '' -p '' @ port @ '' -t '' @ tok] s))))"

section \<open>The chunks of a frame\<close>

text \<open>The pieces of at most \<open>n\<close> bytes, in order.\<close>

function pieces :: "nat \<Rightarrow> 'a list \<Rightarrow> 'a list list" where
  "pieces n xs = (if n = 0 \<or> xs = [] then [] else take n xs # pieces n (drop n xs))"
  by pat_completeness auto
termination by (relation "measure (\<lambda>(n, xs). length xs)") auto

declare pieces.simps [simp del]

lemma concat_pieces: "0 < n \<Longrightarrow> concat (pieces n xs) = xs"
proof (induction n xs rule: pieces.induct)
  case (1 n xs)
  then show ?case
    by (cases "xs = []") (simp_all add: pieces.simps [of n xs] pieces.simps [of n "[]"])
qed

lemma pieces_length: "list_all (\<lambda>p. 0 < length p \<and> length p \<le> n) (pieces n xs)"
proof (induction n xs rule: pieces.induct)
  case (1 n xs)
  show ?case
  proof (cases "n = 0 \<or> xs = []")
    case True
    then have "pieces n xs = []" by (subst pieces.simps) simp
    then show ?thesis by simp
  next
    case False
    with 1 show ?thesis by (simp add: pieces.simps [of n xs])
  qed
qed

section \<open>The contract of a stream\<close>

text \<open>A stream that accepts every chunk and remembers what it was sent, in order.\<close>

locale chunk_sink =
  fixes send :: "pb_RefreshChunk \<Rightarrow> 'n \<Rightarrow> go_error option \<times> 'n"
    and got :: "'n \<Rightarrow> pb_RefreshChunk list"
  assumes accepts: "fst (send c n) = None"
    and remembers: "got (snd (send c n)) = got n @ [c]"
begin

lemma send_loop_sends:
  assumes "0 < k" and "off \<le> length px"
  shows "\<exists>n'. send_loop send px (int k) (int off) n = Some (Ok (), n') \<and>
    got n' = got n @ map data_chunk (pieces k (drop off px))"
  using assms
proof (induction "length px - off" arbitrary: off n rule: less_induct)
  case less
  show ?case
  proof (cases "off < length px")
    case False
    then have "drop off px = []" by simp
    with False show ?thesis
      by (simp add: send_loop.simps [of send px "int k" "int off" n] pieces.simps [of k "[]"])
  next
    case True
    let ?hi = "if int off + int k > int (length px) then int (length px) else int off + int k"
    have sl: "slice px (int off) ?hi = take k (drop off px)"
      using True by (auto simp: slice_def)
    let ?n = "snd (send (data_chunk (take k (drop off px))) n)"
    have step: "send_loop send px (int k) (int off) n = send_loop send px (int k) (int (off + k)) ?n"
      using True less.prems sl accepts
      by (simp add: send_loop.simps [of send px "int k" "int off" n] Let_def)
    have p: "pieces k (drop off px) = take k (drop off px) # pieces k (drop (off + k) px)"
      using True less.prems(1) by (simp add: pieces.simps [of k "drop off px"] add.commute)
    show ?thesis
    proof (cases "off + k \<le> length px")
      case le: True
      have "length px - (off + k) < length px - off" using less.prems(1) True by linarith
      from less.hyps [OF this less.prems(1) le, of ?n] obtain n' where
        "send_loop send px (int k) (int (off + k)) ?n = Some (Ok (), n')"
        "got n' = got ?n @ map data_chunk (pieces k (drop (off + k) px))" by blast
      with step p remembers show ?thesis by simp
    next
      case False
      then have "drop (off + k) px = []" by simp
      moreover have "send_loop send px (int k) (int (off + k)) ?n = Some (Ok (), ?n)"
        using False by (subst send_loop.simps) simp
      ultimately show ?thesis
        using step p remembers by (simp add: pieces.simps [of k "[]"])
    qed
  qed
qed

text \<open>With a chunk size of zero a non-empty frame is never sent completely.\<close>

lemma send_loop_zero:
  assumes "px \<noteq> []"
  shows "send_loop send px 0 0 n = None"
proof -
  have no: "sd = send \<and> qx \<noteq> [] \<and> k = 0 \<and> off = 0 \<longrightarrow> False"
    if "send_loop sd qx k off m = Some r" for sd qx k off m r
    using that
  proof (rule send_loop.raw_induct [rotated], goal_cases)
    case (1 self sd qx k off m r)
    show ?case
    proof
      assume a: "sd = send \<and> qx \<noteq> [] \<and> k = 0 \<and> off = 0"
      then have "self send qx 0 0 (snd (send (data_chunk (slice qx 0 0)) m)) = Some r"
        using 1(2) accepts by (simp add: Let_def)
      from 1(1) [OF this] a show False by simp
    qed
  qed
  show ?thesis
  proof (cases "send_loop send px 0 0 n")
    case (Some r)
    with no [OF Some] assms show ?thesis by simp
  qed
qed

end

section \<open>A lossless wire to the server\<close>

text \<open>
  A connection that delivers every message in order to the handlers of a server, as HTTP/2 over TCP
  does: the server receives the outgoing metadata as incoming metadata, the chunks in the order in
  which they were sent, and \<open>io.EOF\<close> after them.
\<close>

record wire =
  wr_server :: svc_state
  wr_chunks :: "pb_RefreshChunk list"

definition incoming :: "out_ctx \<Rightarrow> context_t" where
  "incoming ctx =
     \<lparr>ctx_incoming = Some (\<lambda>k. map snd (filter (\<lambda>(k', v). k' = k) (oc_md ctx)))\<rparr>"

fun reply_of :: "'a outcome \<Rightarrow> go_error + 'a" where
  "reply_of (Ok x) = Inr x"
| "reply_of (Err e) = Inl e"
| "reply_of (Panic p) = Inl (ErrStatus Internal p)"

definition wire_invoke ::
    "env \<Rightarrow> string list \<Rightarrow> out_ctx \<Rightarrow> string \<Rightarrow> msg \<Rightarrow> wire \<Rightarrow> (go_error + msg) \<times> wire" where
  "wire_invoke E order ctx name inn w =
     (case find (\<lambda>(m, h). full_name (sd_ServiceName (Display_ServiceDesc :: svc_state ServiceDesc)) m = name)
         (sd_Methods Display_ServiceDesc) of
        None \<Rightarrow> (Inl (ErrStatus Unimplemented ''unknown method''), w)
      | Some (m, h) \<Rightarrow>
          (case h (service_server E order) (incoming ctx) (\<lambda>_. Inr inn) (Some (ta_Unary auth))
              (wr_server w) of
             (r, s) \<Rightarrow> (reply_of r, w\<lparr>wr_server := s\<rparr>)))"

definition wire_close :: "env \<Rightarrow> string list \<Rightarrow> out_ctx \<Rightarrow> wire \<Rightarrow> (go_error + pb_RefreshResponse) \<times> wire"
  where
  "wire_close E order ctx w =
     (case ta_Stream auth (Display_Refresh_Handler (service_server E order))
         \<lparr>ss_context = incoming ctx, ss_chunks = wr_chunks w, ss_end = ErrEOF, ss_send = None\<rparr>
         (wr_server w) of
        (r, s) \<Rightarrow> (reply_of r, \<lparr>wr_server = s, wr_chunks = []\<rparr>))"

definition wire_conn :: "env \<Rightarrow> string list \<Rightarrow> (wire, out_ctx) ClientConn" where
  "wire_conn E order =
     \<lparr>cc_Invoke = wire_invoke E order,
      cc_NewStream = (\<lambda>ctx name w. (Inr ctx, w\<lparr>wr_chunks := []\<rparr>)),
      cc_Send = (\<lambda>ctx c w. (None, w\<lparr>wr_chunks := wr_chunks w @ [c]\<rparr>)),
      cc_CloseAndRecv = wire_close E order\<rparr>"

interpretation wire: chunk_sink "cc_Send (wire_conn E order) ctx" wr_chunks for E order ctx
  by unfold_locales (simp_all add: wire_conn_def)

text \<open>Sending does not reach the handler before the stream is closed.\<close>

lemma wire_send_server [simp]:
  "wr_server (snd (cc_Send (wire_conn E order) ctx c w)) = wr_server w"
  "fst (cc_Send (wire_conn E order) ctx c w) = None"
  by (simp_all add: wire_conn_def)

lemma send_loop_server:
  assumes "send_loop sd px k off n = Some r"
  shows "sd = cc_Send (wire_conn E order) ctx \<longrightarrow> wr_server (snd r) = wr_server n"
  using assms
proof (rule send_loop.raw_induct [rotated], goal_cases)
  case (1 self sd px k off n r)
  show ?case
  proof
    assume sd: "sd = cc_Send (wire_conn E order) ctx"
    show "wr_server (snd r) = wr_server n"
      using 1(2) 1(1) [of sd px k "off + k" _ r] sd
      by (fastforce simp: Let_def split: if_splits)
  qed
qed

lemma receive_data:
  "n + int (length (concat ps)) \<le> want \<Longrightarrow>
     receive want n (map data_chunk ps) ErrEOF = Inr (concat ps)"
  by (induction ps arbitrary: n) (auto simp: data_chunk_def)

lemma upload_data:
  "length px \<le> cap \<Longrightarrow> concat ps = px \<Longrightarrow>
     upload cap \<lparr>prh_Mode = wm, prh_Region = None, prh_TotalBytes = int (length px)\<rparr>
       (map data_chunk ps) ErrEOF = Inr px"
  using receive_data [of 0 ps "int (length px)"] by (simp add: upload_def)

lemma send_frame_wire:
  assumes "0 < k" and "check (st_cm s) (incoming ctx) = None"
  shows "send_frame (wire_conn E order) ctx wm px (int k) \<lparr>wr_server = s, wr_chunks = []\<rparr> =
    (case ds_Refresh E \<lparr>ss_context = incoming ctx,
         ss_chunks = \<lparr>pck_Payload = Some (RefreshChunk_Header (Some
           \<lparr>prh_Mode = wm, prh_Region = None, prh_TotalBytes = int (length px)\<rparr>))\<rparr>
           # map data_chunk (pieces k px), ss_end = ErrEOF, ss_send = None\<rparr> s of
       (r, s') \<Rightarrow> Some (case reply_of r of Inl e \<Rightarrow> Err e | Inr x \<Rightarrow> Ok x,
         \<lparr>wr_server = s', wr_chunks = []\<rparr>))"
proof -
  let ?h = "\<lparr>pck_Payload = Some (RefreshChunk_Header (Some
      \<lparr>prh_Mode = wm, prh_Region = None, prh_TotalBytes = int (length px)\<rparr>))\<rparr>"
  let ?n = "\<lparr>wr_server = s, wr_chunks = [?h]\<rparr>"
  have h: "cc_Send (wire_conn E order) ctx ?h \<lparr>wr_server = s, wr_chunks = []\<rparr> = (None, ?n)"
    by (simp add: wire_conn_def)
  obtain n' where l: "send_loop (cc_Send (wire_conn E order) ctx) px (int k) 0 ?n = Some (Ok (), n')"
    "wr_chunks n' = ?h # map data_chunk (pieces k px)"
    using wire.send_loop_sends [OF assms(1), of 0 px E order ctx ?n] by auto
  have "wr_server n' = s" using send_loop_server [OF l(1)] by simp
  then have n': "n' = \<lparr>wr_server = s, wr_chunks = ?h # map data_chunk (pieces k px)\<rparr>"
    using l(2) by (cases n') simp
  have c: "cc_CloseAndRecv (wire_conn E order) = wire_close E order" by (simp add: wire_conn_def)
  show ?thesis
    unfolding send_frame_def Let_def h prod.case option.case l(1) outcome.case c n'
    using assms(2)
    by (simp add: wire_close_def ta_Stream_def auth_def NewTokenAuth_def Display_Refresh_Handler_def
        service_server_def split: prod.split sum.split)
qed

text \<open>What \<open>dial\<close> puts into the context is what the server's token check reads.\<close>

lemma dial_ctx:
  "dial E nc c w = (Inr (conn, ctx), w') \<Longrightarrow>
     ctx = \<lparr>oc_md = [(''authorization'', bearer @ cf_token c)]\<rparr>"
  by (auto simp: dial_def bearer_def Let_def split: prod.splits sum.splits if_splits)

lemma incoming_bearer: "incoming \<lparr>oc_md = [(''authorization'', bearer @ t)]\<rparr> = bearer_ctx t"
  by (auto simp: incoming_def bearer_ctx_def)

lemma dial_accepted:
  assumes "dial E nc c w = (Inr (conn, ctx), w')" and "token_ok (cf_token c)"
    and "valid_token cm (cf_token c)"
  shows "check cm (incoming ctx) = None"
  using check_cases [of cm "bearer_ctx (cf_token c)"] presented_bearer_ctx [OF assms(2)] assms(3)
  by (simp add: dial_ctx [OF assms(1)] incoming_bearer)

lemma send_frame_upload:
  assumes "0 < k" and "check (st_cm s) (incoming ctx) = None"
    and "ds_display (st_svc s) = Some d"
    and "display_AcquireFrame E d (snd (time_now E (st_world s))) = (Ok f, w1)"
    and "frame_bytes f w1 = Some old" and "length px \<le> fr_len f"
  shows "\<exists>res n' r.
    send_frame (wire_conn E order) ctx wm px (int k) \<lparr>wr_server = s, wr_chunks = []\<rparr> = Some (res, n') \<and>
    sends (st_world (wr_server n')) =
      EvSend (fd_of w1 (fr_display f)) (commit_info f (translateMode wm) None)
        (px @ drop (length px) old) r # sends (st_world s) \<and>
    (is_ok res \<longleftrightarrow> r = None)"
proof -
  let ?hdr = "\<lparr>prh_Mode = wm, prh_Region = None, prh_TotalBytes = int (length px)\<rparr>"
  let ?c = "\<lparr>pck_Payload = Some (RefreshChunk_Header (Some ?hdr))\<rparr>"
  let ?ss = "\<lparr>ss_context = incoming ctx, ss_chunks = ?c # map data_chunk (pieces k px),
     ss_end = ErrEOF, ss_send = None\<rparr>"
  obtain r0 s' where R: "(r0, s') = ds_Refresh E ?ss s" by (metis surj_pair)
  have u: "upload (fr_len f) ?hdr (map data_chunk (pieces k px)) (ss_end ?ss) = Inr px"
    using upload_data [OF assms(6) concat_pieces [OF assms(1)]] by simp
  have p: "pck_Payload ?c = Some (RefreshChunk_Header (Some ?hdr))" "ss_chunks ?ss = ?c # map data_chunk (pieces k px)"
    by simp_all
  have x: "ss_send ?ss = None" "prh_Mode ?hdr = wm" "region_of_pb (prh_Region ?hdr) = None"
    by (simp_all add: region_of_pb_def)
  from refresh_upload [OF assms(3) p(2,1) assms(4,5) R] obtain r where
    r: "sends (st_world s') = EvSend (fd_of w1 (fr_display f))
        (commit_info f (translateMode wm) None) (px @ drop (length px) old) r # sends (st_world s)"
    and c: "case r of None \<Rightarrow> (case None of None \<Rightarrow> is_ok r0 | Some e \<Rightarrow> r0 = Err e)
      | Some n \<Rightarrow> \<exists>m. r0 = Err (ErrStatus Internal (''commit: '' @ m))"
    unfolding u x sum.case by (elim exE conjE)
  have "is_ok (case reply_of r0 of Inl e \<Rightarrow> Err e | Inr x \<Rightarrow> Ok x) \<longleftrightarrow> r = None"
    using c by (cases r; cases r0) auto
  then show ?thesis
    using send_frame_wire [OF assms(1,2), of E order wm px] R [symmetric] r by auto
qed

section \<open>Properties\<close>

text \<open>
  The command on its parsed flags.  When \<open>refresh\<close> sends a file over a lossless connection with a valid
  token, whatever positive chunk size is chosen, the loop ends and the panel receives exactly one
  buffer: the bytes of the file followed by the untouched rest of the frame, in the requested
  mode, on the whole panel.  The command succeeds unless the device refuses the buffer.
\<close>

lemma refresh_end_to_end:
  assumes "0 < k" and "cf_validate c = None" and "path \<noteq> []"
    and "parseWaveform (ce_text X) mode = (wm, True)"
    and "os_ReadFile (ce_env X) [path] (cl_world z) = (Inr content, v1)"
    and "dial (ce_env X) (ce_client X) c v1 = (Inr (wire_conn E order, ctx), v2)"
    and "cl_net z = \<lparr>wr_server = s, wr_chunks = []\<rparr>"
    and "token_ok (cf_token c)" and "valid_token (st_cm s) (cf_token c)"
    and "ds_display (st_svc s) = Some d"
    and "display_AcquireFrame E d (snd (time_now E (st_world s))) = (Ok f, w1)"
    and "frame_bytes f w1 = Some old" and "length content \<le> fr_len f"
  shows "\<exists>res z' r.
    cmdRefresh X c path mode (int k) z = Some (res, z') \<and>
    sends (st_world (wr_server (cl_net z'))) =
      EvSend (fd_of w1 (fr_display f)) (commit_info f (translateMode wm) None)
        (bytes_of content @ drop (length content) old) r # sends (st_world s) \<and>
    (is_ok res \<longleftrightarrow> r = None)"
proof -
  have len: "length (bytes_of content) \<le> fr_len f" using assms(13) by (simp add: bytes_of_def)
  obtain res n' r where
    f: "send_frame (wire_conn E order) ctx wm (bytes_of content) (int k)
        \<lparr>wr_server = s, wr_chunks = []\<rparr> = Some (res, n')"
    and r: "sends (st_world (wr_server n')) =
      EvSend (fd_of w1 (fr_display f)) (commit_info f (translateMode wm) None)
        (bytes_of content @ drop (length (bytes_of content)) old) r # sends (st_world s)"
      "is_ok res \<longleftrightarrow> r = None"
    using send_frame_upload [OF assms(1) dial_accepted [OF assms(6,8,9)] assms(10-12) len,
        of order wm] by blast
  have "client_Refresh (wire_conn E order) ctx (cl_net z) =
      (Ok ctx, \<lparr>wr_server = s, wr_chunks = []\<rparr>)"
    by (simp add: client_Refresh_def wire_conn_def assms(7))
  then have "\<exists>res' z'. cmdRefresh X c path mode (int k) z = Some (res', z') \<and> cl_net z' = n' \<and>
      (is_ok res' \<longleftrightarrow> is_ok res)"
    using f assms(2-6)
    by (cases res) (simp_all add: cmdRefresh_def finish_with_def printf_def)
  with r show ?thesis by (auto simp: bytes_of_def)
qed

text \<open>A session at the command line: a file of three bytes, the operator's token, no TLS.\<close>

definition demo_flags :: commonFlags where
  "demo_flags = \<lparr>cf_host = ''panel'', cf_port = 50051, cf_token = cm_Token demo_cm, cf_certFile = [],
     cf_clientCert = [], cf_clientKey = [], cf_insecure = True\<rparr>"

definition demo_cli_env :: "(wire, out_ctx) cli_env" where
  "demo_cli_env = \<lparr>ce_text = \<lparr>gt_lower = id, gt_quote = id, gt_join = concat\<rparr>, ce_env = demo_env,
     ce_client = (\<lambda>target creds. Inr (wire_conn demo_env all_names))\<rparr>"

definition demo_cli :: "wire cli" where
  "demo_cli = \<lparr>cl_world = empty_world\<lparr>files := [[''frame''] \<mapsto> ''abc'']\<rparr>,
     cl_net = \<lparr>wr_server = demo_svc, wr_chunks = []\<rparr>, cl_out = []\<rparr>"

lemma demo_session:
  "cf_validate demo_flags = None"
  "parseWaveform (ce_text demo_cli_env) ''Full'' = (7, True)"
  "os_ReadFile (ce_env demo_cli_env) [''frame''] (cl_world demo_cli) =
     (Inr ''abc'', log_ev (EvReadFile [''frame'']) (cl_world demo_cli))"
  "dial (ce_env demo_cli_env) (ce_client demo_cli_env) demo_flags v =
     (Inr (wire_conn demo_env all_names, \<lparr>oc_md = [(''authorization'', ''Bearer '' @ cf_token demo_flags)]\<rparr>), v)"
  "cl_net demo_cli = \<lparr>wr_server = demo_svc, wr_chunks = []\<rparr>"
  "token_ok (cf_token demo_flags)" "valid_token (st_cm demo_svc) (cf_token demo_flags)"
  "sends (st_world demo_svc) = []"
proof -
  show "cf_validate demo_flags = None"
    using demo_cm_tokens(1) by (auto simp: cf_validate_def demo_flags_def token_ok_def)
  have "parseWaveform (ce_text demo_cli_env) ''Full'' = mode_switch (map lower_byte ''Full'')"
    by (rule parseWaveform_plain) (simp_all add: visible_def)
  moreover have "map lower_byte ''Full'' = ''full''" by code_simp
  ultimately show "parseWaveform (ce_text demo_cli_env) ''Full'' = (7, True)"
    by (simp add: mode_switch_def pb_mode_consts)
  show "os_ReadFile (ce_env demo_cli_env) [''frame''] (cl_world demo_cli) =
      (Inr ''abc'', log_ev (EvReadFile [''frame'']) (cl_world demo_cli))"
    by (simp add: os_ReadFile_def demo_cli_env_def demo_cli_def demo_env_def)
  show "dial (ce_env demo_cli_env) (ce_client demo_cli_env) demo_flags v =
      (Inr (wire_conn demo_env all_names, \<lparr>oc_md = [(''authorization'', ''Bearer '' @ cf_token demo_flags)]\<rparr>), v)"
    by (simp add: dial_def demo_cli_env_def demo_flags_def)
  show "cl_net demo_cli = \<lparr>wr_server = demo_svc, wr_chunks = []\<rparr>" by (simp add: demo_cli_def)
  have t: "cf_token demo_flags = cm_Token demo_cm" by (simp add: demo_flags_def)
  show tok: "token_ok (cf_token demo_flags)" using demo_cm_tokens(1) t by simp
  show "valid_token (st_cm demo_svc) (cf_token demo_flags)"
    using token_ok_nonempty [OF tok] by (simp add: valid_token_def t demo_svc_def)
  show "sends (st_world demo_svc) = []" by (simp add: sends_def demo_svc_sel)
qed

lemma demo_session_frame:
  "\<exists>f w1 old. display_AcquireFrame demo_env 0 (snd (time_now demo_env (st_world demo_svc))) = (Ok f, w1) \<and>
     frame_bytes f w1 = Some old \<and> fr_len f = 12 \<and> fd_of w1 = (\<lambda>_. 3)"
proof -
  let ?w = "snd (time_now demo_env (st_world demo_svc))"
  have w: "4096 \<notin> live_maps (hist ?w)" "fd_of ?w 0 = 3"
    by (simp_all add: time_now_def demo_svc_sel Let_def)
  obtain f w1 where a: "display_AcquireFrame demo_env 0 ?w = (Ok f, w1)" and
    f: "fr_len f = 12" "fd_of w1 = fd_of ?w"
    using demo_acquire [OF w] by blast
  moreover obtain old where "frame_bytes f w1 = Some old"
    using acquire_pixels [OF a] by (auto simp: frame_bytes_def)
  moreover have "fd_of w1 = (\<lambda>_. 3)"
    by (simp add: f time_now_def Let_def fun_eq_iff demo_svc_sel)
  ultimately show ?thesis by blast
qed

text \<open>
  Wrong arguments reach nobody.  \<open>fill\<close> with missing flags, an unparsable colour or an unknown
  mode, and \<open>refresh\<close> with missing flags, no file, an unknown mode or an unreadable file, fail before
  anything is dialled: network and output are untouched.
\<close>

lemma bad_arguments_reach_nobody:
  "(cf_validate c \<noteq> None \<or> isl (parse_argb (ce_text X) argb) \<or> \<not> snd (parseWaveform (ce_text X) mode)
     \<longrightarrow> \<not> is_ok (fst (cmdFill X c argb mode z)) \<and> snd (cmdFill X c argb mode z) = z) \<and>
   (cf_validate c \<noteq> None \<or> path = [] \<or> \<not> snd (parseWaveform (ce_text X) mode) \<or>
      isl (fst (os_ReadFile (ce_env X) [path] (cl_world z)))
     \<longrightarrow> (case cmdRefresh X c path mode k z of
            None \<Rightarrow> False
          | Some (r, z') \<Rightarrow> \<not> is_ok r \<and> cl_net z' = cl_net z \<and> cl_out z' = cl_out z))"
  by (auto simp: cmdFill_def cmdRefresh_def split: option.splits sum.splits prod.splits)

lemma bad_arguments_reach_nobody_example:
  "snd (cmdFill demo_cli_env (demo_flags\<lparr>cf_host := []\<rparr>) ''0xFF'' ''Full'' demo_cli) = demo_cli"
proof -
  have "cf_validate (demo_flags\<lparr>cf_host := []\<rparr>) \<noteq> None" by (simp add: cf_validate_def)
  with bad_arguments_reach_nobody [of "demo_flags\<lparr>cf_host := []\<rparr>" demo_cli_env "''0xFF''" "''Full''"
      demo_cli, THEN conjunct1] show ?thesis by blast
qed

text \<open>
  A chunk size of zero hangs, a negative one panics.  \<open>--chunk-bytes\<close> is not validated: with 0
  the command keeps sending empty chunks and never returns, and with a negative value the slice
  expression panics before any data is sent; only for an empty file does the loop end.
\<close>

lemma bad_chunk_size:
  assumes "px \<noteq> []"
  shows "send_loop (cc_Send (wire_conn E order) ctx) px 0 0 n = None \<and>
    send_loop sd px (- int (Suc j)) 0 m = Some (Panic ''slice bounds out of range'', m) \<and>
    send_loop sd [] k 0 m = Some (Ok (), m)"
proof (intro conjI)
  show "send_loop (cc_Send (wire_conn E order) ctx) px 0 0 n = None"
    by (rule wire.send_loop_zero [OF assms])
  show "send_loop sd px (- int (Suc j)) 0 m = Some (Panic ''slice bounds out of range'', m)"
    by (subst send_loop.simps) (simp add: assms Let_def)
  show "send_loop sd [] k 0 m = Some (Ok (), m)"
    by (subst send_loop.simps) simp
qed

end
