(* ===== verification/Cli_Flags.thy ===== *)
theory Cli_Flags
  imports Cli
begin

text \<open>
  The command line as a whole: the flag sets of \<open>tableaux-cli\<close> (\<open>dial.go\<close>, \<open>commands.go\<close>), their
  parsing by the standard packages \<open>flag\<close> and \<open>strconv\<close>, and \<open>main\<close> (\<open>main.go\<close>), which dispatches and
  turns the result into an exit status.
\<close>

section \<open>Numbers and truth values\<close>

text \<open>\<open>strconv.ParseInt(s, 0, 64)\<close>: \<open>lower(c)\<close> is \<open>c | 0x20\<close>, a prefix selects the base.\<close>

definition lower_code :: "char \<Rightarrow> nat" where
  "lower_code c = or (of_char c) 32"

definition base_prefix :: "string \<Rightarrow> nat \<times> string" where
  "base_prefix s =
     (if hd s \<noteq> CHR ''0'' then (10, s)
      else if 3 \<le> length s \<and> lower_code (s ! 1) = 98 then (2, drop 2 s)
      else if 3 \<le> length s \<and> lower_code (s ! 1) = 111 then (8, drop 2 s)
      else if 3 \<le> length s \<and> lower_code (s ! 1) = 120 then (16, drop 2 s)
      else (8, tl s))"

definition digit_code :: "char \<Rightarrow> nat option" where
  "digit_code c =
     (if is_digit c then Some (of_char c - 48)
      else if 97 \<le> lower_code c \<and> lower_code c \<le> 122 then Some (lower_code c - 97 + 10)
      else None)"

text \<open>The digits of a 64-bit number; the flag tells whether an underscore was skipped.\<close>

fun digits64 :: "nat \<Rightarrow> nat \<Rightarrow> bool \<Rightarrow> string \<Rightarrow> num_error + nat \<times> bool" where
  "digits64 base n us [] = Inr (n, us)"
| "digits64 base n us (c # cs) =
     (if c = CHR ''_'' then digits64 base n True cs
      else case digit_code c of
        None \<Rightarrow> Inl SyntaxErr
      | Some d \<Rightarrow>
          (if d \<ge> base then Inl SyntaxErr
           else if n \<ge> (2 ^ 64 - 1) div base + 1 then Inl RangeErr
           else if n * base + d > 2 ^ 64 - 1 then Inl RangeErr
           else digits64 base (n * base + d) us cs))"

datatype saw = SawBegin | SawDigit | SawUnderscore | SawOther

fun underscore_loop :: "bool \<Rightarrow> saw \<Rightarrow> string \<Rightarrow> bool" where
  "underscore_loop hex s [] = (s \<noteq> SawUnderscore)"
| "underscore_loop hex s (c # cs) =
     (if is_digit c \<or> hex \<and> 97 \<le> lower_code c \<and> lower_code c \<le> 102
      then underscore_loop hex SawDigit cs
      else if c = CHR ''_''
      then (if s \<noteq> SawDigit then False else underscore_loop hex SawUnderscore cs)
      else if s = SawUnderscore then False else underscore_loop hex SawOther cs)"

definition underscoreOK :: "string \<Rightarrow> bool" where
  "underscoreOK s =
     (let s = (if s \<noteq> [] \<and> (hd s = CHR ''-'' \<or> hd s = CHR ''+'') then tl s else s)
      in if 2 \<le> length s \<and> hd s = CHR ''0'' \<and> lower_code (s ! 1) \<in> {98, 111, 120}
         then underscore_loop (lower_code (s ! 1) = 120) SawDigit (drop 2 s)
         else underscore_loop False SawBegin s)"

definition ParseUint_0_64 :: "string \<Rightarrow> num_error + nat" where
  "ParseUint_0_64 s =
     (if s = [] then Inl SyntaxErr
      else case base_prefix s of
        (base, t) \<Rightarrow>
          (case digits64 base 0 False t of
             Inl e \<Rightarrow> Inl e
           | Inr (n, us) \<Rightarrow> (if us \<and> \<not> underscoreOK s then Inl SyntaxErr else Inr n)))"

definition ParseInt_0_64 :: "string \<Rightarrow> num_error + int" where
  "ParseInt_0_64 s =
     (if s = [] then Inl SyntaxErr
      else
        (let neg = (hd s = CHR ''-'');
             t = (if hd s = CHR ''+'' \<or> hd s = CHR ''-'' then tl s else s)
         in case ParseUint_0_64 t of
              Inl e \<Rightarrow> Inl e
            | Inr un \<Rightarrow>
                (if \<not> neg \<and> un \<ge> 2 ^ 63 then Inl RangeErr
                 else if neg \<and> un > 2 ^ 63 then Inl RangeErr
                 else Inr (if neg then - int un else int un))))"

definition ParseBool :: "string \<Rightarrow> bool option" where
  "ParseBool s =
     (if s \<in> {''1'', ''t'', ''T'', ''true'', ''TRUE'', ''True''} then Some True
      else if s \<in> {''0'', ''f'', ''F'', ''false'', ''FALSE'', ''False''} then Some False
      else None)"

section \<open>The package \<open>flag\<close>\<close>

text \<open>A flag sets a variable; here the variables are the fields of a record of type \<open>'c\<close>.\<close>

datatype 'c setter =
    StrVar "string \<Rightarrow> 'c \<Rightarrow> 'c"
  | IntVar "int \<Rightarrow> 'c \<Rightarrow> 'c"
  | BoolVar "bool \<Rightarrow> 'c \<Rightarrow> 'c"

type_synonym 'c flagset = "(string \<times> 'c setter) list"

fun flag_error :: "num_error \<Rightarrow> string" where
  "flag_error SyntaxErr = ''parse error''"
| "flag_error RangeErr = ''value out of range''"

fun set_flag :: "'c setter \<Rightarrow> string \<Rightarrow> 'c \<Rightarrow> string + 'c" where
  "set_flag (StrVar f) v c = Inr (f v c)"
| "set_flag (IntVar f) v c =
     (case ParseInt_0_64 v of Inl e \<Rightarrow> Inl (flag_error e) | Inr n \<Rightarrow> Inr (f n c))"
| "set_flag (BoolVar f) v c =
     (case ParseBool v of None \<Rightarrow> Inl ''parse error'' | Some b \<Rightarrow> Inr (f b c))"

text \<open>\<open>name=value\<close>, where the name is not empty.\<close>

definition split_flag :: "string \<Rightarrow> string \<times> string option" where
  "split_flag s =
     (let name = takeWhile (\<lambda>c. c \<noteq> CHR ''='') s
      in (name, if length name < length s then Some (drop (Suc (length name)) s) else None))"

datatype 'c flag_step = FlagDone | FlagNext 'c "string list" | FlagFail string | FlagHelp

definition flag_set ::
    "(string \<Rightarrow> string) \<Rightarrow> 'c setter \<Rightarrow> string \<Rightarrow> 'c \<Rightarrow> string list \<Rightarrow> 'c flag_step" where
  "flag_set msg st v c rest =
     (case set_flag st v c of Inl e \<Rightarrow> FlagFail (msg e) | Inr c1 \<Rightarrow> FlagNext c1 rest)"

text \<open>\<open>parseOne\<close>, for a flag named \<open>name\<close> that may carry a value.\<close>

definition parse_named ::
    "go_text \<Rightarrow> 'c flagset \<Rightarrow> string \<Rightarrow> string option \<Rightarrow> 'c \<Rightarrow> string list \<Rightarrow> 'c flag_step" where
  "parse_named G fs name val c rest =
     (case map_of fs name of
        None \<Rightarrow>
          (if name = ''help'' \<or> name = ''h'' then FlagHelp
           else FlagFail (''flag provided but not defined: -'' @ name))
      | Some (BoolVar f) \<Rightarrow>
          (case val of
             Some v \<Rightarrow>
               flag_set (\<lambda>e. ''invalid boolean value '' @ gt_quote G v @ '' for -'' @ name @ '': '' @ e)
                 (BoolVar f) v c rest
           | None \<Rightarrow> FlagNext (f True c) rest)
      | Some st \<Rightarrow>
          (case (val, rest) of
             (Some v, _) \<Rightarrow>
               flag_set (\<lambda>e. ''invalid value '' @ gt_quote G v @ '' for flag -'' @ name @ '': '' @ e)
                 st v c rest
           | (None, v # rest1) \<Rightarrow>
               flag_set (\<lambda>e. ''invalid value '' @ gt_quote G v @ '' for flag -'' @ name @ '': '' @ e)
                 st v c rest1
           | (None, []) \<Rightarrow> FlagFail (''flag needs an argument: -'' @ name)))"

definition parse_one :: "go_text \<Rightarrow> 'c flagset \<Rightarrow> 'c \<Rightarrow> string list \<Rightarrow> 'c flag_step" where
  "parse_one G fs c args =
     (case args of
        [] \<Rightarrow> FlagDone
      | s # rest \<Rightarrow>
          (if length s < 2 \<or> hd s \<noteq> CHR ''-'' then FlagDone
           else if s = ''--'' then FlagDone
           else
             (let name = drop (if s ! 1 = CHR ''-'' then 2 else 1) s
              in if hd name = CHR ''-'' \<or> hd name = CHR ''='' then FlagFail (''bad flag syntax: '' @ s)
                 else case split_flag name of (nm, val) \<Rightarrow> parse_named G fs nm val c rest)))"

lemma flag_set_rest: "flag_set msg st v c rest = FlagNext c1 r \<Longrightarrow> r = rest"
  by (auto simp: flag_set_def split: sum.splits)

lemma parse_named_length:
  "parse_named G fs name val c rest = FlagNext c1 r \<Longrightarrow> length r \<le> length rest"
  by (auto simp: parse_named_def split: option.splits setter.splits list.splits if_splits
      dest: flag_set_rest)

lemma parse_one_length: "parse_one G fs c args = FlagNext c1 r \<Longrightarrow> length r < length args"
  by (auto simp: parse_one_def Let_def split: list.splits if_splits prod.splits
      dest!: parse_named_length)

text \<open>
  \<open>Parse\<close> with \<open>ExitOnError\<close>: a request for help ends the program with 0, an error with 2.  Of what
  is printed then, the usage text that the package generates is left out.
\<close>

datatype 'c parsed = Parsed 'c | Exits nat "string list"

function parse_flags :: "go_text \<Rightarrow> 'c flagset \<Rightarrow> 'c \<Rightarrow> string list \<Rightarrow> 'c parsed" where
  "parse_flags G fs c args =
     (case parse_one G fs c args of
        FlagDone \<Rightarrow> Parsed c
      | FlagNext c1 rest \<Rightarrow> parse_flags G fs c1 rest
      | FlagFail m \<Rightarrow> Exits 2 [m]
      | FlagHelp \<Rightarrow> Exits 0 [])"
  by pat_completeness auto
termination
  by (relation "measure (\<lambda>(G, fs, c, args). length args)") (auto dest: parse_one_length)

declare parse_flags.simps [simp del]

section \<open>The flag sets\<close>

text \<open>The variables of all commands; each command registers its own.\<close>

record cmd_flags =
  fl_common :: commonFlags
  fl_argb :: string
  fl_mode :: string
  fl_pixels :: string
  fl_chunkBytes :: int
  fl_enabled :: bool
  fl_out :: string
  fl_timeout :: int
  fl_first :: bool

definition common :: "(commonFlags \<Rightarrow> commonFlags) \<Rightarrow> cmd_flags \<Rightarrow> cmd_flags" where
  "common f c = c\<lparr>fl_common := f (fl_common c)\<rparr>"

definition registerCommonFlags :: "cmd_flags flagset" where
  "registerCommonFlags =
     [(''host'', StrVar (\<lambda>v. common (\<lambda>c. c\<lparr>cf_host := v\<rparr>))),
      (''H'', StrVar (\<lambda>v. common (\<lambda>c. c\<lparr>cf_host := v\<rparr>))),
      (''port'', IntVar (\<lambda>v. common (\<lambda>c. c\<lparr>cf_port := v\<rparr>))),
      (''p'', IntVar (\<lambda>v. common (\<lambda>c. c\<lparr>cf_port := v\<rparr>))),
      (''token'', StrVar (\<lambda>v. common (\<lambda>c. c\<lparr>cf_token := v\<rparr>))),
      (''t'', StrVar (\<lambda>v. common (\<lambda>c. c\<lparr>cf_token := v\<rparr>))),
      (''cert'', StrVar (\<lambda>v. common (\<lambda>c. c\<lparr>cf_certFile := v\<rparr>))),
      (''client-cert'', StrVar (\<lambda>v. common (\<lambda>c. c\<lparr>cf_clientCert := v\<rparr>))),
      (''client-key'', StrVar (\<lambda>v. common (\<lambda>c. c\<lparr>cf_clientKey := v\<rparr>))),
      (''insecure'', BoolVar (\<lambda>v. common (\<lambda>c. c\<lparr>cf_insecure := v\<rparr>)))]"

text \<open>What the variables hold before parsing: the defaults of the flags that are registered.\<close>

definition default_common :: commonFlags where
  "default_common = \<lparr>cf_host = [], cf_port = 50051, cf_token = [], cf_certFile = [],
     cf_clientCert = [], cf_clientKey = [], cf_insecure = False\<rparr>"

definition default_flags :: cmd_flags where
  "default_flags = \<lparr>fl_common = default_common, fl_argb = [], fl_mode = [], fl_pixels = [],
     fl_chunkBytes = 0, fl_enabled = False, fl_out = [], fl_timeout = 0, fl_first = False\<rparr>"

datatype command =
    CInfo | CHealth | CFill | CRefresh | COverlay | CRotate | CReissue | CMetrics | CDiscover
  | CConnect

definition fill_flags :: "cmd_flags flagset" where
  "fill_flags = registerCommonFlags @
     [(''argb'', StrVar (\<lambda>v c. c\<lparr>fl_argb := v\<rparr>)), (''mode'', StrVar (\<lambda>v c. c\<lparr>fl_mode := v\<rparr>))]"
definition refresh_flags :: "cmd_flags flagset" where
  "refresh_flags = registerCommonFlags @
     [(''pixels'', StrVar (\<lambda>v c. c\<lparr>fl_pixels := v\<rparr>)), (''mode'', StrVar (\<lambda>v c. c\<lparr>fl_mode := v\<rparr>)),
      (''chunk-bytes'', IntVar (\<lambda>v c. c\<lparr>fl_chunkBytes := v\<rparr>))]"
definition overlay_flags :: "cmd_flags flagset" where
  "overlay_flags = registerCommonFlags @ [(''enabled'', BoolVar (\<lambda>v c. c\<lparr>fl_enabled := v\<rparr>))]"
definition reissue_flags :: "cmd_flags flagset" where
  "reissue_flags = registerCommonFlags @ [(''out'', StrVar (\<lambda>v c. c\<lparr>fl_out := v\<rparr>))]"
definition discover_flags :: "cmd_flags flagset" where
  "discover_flags =
     [(''timeout'', IntVar (\<lambda>v c. c\<lparr>fl_timeout := v\<rparr>)), (''first'', BoolVar (\<lambda>v c. c\<lparr>fl_first := v\<rparr>))]"

definition fill_defaults :: cmd_flags where
  "fill_defaults = default_flags\<lparr>fl_argb := ''0xFFFFFF'', fl_mode := ''GC16''\<rparr>"
definition refresh_defaults :: cmd_flags where
  "refresh_defaults = default_flags\<lparr>fl_mode := ''SpectraFullGC16'', fl_chunkBytes := 65536\<rparr>"
definition reissue_defaults :: cmd_flags where
  "reissue_defaults = default_flags\<lparr>fl_out := ''./tls''\<rparr>"
definition discover_defaults :: cmd_flags where
  "discover_defaults = default_flags\<lparr>fl_timeout := 5\<rparr>"

section \<open>The program\<close>

text \<open>
  What running a command ends in: its result, an exit of the flag package, or nothing.  The
  resolver and the decoding of unusual hosts are parameters.
\<close>

record ('n, 'st) program =
  pg_env :: "('n, 'st) cli_env"
  pg_resolver :: "go_error + (int \<Rightarrow> go_error + service_entry list)"
  pg_weird_host :: "string \<Rightarrow> go_error + string"

datatype 'n ran = Returns "unit outcome" "'n cli" | ExitsWith nat "string list" | NeverReturns

fun ran_of :: "unit outcome \<times> 'n cli \<Rightarrow> 'n ran" where
  "ran_of (r, s) = Returns r s"

definition with_flags ::
    "go_text \<Rightarrow> cmd_flags flagset \<Rightarrow> cmd_flags \<Rightarrow> string list \<Rightarrow> (cmd_flags \<Rightarrow> 'n ran) \<Rightarrow> 'n ran" where
  "with_flags G fs c args k =
     (case parse_flags G fs c args of Exits n m \<Rightarrow> ExitsWith n m | Parsed c1 \<Rightarrow> k c1)"

text \<open>The whole body of each command: its flags, then what is modelled in the theory \<open>Cli\<close>.\<close>

definition run_info :: "('n, 'st) program \<Rightarrow> string list \<Rightarrow> 'n cli \<Rightarrow> 'n ran" where
  "run_info P args s = with_flags (ce_text (pg_env P)) registerCommonFlags default_flags args
     (\<lambda>c. ran_of (cmdInfo (pg_env P) (fl_common c) s))"

definition run_health :: "('n, 'st) program \<Rightarrow> string list \<Rightarrow> 'n cli \<Rightarrow> 'n ran" where
  "run_health P args s = with_flags (ce_text (pg_env P)) registerCommonFlags default_flags args
     (\<lambda>c. ran_of (cmdHealth (pg_env P) (fl_common c) s))"

definition run_fill :: "('n, 'st) program \<Rightarrow> string list \<Rightarrow> 'n cli \<Rightarrow> 'n ran" where
  "run_fill P args s = with_flags (ce_text (pg_env P)) fill_flags fill_defaults args
     (\<lambda>c. ran_of (cmdFill (pg_env P) (fl_common c) (fl_argb c) (fl_mode c) s))"

definition run_refresh :: "('n, 'st) program \<Rightarrow> string list \<Rightarrow> 'n cli \<Rightarrow> 'n ran" where
  "run_refresh P args s = with_flags (ce_text (pg_env P)) refresh_flags refresh_defaults args
     (\<lambda>c. case cmdRefresh (pg_env P) (fl_common c) (fl_pixels c) (fl_mode c) (fl_chunkBytes c) s of
        None \<Rightarrow> NeverReturns | Some r \<Rightarrow> ran_of r)"

definition run_overlay :: "('n, 'st) program \<Rightarrow> string list \<Rightarrow> 'n cli \<Rightarrow> 'n ran" where
  "run_overlay P args s = with_flags (ce_text (pg_env P)) overlay_flags default_flags args
     (\<lambda>c. ran_of (cmdOverlay (pg_env P) (fl_common c) (fl_enabled c) s))"

definition run_rotate :: "('n, 'st) program \<Rightarrow> string list \<Rightarrow> 'n cli \<Rightarrow> 'n ran" where
  "run_rotate P args s = with_flags (ce_text (pg_env P)) registerCommonFlags default_flags args
     (\<lambda>c. ran_of (cmdRotate (pg_env P) (fl_common c) s))"

definition run_reissue :: "('n, 'st) program \<Rightarrow> string list \<Rightarrow> 'n cli \<Rightarrow> 'n ran" where
  "run_reissue P args s = with_flags (ce_text (pg_env P)) reissue_flags reissue_defaults args
     (\<lambda>c. ran_of (cmdReissue (pg_env P) (fl_common c) (fl_out c) s))"

definition run_metrics :: "('n, 'st) program \<Rightarrow> string list \<Rightarrow> 'n cli \<Rightarrow> 'n ran" where
  "run_metrics P args s = with_flags (ce_text (pg_env P)) registerCommonFlags default_flags args
     (\<lambda>c. ran_of (cmdMetrics (pg_env P) (fl_common c) s))"

definition run_discover :: "('n, 'st) program \<Rightarrow> string list \<Rightarrow> 'n cli \<Rightarrow> 'n ran" where
  "run_discover P args s = with_flags (ce_text (pg_env P)) discover_flags discover_defaults args
     (\<lambda>c. ran_of (cmdDiscover (pg_resolver P) (fl_timeout c) (fl_first c) s))"

lemmas run_defs [simp] =
  run_info_def run_health_def run_fill_def run_refresh_def run_overlay_def run_rotate_def
  run_reissue_def run_metrics_def run_discover_def

fun run_command ::
    "('n, 'st) program \<Rightarrow> command \<Rightarrow> string list \<Rightarrow> 'n cli \<Rightarrow> 'n ran" where
  "run_command P CInfo args s = run_info P args s"
| "run_command P CHealth args s = run_health P args s"
| "run_command P CFill args s = run_fill P args s"
| "run_command P CRefresh args s = run_refresh P args s"
| "run_command P COverlay args s = run_overlay P args s"
| "run_command P CRotate args s = run_rotate P args s"
| "run_command P CReissue args s = run_reissue P args s"
| "run_command P CMetrics args s = run_metrics P args s"
| "run_command P CDiscover args s = run_discover P args s"
| "run_command P CConnect args s =
     ran_of (cmdConnect (ce_text (pg_env P)) (pg_weird_host P) args s)"

definition command_of :: "string \<Rightarrow> command option" where
  "command_of cmd =
     (if cmd = ''info'' then Some CInfo
      else if cmd = ''health'' then Some CHealth
      else if cmd = ''fill'' then Some CFill
      else if cmd = ''refresh'' then Some CRefresh
      else if cmd = ''overlay'' then Some COverlay
      else if cmd = ''rotate'' then Some CRotate
      else if cmd = ''reissue'' then Some CReissue
      else if cmd = ''metrics'' then Some CMetrics
      else if cmd = ''discover'' then Some CDiscover
      else if cmd = ''connect'' then Some CConnect
      else None)"

text \<open>The text \<open>usage\<close>, in UTF-8, line by line.\<close>

definition usage_lines :: "string list" where
  "usage_lines =
     [''tableaux-cli '' @ [CHR 0xE2, CHR 0x80, CHR 0x94] @ '' Go port of tableaux-eink/cli'',
      [],
      ''Usage:'',
      ''  tableaux-cli <command> [flags...]'',
      [],
      ''Commands:'',
      ''  info                 Print panel geometry.'',
      ''  health               Print server health.'',
      ''  fill   --argb 0xRRGGBB --mode <Mode>'',
      ''  refresh --pixels <file> --mode <Mode> [--chunk-bytes 65536]'',
      ''  overlay --enabled'',
      ''  rotate               Force-rotate every credential (admin).'',
      ''  reissue --out ./tls  Reissue client cert+key (admin).'',
      ''  metrics              Print Prometheus metrics.'',
      ''  discover [--timeout 5] [--first]'',
      ''  connect tableaux://...'',
      [],
      ''Common flags (all RPC commands):'',
      ''  -H, --host        Server host (required)'',
      ''  -p, --port        Server port (default 50051)'',
      ''  -t, --token       Bearer token (required unless --insecure-anon)'',
      ''      --cert        Server cert PEM to trust (skip if --insecure)'',
      ''      --client-cert Client cert PEM for mTLS'',
      ''      --client-key  Client key PEM for mTLS'',
      ''      --insecure    Skip TLS (dev only)'']"

definition usage :: string where
  "usage = concat (map (\<lambda>l. l @ [CHR 0x0A]) usage_lines)"

text \<open>
  \<open>main\<close>: the exit status with the lines on standard error, and the final state; a panic ends the
  program with status 2.
\<close>

datatype 'n ending = Ends nat "string list" "'n cli" | Hangs

definition end_of :: "env \<Rightarrow> 'n cli \<Rightarrow> 'n ran \<Rightarrow> 'n ending" where
  "end_of E s r =
     (case r of
        NeverReturns \<Rightarrow> Hangs
      | ExitsWith n m \<Rightarrow> Ends n m s
      | Returns (Ok _) s1 \<Rightarrow> Ends 0 [] s1
      | Returns (Err e) s1 \<Rightarrow> Ends 1 [''error: '' @ err_text E e] s1
      | Returns (Panic p) s1 \<Rightarrow> Ends 2 [''panic: '' @ p] s1)"

definition cli_main :: "('n, 'st) program \<Rightarrow> string list \<Rightarrow> 'n cli \<Rightarrow> 'n ending" where
  "cli_main P argv s =
     (case argv of
        [] \<Rightarrow> Ends 2 [usage] s
      | cmd # args \<Rightarrow>
          (case command_of cmd of
             Some c \<Rightarrow> end_of (ce_env (pg_env P)) s (run_command P c args s)
           | None \<Rightarrow>
               (if cmd \<in> {''-h'', ''--help'', ''help''} then Ends 0 [] (printf [usage] s)
                else Ends 2 [''unknown command '' @ gt_quote (ce_text (pg_env P)) cmd, usage] s)))"

section \<open>Decimal numbers are read back\<close>

lemma digit_code_digit: "is_digit c \<Longrightarrow> digit_code c = Some (digit_val c) \<and> digit_val c < 10 \<and> c \<noteq> CHR ''_''"
  by (auto simp: digit_code_def digit_val_def is_digit_def)

lemma digits64_decimal:
  "list_all is_digit s \<Longrightarrow> foldl (\<lambda>n c. 10 * n + digit_val c) m s < 2 ^ 64 \<Longrightarrow>
     digits64 10 m us s = Inr (foldl (\<lambda>n c. 10 * n + digit_val c) m s, us)"
proof (induction s arbitrary: m)
  case (Cons c cs)
  let ?f = "\<lambda>n c. 10 * n + digit_val c"
  have mono: "n \<le> foldl ?f n t" for n t
  proof (induction t arbitrary: n)
    case (Cons c t)
    have "n \<le> ?f n c" by simp
    also have "\<dots> \<le> foldl ?f (?f n c) t" by (rule Cons.IH)
    finally show ?case by simp
  qed simp
  have d: "digit_code c = Some (digit_val c)" "digit_val c < 10" "c \<noteq> CHR ''_''"
    using Cons.prems(1) digit_code_digit by auto
  have "?f m c < 2 ^ 64" using mono [of "?f m c" cs] Cons.prems(2) by simp
  then have b: "m * 10 + digit_val c < 2 ^ 64" by (simp add: mult.commute)
  then have "\<not> (2 ^ 64 - 1) div 10 + 1 \<le> m" by simp
  with Cons b d show ?case by (simp add: mult.commute)
qed simp

lemma hd_show_nat: "0 < n \<Longrightarrow> hd (show_nat n) \<noteq> CHR ''0''"
proof (induction n rule: show_nat.induct)
  case (1 n)
  show ?case
  proof (cases "n < 10")
    case True
    have "digit n \<noteq> CHR ''0''"
    proof
      assume "digit n = CHR ''0''"
      then have "(of_char (digit n) :: nat) = 48" by simp
      with True 1(2) show False by (simp add: of_char_digit)
    qed
    with True show ?thesis by (simp add: show_nat.simps [of n])
  next
    case False
    with 1 show ?thesis by (simp add: show_nat.simps [of n])
  qed
qed

lemma ParseUint_show_nat: "n < 2 ^ 64 \<Longrightarrow> ParseUint_0_64 (show_nat n) = Inr n"
proof (cases "n = 0")
  case True
  have "show_nat 0 = ''0''" by code_simp
  with True show ?thesis by (simp add: ParseUint_0_64_def base_prefix_def)
next
  case False
  assume "n < 2 ^ 64"
  with digits64_decimal [OF show_nat_digits, of 0 n] read_show_nat [of n]
  have "digits64 10 0 False (show_nat n) = Inr (n, False)" by (simp add: read_nat_def)
  with False hd_show_nat [of n] show ?thesis by (simp add: ParseUint_0_64_def base_prefix_def)
qed

lemma show_nat_sign: "hd (show_nat n) \<noteq> CHR ''+''" "hd (show_nat n) \<noteq> CHR ''-''"
  using show_nat_digits [of n] show_nat_nonempty [of n]
  by (cases "show_nat n"; auto simp: is_digit_def)+

lemma ParseInt_show_nat: "n < 2 ^ 63 \<Longrightarrow> ParseInt_0_64 (show_nat n) = Inr (int n)"
  using ParseUint_show_nat [of n] by (simp add: ParseInt_0_64_def show_nat_sign)

lemma ParseInt_show_int:
  assumes "- (2 ^ 63) \<le> k" and "k < 2 ^ 63"
  shows "ParseInt_0_64 (show_int k) = Inr k"
proof (cases "k < 0")
  case True
  have n: "nat (- k) \<le> 2 ^ 63" using assms(1) by simp
  then have "ParseUint_0_64 (show_nat (nat (- k))) = Inr (nat (- k))"
    by (intro ParseUint_show_nat) simp
  with True n show ?thesis by (simp add: show_int_def ParseInt_0_64_def)
next
  case False
  with assms(2) ParseInt_show_nat [of "nat k"] show ?thesis by (simp add: show_int_def)
qed

section \<open>Flags are read back\<close>

definition flag_arg :: "string \<Rightarrow> string \<Rightarrow> string" where
  "flag_arg name v = ''--'' @ name @ ''='' @ v"

definition flag_name :: "string \<Rightarrow> bool" where
  "flag_name nm \<longleftrightarrow> nm \<noteq> [] \<and> hd nm \<noteq> CHR ''-'' \<and> CHR ''='' \<notin> set nm"

lemma takeWhile_name:
  "CHR ''='' \<notin> set nm \<Longrightarrow> takeWhile (\<lambda>c. c \<noteq> CHR ''='') (nm @ CHR ''='' # v) = nm"
  "CHR ''='' \<notin> set nm \<Longrightarrow> takeWhile (\<lambda>c. c \<noteq> CHR ''='') nm = nm"
  by (induction nm) auto

lemma split_flag_arg: "flag_name nm \<Longrightarrow> split_flag (nm @ CHR ''='' # v) = (nm, Some v)"
  by (simp add: split_flag_def flag_name_def takeWhile_name Let_def)

lemma split_flag_bare: "flag_name nm \<Longrightarrow> split_flag nm = (nm, None)"
  by (simp add: split_flag_def flag_name_def takeWhile_name Let_def)

lemma parse_flag_arg:
  assumes "flag_name nm" and "map_of fs nm = Some st" and "set_flag st v c = Inr c1"
  shows "parse_flags G fs c (flag_arg nm v # rest) = parse_flags G fs c1 rest"
proof -
  have "parse_named G fs nm (Some v) c rest = FlagNext c1 rest"
    using assms(2,3) by (cases st) (simp_all add: parse_named_def flag_set_def)
  moreover obtain x xs where "nm = x # xs" "x \<noteq> CHR ''-''" "x \<noteq> CHR ''=''"
    using assms(1) by (cases nm) (auto simp: flag_name_def)
  ultimately have "parse_one G fs c (flag_arg nm v # rest) = FlagNext c1 rest"
    using split_flag_arg [OF assms(1), of v] by (simp add: parse_one_def flag_arg_def Let_def)
  then show ?thesis by (simp add: parse_flags.simps [of G fs c "flag_arg nm v # rest"])
qed

lemma parse_flag_next:
  assumes "flag_name nm" and "map_of fs nm = Some st" and "set_flag st v c = Inr c1"
    and "\<nexists>f. st = BoolVar f"
  shows "parse_flags G fs c ((CHR ''-'' # nm) # v # rest) = parse_flags G fs c1 rest"
proof -
  have "parse_named G fs nm None c (v # rest) = FlagNext c1 rest"
    using assms(2-4) by (cases st) (simp_all add: parse_named_def flag_set_def)
  moreover obtain x xs where "nm = x # xs" "x \<noteq> CHR ''-''" "x \<noteq> CHR ''=''"
    using assms(1) by (cases nm) (auto simp: flag_name_def)
  ultimately have "parse_one G fs c ((CHR ''-'' # nm) # v # rest) = FlagNext c1 rest"
    using split_flag_bare [OF assms(1)] by (simp add: parse_one_def Let_def)
  then show ?thesis by (simp add: parse_flags.simps [of G fs c "(CHR ''-'' # nm) # v # rest"])
qed

lemma parse_flags_Nil [simp]: "parse_flags G fs c [] = Parsed c"
  by (simp add: parse_flags.simps [of G fs c] parse_one_def)

section \<open>Properties\<close>

text \<open>The common flags, written out.\<close>

definition render_common :: "commonFlags \<Rightarrow> string list" where
  "render_common c =
     [flag_arg ''host'' (cf_host c), flag_arg ''port'' (show_int (cf_port c)),
      flag_arg ''token'' (cf_token c), flag_arg ''cert'' (cf_certFile c),
      flag_arg ''client-cert'' (cf_clientCert c), flag_arg ''client-key'' (cf_clientKey c),
      flag_arg ''insecure'' (show_bool (cf_insecure c))]"

lemma common_lookup:
  "map_of (registerCommonFlags @ ex) ''host'' = Some (StrVar (\<lambda>v. common (\<lambda>c. c\<lparr>cf_host := v\<rparr>)))"
  "map_of (registerCommonFlags @ ex) ''H'' = Some (StrVar (\<lambda>v. common (\<lambda>c. c\<lparr>cf_host := v\<rparr>)))"
  "map_of (registerCommonFlags @ ex) ''port'' = Some (IntVar (\<lambda>v. common (\<lambda>c. c\<lparr>cf_port := v\<rparr>)))"
  "map_of (registerCommonFlags @ ex) ''p'' = Some (IntVar (\<lambda>v. common (\<lambda>c. c\<lparr>cf_port := v\<rparr>)))"
  "map_of (registerCommonFlags @ ex) ''token'' = Some (StrVar (\<lambda>v. common (\<lambda>c. c\<lparr>cf_token := v\<rparr>)))"
  "map_of (registerCommonFlags @ ex) ''t'' = Some (StrVar (\<lambda>v. common (\<lambda>c. c\<lparr>cf_token := v\<rparr>)))"
  "map_of (registerCommonFlags @ ex) ''cert'' = Some (StrVar (\<lambda>v. common (\<lambda>c. c\<lparr>cf_certFile := v\<rparr>)))"
  "map_of (registerCommonFlags @ ex) ''client-cert'' =
     Some (StrVar (\<lambda>v. common (\<lambda>c. c\<lparr>cf_clientCert := v\<rparr>)))"
  "map_of (registerCommonFlags @ ex) ''client-key'' =
     Some (StrVar (\<lambda>v. common (\<lambda>c. c\<lparr>cf_clientKey := v\<rparr>)))"
  "map_of (registerCommonFlags @ ex) ''insecure'' =
     Some (BoolVar (\<lambda>v. common (\<lambda>c. c\<lparr>cf_insecure := v\<rparr>)))"
  by (simp_all add: registerCommonFlags_def)

lemma common_names:
  "flag_name ''host''" "flag_name ''H''" "flag_name ''port''" "flag_name ''p''" "flag_name ''token''"
  "flag_name ''t''" "flag_name ''cert''" "flag_name ''client-cert''" "flag_name ''client-key''"
  "flag_name ''insecure''"
  by (simp_all add: flag_name_def)

lemma ParseBool_show: "ParseBool (show_bool b) = Some b"
  by (simp add: ParseBool_def show_bool_def)

definition int64_ok :: "int \<Rightarrow> bool" where
  "int64_ok k \<longleftrightarrow> - (2 ^ 63) \<le> k \<and> k < 2 ^ 63"

lemma int_flag: "int64_ok k \<Longrightarrow> set_flag (IntVar f) (show_int k) c = Inr (f k c)"
  by (simp add: ParseInt_show_int int64_ok_def)

lemma bool_flag: "set_flag (BoolVar f) (show_bool b) c = Inr (f b c)"
  by (simp add: ParseBool_show)

lemma all_fields:
  "x\<lparr>cf_host := cf_host c, cf_port := cf_port c, cf_token := cf_token c, cf_certFile := cf_certFile c,
     cf_clientCert := cf_clientCert c, cf_clientKey := cf_clientKey c, cf_insecure := cf_insecure c\<rparr>
   = (c :: commonFlags)"
  by (cases c; cases x) simp

lemma parse_common:
  assumes "int64_ok (cf_port c)"
  shows "parse_flags G (registerCommonFlags @ ex) d (render_common c @ rest) =
    parse_flags G (registerCommonFlags @ ex) (d\<lparr>fl_common := c\<rparr>) rest"
  unfolding render_common_def append.simps
  by (simp add: parse_flag_arg [OF _ common_lookup(1) set_flag.simps(1)] common_names
      parse_flag_arg [OF _ common_lookup(3) int_flag [OF assms]]
      parse_flag_arg [OF _ common_lookup(5) set_flag.simps(1)]
      parse_flag_arg [OF _ common_lookup(7) set_flag.simps(1)]
      parse_flag_arg [OF _ common_lookup(8) set_flag.simps(1)]
      parse_flag_arg [OF _ common_lookup(9) set_flag.simps(1)]
      parse_flag_arg [OF _ common_lookup(10) bool_flag] common_def all_fields del: set_flag.simps)

text \<open>
  C40. Flags are read back.  Whatever the host, the token and the file names contain, and for every
  64-bit port, the common flags written as \<open>--name=value\<close> are parsed by every flag set that registers
  them into exactly the same values, and no other variable changes.
\<close>

theorem flags_round_trip:
  assumes "int64_ok (cf_port c)"
  shows "\<forall>fs \<in> {registerCommonFlags, fill_flags, refresh_flags, overlay_flags, reissue_flags}.
    parse_flags G fs d (render_common c) = Parsed (d\<lparr>fl_common := c\<rparr>)"
  using parse_common [OF assms, of G "[]" d "[]"] parse_common [OF assms, of G _ d "[]"]
  by (simp add: fill_flags_def refresh_flags_def overlay_flags_def reissue_flags_def)

lemma flags_round_trip_witness:
  "parse_flags \<lparr>gt_lower = id, gt_quote = id, gt_join = concat\<rparr> refresh_flags refresh_defaults
     (render_common demo_flags) = Parsed (refresh_defaults\<lparr>fl_common := demo_flags\<rparr>)"
proof -
  have "int64_ok (cf_port demo_flags)" by (simp add: int64_ok_def demo_flags_def)
  from bspec [OF flags_round_trip [OF this], of refresh_flags] show ?thesis by simp
qed

text \<open>The arguments of \<open>refresh\<close>.\<close>

definition refresh_args :: "string \<Rightarrow> string \<Rightarrow> int \<Rightarrow> commonFlags \<Rightarrow> string list" where
  "refresh_args path mode k c =
     flag_arg ''pixels'' path # flag_arg ''mode'' mode #
       flag_arg ''chunk-bytes'' (show_int k) # render_common c"

lemma refresh_lookup:
  "map_of refresh_flags ''pixels'' = Some (StrVar (\<lambda>v c. c\<lparr>fl_pixels := v\<rparr>))"
  "map_of refresh_flags ''mode'' = Some (StrVar (\<lambda>v c. c\<lparr>fl_mode := v\<rparr>))"
  "map_of refresh_flags ''chunk-bytes'' = Some (IntVar (\<lambda>v c. c\<lparr>fl_chunkBytes := v\<rparr>))"
  "flag_name ''pixels''" "flag_name ''mode''" "flag_name ''chunk-bytes''"
  by (simp_all add: refresh_flags_def registerCommonFlags_def flag_name_def)

lemma parse_refresh:
  assumes "int64_ok k" and "int64_ok (cf_port c)"
  shows "parse_flags G refresh_flags d (refresh_args path mode k c) =
    Parsed (d\<lparr>fl_pixels := path, fl_mode := mode, fl_chunkBytes := k, fl_common := c\<rparr>)"
proof -
  have "parse_flags G refresh_flags e (render_common c) = Parsed (e\<lparr>fl_common := c\<rparr>)" for e
    using parse_common [OF assms(2), of G _ e "[]"] by (simp add: refresh_flags_def)
  then show ?thesis
    unfolding refresh_args_def
    by (simp add: parse_flag_arg [OF refresh_lookup(4,1) set_flag.simps(1)]
        parse_flag_arg [OF refresh_lookup(5,2) set_flag.simps(1)]
        parse_flag_arg [OF refresh_lookup(6,3) int_flag [OF assms(1)]] del: set_flag.simps)
qed

lemma cli_main_command:
  "command_of cmd = Some c \<Longrightarrow>
     cli_main P (cmd # args) s = end_of (ce_env (pg_env P)) s (run_command P c args s)"
  by (simp add: cli_main_def)

lemma cli_main_refresh:
  assumes "int64_ok k" and "int64_ok (cf_port c)"
  shows "cli_main P (''refresh'' # refresh_args path mode k c) z = end_of (ce_env (pg_env P)) z
    (case cmdRefresh (pg_env P) c path mode k z of None \<Rightarrow> NeverReturns | Some r \<Rightarrow> ran_of r)"
proof -
  have "command_of ''refresh'' = Some CRefresh" by (simp add: command_of_def)
  from cli_main_command [OF this, of P "refresh_args path mode k c" z] show ?thesis
    using parse_refresh [OF assms, of "ce_text (pg_env P)" refresh_defaults path mode]
    by (simp add: with_flags_def)
qed

lemma end_exists: "\<exists>n m. end_of E s (ran_of (r, s')) = Ends n m s' \<and> (n = 0 \<longleftrightarrow> is_ok r)"
  by (cases r) (auto simp: end_of_def)


definition demo_program :: "(wire, out_ctx) program" where
  "demo_program = \<lparr>pg_env = demo_cli_env, pg_resolver = Inr (\<lambda>t. Inr []),
     pg_weird_host = (\<lambda>h. Inl (ErrMsg ''invalid host''))\<rparr>"


lemma refresh_loop_fails:
  assumes "X = pg_env P" and "cf_validate c = None" and "path \<noteq> []"
    and "parseWaveform (ce_text X) mode = (wm, True)"
    and "os_ReadFile (ce_env X) [path] (cl_world z) = (Inr content, v1)"
    and "dial (ce_env X) (ce_client X) c v1 = (Inr (wire_conn E order, ctx), v2)"
    and "cl_net z = \<lparr>wr_server = s, wr_chunks = []\<rparr>"
    and "\<And>n. send_loop (cc_Send (wire_conn E order) ctx) (bytes_of content) k 0 n =
      (if hangs then None else Some (Panic p, n))"
  shows "case cmdRefresh (pg_env P) c path mode k z of
      None \<Rightarrow> hangs
    | Some (r, z') \<Rightarrow> \<not> hangs \<and> r = Panic p \<and> wr_server (cl_net z') = s"
proof -
  have "client_Refresh (wire_conn E order) ctx (cl_net z) = (Ok ctx, \<lparr>wr_server = s, wr_chunks = []\<rparr>)"
    by (simp add: client_Refresh_def wire_conn_def assms(7))
  moreover have "case send_frame (wire_conn E order) ctx wm (bytes_of content) k
      \<lparr>wr_server = s, wr_chunks = []\<rparr> of
      None \<Rightarrow> hangs | Some (r, n') \<Rightarrow> \<not> hangs \<and> r = Panic p \<and> wr_server n' = s"
    using assms(8) by (simp add: send_frame_def wire_conn_def Let_def)
  ultimately show ?thesis
    using assms(1-6)
    by (auto simp: cmdRefresh_def split: option.splits outcome.splits prod.splits)
qed



section \<open>The connect URI at the command line\<close>

lemma parse_connect:
  assumes "n < 2 ^ 63"
  shows "parse_flags G (registerCommonFlags @ ex) d [''-H'', host, ''-p'', show_nat n, ''-t'', tok] =
    Parsed (d\<lparr>fl_common := (fl_common d)\<lparr>cf_host := host, cf_port := int n, cf_token := tok\<rparr>\<rparr>)"
proof -
  have p: "set_flag (IntVar f) (show_nat n) c = Inr (f (int n) c)" for f :: "int \<Rightarrow> cmd_flags \<Rightarrow> cmd_flags" and c
    by (simp add: ParseInt_show_nat [OF assms])
  show ?thesis
    by (simp add: parse_flag_next [OF _ common_lookup(2) set_flag.simps(1)] common_names
        parse_flag_next [OF _ common_lookup(4) p] parse_flag_next [OF _ common_lookup(6) set_flag.simps(1)]
        common_def del: set_flag.simps)
qed

end
