(* ===== verification/Connect.thy ===== *)
theory Connect
  imports Server Cli_Flags
begin

text \<open>
  From the server's QR code to the command line: \<open>ConnectURI\<close> of \<open>einkgrpc/server.go\<close> is read by the
  command \<open>connect\<close> of \<open>tableaux-cli/commands.go\<close>, whose output is read as flags by the other commands.
\<close>

text \<open>The host that goes into the URI.\<close>

definition uri_host :: "string \<Rightarrow> string" where
  "uri_host host = (if host = [] then ''127.0.0.1'' else host)"

lemma ConnectURI_parsed:
  assumes "list_all url_unreserved host"
  shows "url_Parse q weird (ConnectURI E srv host) =
    Inr \<lparr>u_Scheme = ''tableaux'', u_Host = uri_host host @ '':'' @ show_nat (ListeningPort srv),
         u_RawQuery = url_Encode [(''fp'', truncatedFingerprint (cm_Fingerprint E (sv_cm srv))),
           (''token'', cm_Token (sv_cm srv))]\<rparr>"
proof -
  have h: "list_all url_unreserved (uri_host host)"
    using assms by (simp add: uri_host_def url_unreserved_def is_digit_def)
  have s: "list_all (\<lambda>c. CHR ''a'' \<le> c \<and> c \<le> CHR ''z'') ''tableaux''" by (simp add: less_eq_char_def)
  show ?thesis
    using url_Parse_server [OF s _ h show_nat_digits url_Encode_chars, of q weird]
    by (simp add: ConnectURI_def uri_host_def Let_def)
qed

text \<open>
  C11. The QR code connects.  Whatever tokens and certificate the server has, and for every host of
  unreserved characters (an address or a DNS name) or none, \<open>tableaux-cli connect\<close> on the text of
  \<open>ConnectURI\<close> ends with status 0 and prints the host, the port the server listens on, exactly its
  operator token and the truncated fingerprint of its certificate; the flags on its last line, given
  to any other command, are parsed into that host, port and token.
\<close>

theorem connect_round_trip:
  assumes "list_all url_unreserved host" and "ListeningPort srv < 65536"
  shows "let h = uri_host host; port = show_nat (ListeningPort srv); tok = cm_Token (sv_cm srv) in
    cli_main P [''connect'', ConnectURI E srv host] s = Ends 0 [] (printf
      [''host:        '' @ h, ''port:        '' @ port, ''token:       '' @ tok,
       ''fingerprint: '' @ truncatedFingerprint (cm_Fingerprint E (sv_cm srv)), [], ''Equivalent flags:'',
       ''  -H '' @ h @ '' -p '' @ port @ '' -t '' @ tok] s) \<and>
    parse_flags G (registerCommonFlags @ ex) d [''-H'', h, ''-p'', port, ''-t'', tok] =
      Parsed (d\<lparr>fl_common := (fl_common d)
        \<lparr>cf_host := h, cf_port := int (ListeningPort srv), cf_token := tok\<rparr>\<rparr>)"
proof -
  have h: "list_all url_unreserved (uri_host host)"
    using assms(1) by (simp add: uri_host_def url_unreserved_def is_digit_def)
  note p = split_host(3) [OF h show_nat_digits, of "ListeningPort srv"]
  have c: "command_of ''connect'' = Some CConnect" by (simp add: command_of_def)
  have "ListeningPort srv < 2 ^ 63" using assms(2) by simp
  from parse_connect [OF this] show ?thesis
    unfolding cli_main_command [OF c] Let_def
    by (simp add: cmdConnect_def ConnectURI_parsed [OF assms(1)] url_Hostname_def url_Port_def p
        url_Query_def ParseQuery_Encode values_Get_def finish_with_def end_of_def Let_def)
qed

lemma connect_round_trip_witness:
  "\<exists>out. cli_main demo_program [''connect'', ConnectURI demo_env demo_server ''10.0.0.7''] demo_cli =
      Ends 0 [] (printf out demo_cli) \<and>
    ''token:       operator-token-of-32-characters-'' \<in> set out"
proof -
  have a: "list_all url_unreserved ''10.0.0.7''" by (simp add: url_unreserved_def is_digit_def)
  have p: "ListeningPort demo_server < 65536" by (simp add: ListeningPort_def demo_server_def)
  have t: "cm_Token (sv_cm demo_server) = ''operator-token-of-32-characters-''"
    by (simp add: cm_Token_def demo_server_def demo_cm_def)
  show ?thesis
    by (rule exI, rule conjI, rule conjunct1 [OF connect_round_trip [OF a p, unfolded Let_def]]) (simp add: t)
qed

end
