(* ===== verification/Cli_Runs.thy ===== *)
theory Cli_Runs
  imports Cli_Flags Panel
begin

text \<open>
  The program and the server together: what the client stubs of \<open>display_grpc.pb.go\<close> return over a
  lossless connection, and what running \<open>tableaux-cli\<close> then does to the panel and to the files.
\<close>

section \<open>Calls over the wire\<close>

text \<open>A method behind the token check, and its answer as the client of a connection sees it.\<close>

definition guarded ::
    "context_t \<Rightarrow> (svc_state \<Rightarrow> 'a outcome \<times> svc_state) \<Rightarrow> svc_state \<Rightarrow> 'a outcome \<times> svc_state" where
  "guarded ctx call s = (case check (st_cm s) ctx of Some e \<Rightarrow> (Err e, s) | None \<Rightarrow> call s)"

definition over_wire ::
    "out_ctx \<Rightarrow> (svc_state \<Rightarrow> 'a outcome \<times> svc_state) \<Rightarrow> wire \<Rightarrow> 'a outcome \<times> wire" where
  "over_wire ctx call w =
     (case guarded (incoming ctx) call (wr_server w) of
        (r, s) \<Rightarrow> (case reply_of r of Inl e \<Rightarrow> Err e | Inr x \<Rightarrow> Ok x, w\<lparr>wr_server := s\<rparr>))"

lemma over_wire_accepted:
  assumes "check (st_cm (wr_server w)) (incoming ctx) = None"
    and "call (wr_server w) = (r, s)" and "\<not> is_panic r"
  shows "over_wire ctx call w = (r, w\<lparr>wr_server := s\<rparr>)"
  using assms by (cases r) (simp_all add: over_wire_def guarded_def)

lemma handler_guarded:
  assumes "\<And>s. call ctx inn s = box f (op s)"
  shows "unary_Handler fresh call ctx (\<lambda>_. Inr inn) (Some (ta_Unary auth)) s = box f (guarded ctx op s)"
  using assms
  by (simp add: unary_Handler_def ta_Unary_def auth_def NewTokenAuth_def guarded_def box_def
      split: option.split)

lemma stub_over_wire:
  assumes "find (\<lambda>(m, h). full_name (sd_ServiceName (Display_ServiceDesc :: svc_state ServiceDesc)) m = name)
      (sd_Methods Display_ServiceDesc) = Some (m, h)"
    and "h (service_server E order) (incoming ctx) (\<lambda>_. Inr inn) (Some (ta_Unary auth)) (wr_server w) =
      box f (guarded (incoming ctx) op (wr_server w))"
    and "\<And>x. as (f x) = Some x"
  shows "client_call as fresh (wire_conn E order) ctx name inn w = over_wire ctx op w"
proof -
  obtain r s where g: "guarded (incoming ctx) op (wr_server w) = (r, s)" by (metis surj_pair)
  have "wire_invoke E order ctx name inn w = (reply_of (map_outcome f r), w\<lparr>wr_server := s\<rparr>)"
    unfolding wire_invoke_def assms(1) option.case prod.case assms(2) g by (simp add: box_def)
  then show ?thesis
    by (cases r) (simp_all add: client_call_def wire_conn_def over_wire_def g assms(3))
qed

text \<open>The descriptor finds each method by the full name that the stub sends.\<close>

lemma find_method:
  "find (\<lambda>(m, h). full_name (sd_ServiceName (Display_ServiceDesc :: svc_state ServiceDesc)) m = Display_GetInfo_FullMethodName)
     (sd_Methods Display_ServiceDesc) = Some (''GetInfo'', Display_GetInfo_Handler :: svc_state method_handler)"
  "find (\<lambda>(m, h). full_name (sd_ServiceName (Display_ServiceDesc :: svc_state ServiceDesc)) m = Display_Fill_FullMethodName)
     (sd_Methods Display_ServiceDesc) = Some (''Fill'', Display_Fill_Handler :: svc_state method_handler)"
  "find (\<lambda>(m, h). full_name (sd_ServiceName (Display_ServiceDesc :: svc_state ServiceDesc)) m = Display_SetOverlay_FullMethodName)
     (sd_Methods Display_ServiceDesc) = Some (''SetOverlay'', Display_SetOverlay_Handler :: svc_state method_handler)"
  "find (\<lambda>(m, h). full_name (sd_ServiceName (Display_ServiceDesc :: svc_state ServiceDesc)) m = Display_Health_FullMethodName)
     (sd_Methods Display_ServiceDesc) = Some (''Health'', Display_Health_Handler :: svc_state method_handler)"
  "find (\<lambda>(m, h). full_name (sd_ServiceName (Display_ServiceDesc :: svc_state ServiceDesc)) m = Display_Rotate_FullMethodName)
     (sd_Methods Display_ServiceDesc) = Some (''Rotate'', Display_Rotate_Handler :: svc_state method_handler)"
  "find (\<lambda>(m, h). full_name (sd_ServiceName (Display_ServiceDesc :: svc_state ServiceDesc)) m = Display_ReissueClientCert_FullMethodName)
     (sd_Methods Display_ServiceDesc) = Some (''ReissueClientCert'', Display_ReissueClientCert_Handler :: svc_state method_handler)"
  "find (\<lambda>(m, h). full_name (sd_ServiceName (Display_ServiceDesc :: svc_state ServiceDesc)) m = Display_GetMetrics_FullMethodName)
     (sd_Methods Display_ServiceDesc) = Some (''GetMetrics'', Display_GetMetrics_Handler :: svc_state method_handler)"
  by (simp_all add: Display_ServiceDesc_def full_name_def method_name_defs)

lemma stubs_over_wire:
  "client_GetInfo (wire_conn E order) ctx w = over_wire ctx (ds_GetInfo E) w"
  "client_Fill (wire_conn E order) ctx req w = over_wire ctx (ds_Fill E req) w"
  "client_SetOverlay (wire_conn E order) ctx so w = over_wire ctx (ds_SetOverlay E so) w"
  "client_Health (wire_conn E order) ctx w = over_wire ctx (ds_Health E) w"
  "client_Rotate (wire_conn E order) ctx w = over_wire ctx (ds_Rotate E order) w"
  "client_ReissueClientCert (wire_conn E order) ctx w = over_wire ctx (ds_ReissueClientCert E) w"
  "client_GetMetrics (wire_conn E order) ctx w = over_wire ctx (ds_GetMetrics E) w"
  by (unfold client_GetInfo_def client_Fill_def client_SetOverlay_def client_Health_def client_Rotate_def
      client_ReissueClientCert_def client_GetMetrics_def;
    rule stub_over_wire, rule find_method, unfold handler_defs, rule handler_guarded,
    simp add: service_server_def, simp)+


section \<open>Filling the panel from the command line\<close>

definition fill_args :: "string \<Rightarrow> string \<Rightarrow> commonFlags \<Rightarrow> string list" where
  "fill_args argb mode c = flag_arg ''argb'' argb # flag_arg ''mode'' mode # render_common c"

lemma fill_lookup:
  "map_of fill_flags ''argb'' = Some (StrVar (\<lambda>v c. c\<lparr>fl_argb := v\<rparr>))"
  "map_of fill_flags ''mode'' = Some (StrVar (\<lambda>v c. c\<lparr>fl_mode := v\<rparr>))"
  "flag_name ''argb''" "flag_name ''mode''"
  by (simp_all add: fill_flags_def registerCommonFlags_def flag_name_def)

lemma parse_fill:
  assumes "int64_ok (cf_port c)"
  shows "parse_flags G fill_flags d (fill_args argb mode c) =
    Parsed (d\<lparr>fl_argb := argb, fl_mode := mode, fl_common := c\<rparr>)"
proof -
  have "parse_flags G fill_flags e (render_common c) = Parsed (e\<lparr>fl_common := c\<rparr>)" for e
    using parse_common [OF assms, of G _ e "[]"] by (simp add: fill_flags_def)
  then show ?thesis
    unfolding fill_args_def
    by (simp add: parse_flag_arg [OF fill_lookup(3,1) set_flag.simps(1)]
        parse_flag_arg [OF fill_lookup(4,2) set_flag.simps(1)] del: set_flag.simps)
qed

lemma cli_main_fill:
  assumes "int64_ok (cf_port c)"
  shows "cli_main P (''fill'' # fill_args argb mode c) z =
    end_of (ce_env (pg_env P)) z (ran_of (cmdFill (pg_env P) c argb mode z))"
proof -
  have "command_of ''fill'' = Some CFill" by (simp add: command_of_def)
  from cli_main_command [OF this, of P "fill_args argb mode c" z] show ?thesis
    using parse_fill [OF assms, of "ce_text (pg_env P)" fill_defaults argb mode]
    by (simp add: with_flags_def)
qed

text \<open>The pixels of a filled frame.\<close>

lemma pixel_of_replicate:
  "i < n \<Longrightarrow> take 3 (drop (3 * i) (concat (replicate n [a, b, c]))) = [a, b, c]"
proof (induction n arbitrary: i)
  case (Suc n)
  show ?case
  proof (cases i)
    case (Suc j)
    have "drop (3 + k) (a # b # c # xs) = drop k xs" for k and xs :: "'a list"
      by (simp add: numeral_3_eq_3)
    with Suc Suc.IH [of j] Suc.prems show ?thesis by simp
  qed simp
qed simp

lemma fill_bytes_pixels:
  assumes "bs = fill_bytes color argb px"
  shows "if color
    then \<forall>i < length bs div 3. take 3 (drop (3 * i) bs) = [red_of argb, green_of argb, blue_of argb]
    else bs = replicate (length bs) (gray_pair (red_of argb) (green_of argb) (blue_of argb))"
  using assms by (simp add: fill_bytes_def fill_rgb_eq fill_pair_eq pixel_of_replicate Let_def)

text \<open>A dialled command whose stub answers.\<close>

lemma dialled_rpc:
  assumes "dial (ce_env X) (ce_client X) c (cl_world z) = (Inr (conn, ctx), v)"
    and "stub conn ctx (cl_net z) = (r, n)"
  shows "dialled X c (\<lambda>conn ctx. rpc (stub conn ctx) k) z =
    (case r of
       Ok x \<Rightarrow> k x (z\<lparr>cl_world := v, cl_net := n\<rparr>)
     | Err e \<Rightarrow> (Err e, z\<lparr>cl_world := v, cl_net := n\<rparr>)
     | Panic p \<Rightarrow> (Panic p, z\<lparr>cl_world := v, cl_net := n\<rparr>))"
  using assms by (simp add: dialled_def rpc_def)

text \<open>
  C18. \<open>fill\<close>, end to end.  When \<open>tableaux-cli fill\<close> is started with a colour and a mode that it
  understands and the common flags, over a lossless connection and with a valid token, the panel
  receives exactly one buffer, in the requested mode and on the whole panel, with every pixel of the
  frame in the requested colour (on a grayscale panel, in its luminance); the exit status is 0 unless
  the device refused the buffer, and 1 then.
\<close>

theorem fill_program:
  assumes "int64_ok (cf_port c)" and "X = pg_env P" and "cf_validate c = None"
    and "parse_argb (ce_text X) argb = Inr col" and "parseWaveform (ce_text X) mode = (wm, True)"
    and "dial (ce_env X) (ce_client X) c (cl_world z) = (Inr (wire_conn E order, ctx), v)"
    and "wr_server (cl_net z) = s" and "token_ok (cf_token c)" and "valid_token (st_cm s) (cf_token c)"
    and "ds_display (st_svc s) = Some d"
    and "display_AcquireFrame E d (snd (time_now E (st_world s))) = (Ok f, w1)"
    and "frame_bytes f w1 = Some old"
  shows "\<exists>n msgs z' r bs.
    cli_main P (''fill'' # fill_args argb mode c) z = Ends n msgs z' \<and>
    sends (st_world (wr_server (cl_net z'))) =
      EvSend (fd_of w1 (fr_display f)) (commit_info f (translateMode wm) None) bs r # sends (st_world s) \<and>
    length bs = length old \<and>
    (if di_color (fr_info f)
     then \<forall>i < length bs div 3. take 3 (drop (3 * i) bs) = [red_of col, green_of col, blue_of col]
     else bs = replicate (length bs) (gray_pair (red_of col) (green_of col) (blue_of col))) \<and>
    n = (if r = None then 0 else 1)"
proof -
  let ?req = "\<lparr>pfr_Argb = col, pfr_Mode = wm\<rparr>"
  let ?bs = "fill_bytes (di_color (fr_info f)) col old"
  obtain res s' where F: "ds_Fill E ?req s = (res, s')" by (metis surj_pair)
  from Fill_sends [OF assms(10-12) F] obtain r where r: "sends (st_world s') =
      EvSend (fd_of w1 (fr_display f)) (commit_info f (translateMode wm) None) ?bs r # sends (st_world s)"
    "case r of None \<Rightarrow> is_ok res | Some n \<Rightarrow> \<exists>m. res = Err (ErrStatus Internal (''commit: '' @ m))"
    by auto
  have np: "\<not> is_panic res" using r(2) by (cases r; cases res) auto
  have stub: "client_Fill (wire_conn E order) ctx ?req (cl_net z) = (res, cl_net z\<lparr>wr_server := s'\<rparr>)"
    using over_wire_accepted [of "cl_net z" ctx "ds_Fill E ?req", OF _ _ np]
      dial_accepted [OF assms(6,8,9)] F
    by (simp add: stubs_over_wire assms(7))
  obtain n msgs z' where m: "cli_main P (''fill'' # fill_args argb mode c) z = Ends n msgs z'"
    "wr_server (cl_net z') = s'" "n = (if r = None then 0 else 1)"
    using r(2) dialled_rpc [OF assms(6), of "\<lambda>conn ctx. client_Fill conn ctx ?req", OF stub] assms(3-5)
    by (cases r; cases res) (auto simp: cli_main_fill [OF assms(1)] assms(2) [symmetric] cmdFill_def
        end_of_def finish_with_def printf_def)
  have px: "if di_color (fr_info f)
     then \<forall>i < length ?bs div 3. take 3 (drop (3 * i) ?bs) = [red_of col, green_of col, blue_of col]
     else ?bs = replicate (length ?bs) (gray_pair (red_of col) (green_of col) (blue_of col))"
    by (rule fill_bytes_pixels) (rule refl)
  show ?thesis
    by (intro exI conjI, rule m(1), unfold m(2), rule r(1), rule fill.length_paint, rule px, rule m(3))
qed

text \<open>Red, in the mode \<open>Full\<close>, with the operator's token, on the display of the plain environment.\<close>

lemma demo_red: "parse_argb (ce_text demo_cli_env) ''ff0000'' = Inr 0xFF0000"
proof -
  have "map lower_byte ''ff0000'' = ''ff0000''" by code_simp
  then have l: "ToLower (ce_text demo_cli_env) ''ff0000'' = ''ff0000''"
    by (simp only: ToLower_def) (simp add: is_ascii_def)
  have h: "hex_value CHR ''f'' = Some 15" "hex_value CHR ''0'' = Some 0" by code_simp+
  then have "ParseUint_16_32 ''ff0000'' = Inr 0xFF0000" by (simp add: ParseUint_exact)
  with l show ?thesis by (simp add: parse_argb_def trim_prefix_def has_prefix_def)
qed

lemma fill_program_witness:
  "\<exists>n msgs z' f r bs.
     cli_main demo_program (''fill'' # fill_args ''ff0000'' ''Full'' demo_flags) demo_cli = Ends n msgs z' \<and>
     sends (st_world (wr_server (cl_net z'))) = [EvSend 3 (commit_info f (translateMode 7) None) bs r] \<and>
     length bs = 12 \<and> n = (if r = None then 0 else 1)"
proof -
  obtain f w1 old where fr:
    "display_AcquireFrame demo_env 0 (snd (time_now demo_env (st_world demo_svc))) = (Ok f, w1)"
    "frame_bytes f w1 = Some old" "fr_len f = 12" "fd_of w1 = (\<lambda>_. 3)"
    using demo_session_frame by blast
  have l: "length old = 12"
    using acquire_pixels(1) [OF fr(1)] fr(2,3) by (auto simp: frame_bytes_def)
  have k: "int64_ok (cf_port demo_flags)" "demo_cli_env = pg_env demo_program"
    "wr_server (cl_net demo_cli) = demo_svc"
    by (simp_all add: int64_ok_def demo_flags_def demo_program_def demo_session(5))
  from fill_program [OF k(1,2) demo_session(1) demo_red demo_session(2,4) k(3) demo_session(6,7)
      demo_svc_sel(1) fr(1,2)]
  show ?thesis unfolding demo_session(8) fr(4) l by blast
qed

section \<open>Reissuing a client certificate from the command line\<close>

definition reissue_args :: "string \<Rightarrow> commonFlags \<Rightarrow> string list" where
  "reissue_args dir c = flag_arg ''out'' dir # render_common c"

lemma parse_reissue:
  assumes "int64_ok (cf_port c)"
  shows "parse_flags G reissue_flags d (reissue_args dir c) = Parsed (d\<lparr>fl_out := dir, fl_common := c\<rparr>)"
proof -
  have l: "map_of reissue_flags ''out'' = Some (StrVar (\<lambda>v c. c\<lparr>fl_out := v\<rparr>))" "flag_name ''out''"
    by (simp_all add: reissue_flags_def registerCommonFlags_def flag_name_def)
  have "parse_flags G reissue_flags e (render_common c) = Parsed (e\<lparr>fl_common := c\<rparr>)" for e
    using parse_common [OF assms, of G _ e "[]"] by (simp add: reissue_flags_def)
  then show ?thesis
    unfolding reissue_args_def
    by (simp add: parse_flag_arg [OF l(2,1) set_flag.simps(1)] del: set_flag.simps)
qed

lemma cli_main_reissue:
  assumes "int64_ok (cf_port c)"
  shows "cli_main P (''reissue'' # reissue_args dir c) z =
    end_of (ce_env (pg_env P)) z (ran_of (cmdReissue (pg_env P) c dir z))"
proof -
  have "command_of ''reissue'' = Some CReissue" by (simp add: command_of_def)
  from cli_main_command [OF this, of P "reissue_args dir c" z] show ?thesis
    using parse_reissue [OF assms, of "ce_text (pg_env P)" reissue_defaults dir]
    by (simp add: with_flags_def)
qed

text \<open>A successful reissue leaves the same certificate and key in memory, on disk and in the answer.\<close>

lemma reissue_result:
  assumes "obliging E"
  shows "\<exists>s' resp. ds_ReissueClientCert E s = (Ok resp, s') \<and>
    prc_ClientCertPem resp = ClientCertPEM (st_cm s') \<and> prc_ClientKeyPem resp = ClientKeyPEM (st_cm s') \<and>
    prc_ClientCertFingerprint resp = cm_ClientFingerprint E (st_cm s') \<and>
    files (st_world s') (cm_tlsDir (st_cm s) @ [''client-cert.pem'']) = Some (ClientCertPEM (st_cm s')) \<and>
    files (st_world s') (cm_tlsDir (st_cm s) @ [''client-key.pem'']) = Some (ClientKeyPEM (st_cm s')) \<and>
    st_tasks s' = st_tasks s @
      (if ds_rotateRequest (st_svc s) then [CallRotateRequestAfter (prc_ServerRestartInMs resp * 1000000)] else [])"
proof -
  have w: "\<exists>v'. os_WriteFile E p d v = (None, v')" for p d v
    using assms by (simp add: os_WriteFile_def obliging_def)
  obtain c k w1 where g: "genSelfSigned E ''tableaux-eink client'' (st_world s) = (Inr (c, k), w1)"
    using gen_obliging [of E] assms unfolding obliging_def by blast
  let ?d = "cm_tlsDir (st_cm s)"
  obtain w2 where w2: "os_WriteFile E (?d @ [''client-cert.pem'']) c w1 = (None, w2)" using w by blast
  obtain w3 where w3: "os_WriteFile E (?d @ [''client-key.pem'']) k w2 = (None, w3)" using w by blast
  have t: "cm_tlsDir (cm\<lparr>clientCer := x, clientKey := y\<rparr>) = cm_tlsDir cm" for cm x y
    by simp
  show ?thesis
    using g w2 w3 WriteFile_None_files [OF w2] WriteFile_None_files [OF w3]
    by (simp add: ds_ReissueClientCert_def cm_ReissueClientCert_def t spawn_def ClientCertPEM_def
        ClientKeyPEM_def Let_def)
qed

text \<open>
  C19. \<open>reissue\<close>, end to end.  When \<open>tableaux-cli reissue\<close> is started with a directory and the common
  flags, over a lossless connection and with a valid token, and neither side's files fail, it ends
  with status 0: the certificate and the key in that directory are the ones the server now holds in
  memory and on its own disk, the printed fingerprint is that of this certificate, and the server
  has scheduled its restart (if it has a restart callback) for the time that was announced.
\<close>

theorem reissue_program:
  assumes "int64_ok (cf_port c)" and "X = pg_env P" and "cf_validate c = None"
    and "dial (ce_env X) (ce_client X) c (cl_world z) = (Inr (wire_conn E order, ctx), v)"
    and "wr_server (cl_net z) = s" and "token_ok (cf_token c)" and "valid_token (st_cm s) (cf_token c)"
    and "obliging E" and "\<forall>h p. e_mkdir (ce_env X) h p = None"
    and "\<forall>h p x. e_writefile (ce_env X) h p x = None"
  shows "\<exists>z' s' ms. cli_main P (''reissue'' # reissue_args dir c) z = Ends 0 [] z' \<and>
    wr_server (cl_net z') = s' \<and>
    files (cl_world z') [dir, ''client-cert.pem''] = Some (ClientCertPEM (st_cm s')) \<and>
    files (cl_world z') [dir, ''client-key.pem''] = Some (ClientKeyPEM (st_cm s')) \<and>
    files (st_world s') (cm_tlsDir (st_cm s) @ [''client-cert.pem'']) = Some (ClientCertPEM (st_cm s')) \<and>
    files (st_world s') (cm_tlsDir (st_cm s) @ [''client-key.pem'']) = Some (ClientKeyPEM (st_cm s')) \<and>
    ''fingerprint: '' @ cm_ClientFingerprint E (st_cm s') \<in> set (cl_out z') \<and>
    ''server restart in: '' @ show_int ms @ '' ms'' \<in> set (cl_out z') \<and>
    st_tasks s' = st_tasks s @
      (if ds_rotateRequest (st_svc s) then [CallRotateRequestAfter (ms * 1000000)] else [])"
proof -
  obtain s' resp where R: "ds_ReissueClientCert E s = (Ok resp, s')"
    and r: "prc_ClientCertPem resp = ClientCertPEM (st_cm s')" "prc_ClientKeyPem resp = ClientKeyPEM (st_cm s')"
      "prc_ClientCertFingerprint resp = cm_ClientFingerprint E (st_cm s')"
    and f: "files (st_world s') (cm_tlsDir (st_cm s) @ [''client-cert.pem'']) = Some (ClientCertPEM (st_cm s'))"
      "files (st_world s') (cm_tlsDir (st_cm s) @ [''client-key.pem'']) = Some (ClientKeyPEM (st_cm s'))"
      "st_tasks s' = st_tasks s @ (if ds_rotateRequest (st_svc s)
         then [CallRotateRequestAfter (prc_ServerRestartInMs resp * 1000000)] else [])"
    using reissue_result [OF assms(8)] by blast
  have stub: "client_ReissueClientCert (wire_conn E order) ctx (cl_net z) = (Ok resp, cl_net z\<lparr>wr_server := s'\<rparr>)"
    using over_wire_accepted [of "cl_net z" ctx "ds_ReissueClientCert E" "Ok resp" s']
      dial_accepted [OF assms(4,6,7)] R
    by (simp add: stubs_over_wire assms(5))
  have w: "\<exists>v'. os_WriteFile (ce_env X) p d v = (None, v')" for p d v
    using assms(10) by (simp add: os_WriteFile_def)
  obtain v1 where v1: "os_MkdirAll (ce_env X) [dir] v = (None, v1)"
    using assms(9) by (simp add: os_MkdirAll_def)
  obtain v2 where v2: "os_WriteFile (ce_env X) [dir, ''client-cert.pem''] (prc_ClientCertPem resp) v1 = (None, v2)"
    using w by blast
  obtain v3 where v3: "os_WriteFile (ce_env X) [dir, ''client-key.pem''] (prc_ClientKeyPem resp) v2 = (None, v3)"
    using w by blast
  let ?out = "[''wrote '' @ gt_join (ce_text X) [dir, ''client-cert.pem''],
    ''wrote '' @ gt_join (ce_text X) [dir, ''client-key.pem''],
    ''fingerprint: '' @ prc_ClientCertFingerprint resp,
    ''server restart in: '' @ show_int (prc_ServerRestartInMs resp) @ '' ms'']"
  have m: "cli_main P (''reissue'' # reissue_args dir c) z =
      Ends 0 [] (z\<lparr>cl_world := v3, cl_net := cl_net z\<lparr>wr_server := s'\<rparr>, cl_out := cl_out z @ ?out\<rparr>)"
    using dialled_rpc [OF assms(4), of client_ReissueClientCert, OF stub] assms(3) v1 v2 v3
    by (simp add: cli_main_reissue [OF assms(1)] assms(2) [symmetric] cmdReissue_def save_reissued_def
        finish_with_def printf_def end_of_def)
  have "files v3 [dir, ''client-cert.pem''] = Some (ClientCertPEM (st_cm s'))"
    "files v3 [dir, ''client-key.pem''] = Some (ClientKeyPEM (st_cm s'))"
    using WriteFile_None_files [OF v2] WriteFile_None_files [OF v3] r by simp_all
  with m f r show ?thesis by (intro exI [of _ "prc_ServerRestartInMs resp"] exI) auto
qed

lemma reissue_program_witness:
  "\<exists>z' s'. cli_main demo_program (''reissue'' # reissue_args ''tls'' demo_flags) demo_cli = Ends 0 [] z' \<and>
     wr_server (cl_net z') = s' \<and>
     files (cl_world z') [''tls'', ''client-cert.pem''] = Some (ClientCertPEM (st_cm s'))"
proof -
  have k: "int64_ok (cf_port demo_flags)" "demo_cli_env = pg_env demo_program"
    "wr_server (cl_net demo_cli) = demo_svc"
    by (simp_all add: int64_ok_def demo_flags_def demo_program_def demo_session(5))
  have e: "\<forall>h p. e_mkdir (ce_env demo_cli_env) h p = None"
    "\<forall>h p x. e_writefile (ce_env demo_cli_env) h p x = None"
    by (simp_all add: demo_cli_env_def demo_env_def)
  from reissue_program [OF k(1,2) demo_session(1,4) k(3) demo_session(6,7) demo_obliging e, of "''tls''"]
  show ?thesis by blast
qed

end
