(* ===== verification/Cli_Usage.thy ===== *)
theory Cli_Usage
  imports Cli_Flags
begin

text \<open>
  The text \<open>usage\<close> of \<open>tableaux-cli/main.go\<close> against the program: which commands and flags the text
  names, and which ones the dispatch and the flag sets know.
\<close>

section \<open>Reading the text\<close>

text \<open>Words, cut at spaces and brackets, and the flags among them without their dashes.\<close>

definition delimiter :: "char \<Rightarrow> bool" where
  "delimiter c \<longleftrightarrow> c \<in> {CHR '' '', CHR '','', CHR ''('', CHR '')'', CHR ''['', CHR '']''}"

fun words_of :: "string \<Rightarrow> string \<Rightarrow> string list" where
  "words_of w [] = (if w = [] then [] else [rev w])"
| "words_of w (c # cs) =
     (if delimiter c then (if w = [] then words_of [] cs else rev w # words_of [] cs)
      else words_of (c # w) cs)"

definition flags_in :: "string \<Rightarrow> string list" where
  "flags_in l = map (dropWhile (\<lambda>c. c = CHR ''-''))
     (filter (\<lambda>w. w \<noteq> [] \<and> hd w = CHR ''-'') (words_of [] l))"

text \<open>A paragraph: the lines after a heading, up to an empty line.\<close>

definition paragraph_of :: "string \<Rightarrow> string list" where
  "paragraph_of h = takeWhile (\<lambda>l. l \<noteq> []) (tl (dropWhile (\<lambda>l. l \<noteq> h) usage_lines))"

text \<open>Each command of the text with the flags that its line names.\<close>

definition documented :: "(string \<times> string list) list" where
  "documented = map (\<lambda>l. (hd (words_of [] l), flags_in l)) (paragraph_of ''Commands:'')"

definition documented_common :: "string list" where
  "documented_common = concat (map flags_in (paragraph_of ''Common flags (all RPC commands):''))"

text \<open>The flags a command registers beside the common ones.\<close>

fun own_flags :: "command \<Rightarrow> string list" where
  "own_flags CFill = map fst (drop (length registerCommonFlags) fill_flags)"
| "own_flags CRefresh = map fst (drop (length registerCommonFlags) refresh_flags)"
| "own_flags COverlay = map fst (drop (length registerCommonFlags) overlay_flags)"
| "own_flags CReissue = map fst (drop (length registerCommonFlags) reissue_flags)"
| "own_flags CDiscover = map fst discover_flags"
| "own_flags _ = []"

lemma documented_eq:
  "documented =
     [(''info'', []), (''health'', []), (''fill'', [''argb'', ''mode'']),
      (''refresh'', [''pixels'', ''mode'', ''chunk-bytes'']), (''overlay'', [''enabled'']), (''rotate'', []),
      (''reissue'', [''out'']), (''metrics'', []), (''discover'', [''timeout'', ''first'']), (''connect'', [])]"
  by code_simp

lemma documented_common_eq:
  "documented_common =
     [''H'', ''host'', ''p'', ''port'', ''t'', ''token'', ''insecure-anon'', ''cert'', ''insecure'', ''client-cert'',
      ''client-key'', ''insecure'']"
  by code_simp

lemma own_flags_eq:
  "own_flags CFill = [''argb'', ''mode'']" "own_flags CRefresh = [''pixels'', ''mode'', ''chunk-bytes'']"
  "own_flags COverlay = [''enabled'']" "own_flags CReissue = [''out'']"
  "own_flags CDiscover = [''timeout'', ''first'']"
  by (simp_all add: fill_flags_def refresh_flags_def overlay_flags_def reissue_flags_def discover_flags_def)

text \<open>A flag without a value that no flag set has.\<close>

lemma unknown_flag:
  assumes "flag_name nm" and "nm \<noteq> ''help''" and "nm \<noteq> ''h''" and "map_of fs nm = None"
  shows "parse_flags G fs c ((''--'' @ nm) # args) = Exits 2 [''flag provided but not defined: -'' @ nm]"
proof -
  have "parse_named G fs nm None c args = FlagFail (''flag provided but not defined: -'' @ nm)"
    using assms(2-4) by (simp add: parse_named_def)
  moreover obtain x xs where "nm = x # xs" "x \<noteq> CHR ''-''" "x \<noteq> CHR ''=''"
    using assms(1) by (cases nm) (auto simp: flag_name_def)
  ultimately have "parse_one G fs c ((''--'' @ nm) # args) =
      FlagFail (''flag provided but not defined: -'' @ nm)"
    using split_flag_bare [OF assms(1)] by (simp add: parse_one_def Let_def)
  then show ?thesis by (simp add: parse_flags.simps [of G fs c "(CHR ''-'' # CHR ''-'' # nm) # args"])
qed

lemma no_insecure_anon:
  "map_of registerCommonFlags ''insecure-anon'' = None" "map_of fill_flags ''insecure-anon'' = None"
  "map_of refresh_flags ''insecure-anon'' = None" "map_of overlay_flags ''insecure-anon'' = None"
  "map_of reissue_flags ''insecure-anon'' = None" "map_of discover_flags ''insecure-anon'' = None"
  by (simp_all add: fill_flags_def refresh_flags_def overlay_flags_def reissue_flags_def
      discover_flags_def registerCommonFlags_def)

section \<open>Properties\<close>

text \<open>
  What the usage text says.  The commands it lists are exactly those that \<open>main\<close> dispatches, and
  the line of each names exactly the flags that this command registers beside the common ones.  The
  common flags it names are the registered ones and \<open>insecure-anon\<close>: that flag, without which the
  text calls a token required, is defined by no command, and every command that gets it exits with
  status 2.
\<close>

lemma usage_is_accurate:
  "(command_of cmd \<noteq> None \<longleftrightarrow> cmd \<in> set (map fst documented)) \<and>
   list_all (\<lambda>(m, fs). map_option (\<lambda>c. set (own_flags c)) (command_of m) = Some (set fs)) documented \<and>
   set documented_common = insert ''insecure-anon'' (set (map fst registerCommonFlags)) \<and>
   (c = CConnect \<or>
     run_command P c (''--insecure-anon'' # args) s =
       ExitsWith 2 [''flag provided but not defined: -insecure-anon''])"
proof (intro conjI)
  show "command_of cmd \<noteq> None \<longleftrightarrow> cmd \<in> set (map fst documented)"
    by (simp add: documented_eq command_of_def)
  show "list_all (\<lambda>(m, fs). map_option (\<lambda>c. set (own_flags c)) (command_of m) = Some (set fs)) documented"
    by (simp add: documented_eq command_of_def own_flags_eq del: own_flags.simps(1-5))
  show "set documented_common = insert ''insecure-anon'' (set (map fst registerCommonFlags))"
    by (simp add: documented_common_eq registerCommonFlags_def insert_commute)
  have "flag_name ''insecure-anon''" by (simp add: flag_name_def)
  note u = unknown_flag [OF this _ _ no_insecure_anon(1), of G d args for G d]
    unknown_flag [OF this _ _ no_insecure_anon(2), of G d args for G d]
    unknown_flag [OF this _ _ no_insecure_anon(3), of G d args for G d]
    unknown_flag [OF this _ _ no_insecure_anon(4), of G d args for G d]
    unknown_flag [OF this _ _ no_insecure_anon(5), of G d args for G d]
    unknown_flag [OF this _ _ no_insecure_anon(6), of G d args for G d]
  show "c = CConnect \<or> run_command P c (''--insecure-anon'' # args) s =
       ExitsWith 2 [''flag provided but not defined: -insecure-anon'']"
    using u by (cases c) (simp_all add: with_flags_def)
qed

end
