(* ===== verification/Spec2Isabelle.thy ===== *)
theory Spec2Isabelle
  imports Display_Session Close_Race Rpc_Conc Reissue App_Api App_Conc Connect Cli_Runs Cli_Usage
begin

text \<open>
  \<^bold>\<open>Verification of tableaux-eink-go.\<close>

  The program drives a Rockchip e-paper panel from Android.  An operator uploads a picture over
  gRPC; the server writes it into a frame that the kernel maps, and commits the frame with a
  waveform mode.  Its parts call each other from top to bottom:

  \<^item> \<open>einkapp\<close>, the package the Android host calls: start, stop, rotate, look at the state;
  \<^item> \<open>einkgrpc/server.go\<close>, which owns listener, gRPC server, registrar and credentials;
  \<^item> \<open>einkproto/display_grpc.pb.go\<close>, which connects method names with handlers, and handlers with the
    interceptors of \<open>einkgrpc/tokenauth.go\<close>;
  \<^item> \<open>einkgrpc/displayservice.go\<close>, the eight RPCs;
  \<^item> \<open>einkgrpc/certmanager.go\<close> (certificates and tokens) and \<open>einkgrpc/mdns*.go\<close> (advertising);
  \<^item> \<open>einklib\<close>, the display, its frames, the waveform modes and painting;
  \<^item> \<open>tableaux-cli\<close>, the client.

  \<^bold>\<open>The world.\<close>  Everything outside the program (device, files, clock, random source,
  cryptography, sockets, zeroconf, the Android service) is the record \<open>env\<close> of the theory \<open>World\<close>.
  Each of its functions gets the history of all earlier calls, so nothing is assumed about it; where
  a theorem needs documented behaviour (\<open>mmap\<close> does not reuse a live address, \<open>open\<close> gives no negative
  descriptor, cryptography works) that is a named hypothesis, and \<open>demo_env\<close> is an environment that
  has them all.  The record \<open>world\<close> holds the history, the mapped memory, the files and the display
  objects; operations take a world and return a new one.  Errors are values of
  \<open>outcome\<close> (\<open>Ok\<close>, \<open>Err\<close>, \<open>Panic\<close>).  Integers that the code keeps in \<open>int32\<close>, \<open>uint32\<close>, \<open>int64\<close> or bytes
  are words, or integers wrapped by \<open>wrap64\<close> where Go's \<open>int\<close> may overflow.

  \<^bold>\<open>Theories, in the order of their imports.\<close>

  \<^item> \<open>Prelude\<close>: errors, Go slices and strings (\<open>copy\<close>, \<open>TrimSpace\<close>, \<open>Join\<close>, \<open>%d\<close>); \<open>Op_System\<close>: the
    locales for "every operation keeps the invariant" and for step relations; \<open>Name_Codec\<close>: the locale
    for texts that stand for values; \<open>Interleave\<close>: goroutines as a list of program counters over a shared
    state, with the locales for what every interleaving keeps
    and for runs that go forward and can end; \<open>Encoding\<close>: base64url and hexadecimal; \<open>Net_Url\<close>: what the program
    uses of the package \<open>net/url\<close>, encoding and parsing, with the proof that encoded queries are parsed
    back.
  \<^item> \<open>Waveform\<close>, \<open>Display\<close>, \<open>Bitmap\<close>: \<open>einklib\<close>.  \<open>Display_Session\<close>: any sequence of its calls.  The
    lemmas show that \<open>ParseWaveformMode\<close> inverts \<open>String\<close>, what painting writes, that frames are
    drawn on only while they are mapped, and that mappings and pending frames correspond.  \<open>Close_Race\<close>:
    \<open>Commit\<close> and \<open>Close\<close> cut into steps, with other files opened in between; the calls under the mutex
    stay with the device, \<open>Commit\<close>, which does not take it, may not; nobody waits for ever.
  \<^item> \<open>Cert_Manager\<close>, \<open>Token_Auth\<close>: credentials on disk and in memory, and the guard of all RPCs.  The
    lemmas show the round trip through a restart, what a failed rotation leaves, and that exactly the
    current tokens pass.
  \<^item> \<open>Proto\<close>, \<open>Grpc_Runtime\<close>, \<open>Display_Service\<close>, \<open>Grpc_Service\<close>: messages, RPCs, handlers, client stub.
    \<open>upload\<close> is the abstract protocol of an upload and \<open>ds_Refresh\<close> refines it.
  \<^item> \<open>Footprint\<close>, \<open>Rpc_Runs\<close>: what the operations leave alone, and whole sessions of RPCs dispatched through
    the service descriptor: rejected requests have no effect, nothing panics, mappings are lost only
    to refused commits, credentials stay usable, answers have the types that the client stubs decode.
    \<open>Panel\<close>: the log of the panel after a session is, in order, what the admitted requests asked for.
    \<open>Draw_Conc\<close>: \<open>Fill\<close> and \<open>Refresh\<close> as steps that a schedule interleaves; an undisturbed goroutine is the
    handler of \<open>Display_Service\<close>, every goroutine ends, and the pictures do not mix as long as each
    mapping has memory of its own, which the theories of whole sessions take for granted.  \<open>Rpc_Conc\<close>:
    the goroutines of all eight RPCs, from the token check to the answer, while the host may close the
    display; the same results for them.
  \<^item> \<open>Mdns\<close>, \<open>Server\<close>: life cycle of one server with the locale \<open>registrar\<close>.  \<open>Server_Conc\<close>: the steps
    of concurrent \<open>Start\<close> and \<open>Stop\<close> as an inductive relation, with its invariant, the proof that an
    undisturbed call is the sequential one, and an interleaving that loses the server.  \<open>Reissue\<close>: when
    a running server comes to trust a reissued client certificate.
  \<^item> \<open>Quiet\<close>: frame conditions (which operations leave network and descriptors alone).  \<open>App\<close>: the
    state of \<open>einkapp\<close> and its calls; what they keep, what they lose, when they succeed.  \<open>App_Api\<close>: the
    exported functions over the Android build or the stubs of other systems, which agree before \<open>Init\<close>.
    \<open>App_Conc\<close>: concurrent calls, with the servers in a heap; starts and stops lose nothing on the
    network, a rotation among them can undo a stop or lose a server.
  \<^item> \<open>Cli_Args\<close>, \<open>Cli\<close>, \<open>Cli_Flags\<close>: the client, from its argument vector to its exit status, with the
    flags parsed as the standard packages \<open>flag\<close> and \<open>strconv\<close> do.  \<open>Connect\<close>: the text of the server's QR
    code, read by \<open>connect\<close>, whose output is read as flags again.  The locale \<open>chunk_sink\<close> relates its
    chunk loop to a receiver; on a lossless connection to the model of the server, \<open>refresh\<close> puts
    exactly the file on the panel.  \<open>Cli_Runs\<close>: on that connection every stub is the method of the
    service behind the token check, so \<open>fill\<close> and \<open>reissue\<close> are followed from the argument vector to
    the panel and to the files.  \<open>Cli_Usage\<close>: the usage text against the dispatch and the flag sets.

  \<^bold>\<open>Loops and termination.\<close>  All loops are structural recursions or \<open>function\<close>s with a measure,
  except the chunk loop of the client, which may run for ever (\<open>--chunk-bytes 0\<close>): it is a
  \<open>partial_function\<close> whose result \<open>None\<close> means that it does not return, and both its termination for
  positive sizes and its divergence for 0 are proved.  No fuel is used.

  \<^bold>\<open>Concurrency.\<close>  Methods that hold a mutex from beginning to end are single steps.  \<open>Server.Stop\<close> (in
  \<open>Server_Conc\<close>), \<open>Fill\<close> and \<open>Refresh\<close> (\<open>Draw_Conc\<close>, \<open>Rpc_Conc\<close>), \<open>doStop\<close> and \<open>doRotate\<close> (\<open>App_Conc\<close>) and
  \<open>Commit\<close> (\<open>Close_Race\<close>) do not, and are split in the theories named; each of these has a lemma or
  theorem that an undisturbed call is the function of the sequential theories.  There, one call
  follows the other.  The iteration order of Go maps, which is random, is an argument.

  \<^bold>\<open>Not modelled.\<close>  The Kotlin host; protobuf reflection and wire format, gRPC and TLS themselves;
  hosts with brackets or several colons that releases of \<open>net/url\<close> treat differently (a parameter);
  the usage texts that \<open>flag\<close> generates; deadlines, which show only as errors of calls; logging other
  than the observer; the notification objects; Go's memory model below the atomic accesses.
\<close>

end
